(* ===== verification/Kernel_Prelude.thy ===== *)
theory Kernel_Prelude
  imports Main "HOL-Library.Monad_Syntax" "HOL-Library.Signed_Division"
begin

text \<open>
  Shared vocabulary of the development: the C++ fixed-width signed integers, the
  partial operations on them, and a small calculus for computations that can run into
  undefined behaviour.

  A C++ \<^verbatim>\<open>std::int64_t\<close> or \<^verbatim>\<open>std::int32_t\<close> is an \<^typ>\<open>int\<close>. Signed overflow is
  undefined behaviour in C++ (it does not wrap), so each arithmetic operation whose
  result could leave its width goes through a checked operator that returns \<^term>\<open>None\<close>
  when the exact result does not fit. A model function of type \<open>'a option\<close> thus returns
  \<^term>\<open>None\<close> exactly on the inputs for which the C++ code has no defined meaning.
  The quotient of \<^verbatim>\<open>/\<close> on signed integers truncates towards zero (\<open>sdiv\<close>).
\<close>

section \<open>Fixed-width signed integers\<close>

type_synonym i64 = int
type_synonym i32 = int

abbreviation (input) INT64_MAX :: int where "INT64_MAX \<equiv> 9223372036854775807"
abbreviation (input) INT64_MIN :: int where "INT64_MIN \<equiv> -9223372036854775808"
abbreviation (input) INT32_MAX :: int where "INT32_MAX \<equiv> 2147483647"
abbreviation (input) INT32_MIN :: int where "INT32_MIN \<equiv> -2147483648"

definition in_i64 :: "int \<Rightarrow> bool" where
  "in_i64 x \<longleftrightarrow> INT64_MIN \<le> x \<and> x \<le> INT64_MAX"

definition in_i32 :: "int \<Rightarrow> bool" where
  "in_i32 x \<longleftrightarrow> INT32_MIN \<le> x \<and> x \<le> INT32_MAX"

definition chk64 :: "int \<Rightarrow> i64 option" where
  "chk64 x = (if in_i64 x then Some x else None)"

definition chk32 :: "int \<Rightarrow> i32 option" where
  "chk32 x = (if in_i32 x then Some x else None)"

definition add64 :: "i64 \<Rightarrow> i64 \<Rightarrow> i64 option" where "add64 a b = chk64 (a + b)"
definition sub64 :: "i64 \<Rightarrow> i64 \<Rightarrow> i64 option" where "sub64 a b = chk64 (a - b)"
definition mul64 :: "i64 \<Rightarrow> i64 \<Rightarrow> i64 option" where "mul64 a b = chk64 (a * b)"
definition neg64 :: "i64 \<Rightarrow> i64 option" where "neg64 a = chk64 (- a)"
definition div64 :: "i64 \<Rightarrow> i64 \<Rightarrow> i64 option" where
  "div64 a b = (if b = 0 then None else chk64 (a sdiv b))"
definition add32 :: "i32 \<Rightarrow> i32 \<Rightarrow> i32 option" where "add32 a b = chk32 (a + b)"
definition sub32 :: "i32 \<Rightarrow> i32 \<Rightarrow> i32 option" where "sub32 a b = chk32 (a - b)"

lemmas checked_defs = add64_def sub64_def mul64_def neg64_def div64_def add32_def sub32_def

section \<open>Computations that may be undefined\<close>

text \<open>
  \<open>ok m P\<close>: the computation is defined and its result satisfies \<open>P\<close> (total
  correctness). \<open>post m P\<close>: if it is defined, its result satisfies \<open>P\<close>. Both
  distribute over the option monad as equations, collected in \<open>wp\<close>, so that
  \<^theory_text>\<open>simp add: wp\<close> computes the precondition of a program text.
\<close>

named_theorems wp

definition ok :: "'a option \<Rightarrow> ('a \<Rightarrow> bool) \<Rightarrow> bool" where
  "ok m P = (case m of None \<Rightarrow> False | Some x \<Rightarrow> P x)"

definition post :: "'a option \<Rightarrow> ('a \<Rightarrow> bool) \<Rightarrow> bool" where
  "post m P = (case m of None \<Rightarrow> True | Some x \<Rightarrow> P x)"

lemma ok_Some [wp, simp]: "ok (Some x) P = P x"
  and ok_None [wp, simp]: "ok None P = False"
  by (simp_all add: ok_def)

lemma post_Some [wp, simp]: "post (Some x) P = P x"
  and post_None [wp, simp]: "post None P = True"
  by (simp_all add: post_def)

lemma ok_bind [wp]: "ok (Option.bind m f) P = ok m (\<lambda>x. ok (f x) P)"
  by (cases m) simp_all

lemma post_bind [wp]: "post (Option.bind m f) P = post m (\<lambda>x. post (f x) P)"
  by (cases m) simp_all

lemma ok_if [wp]: "ok (if b then m else n) P = (if b then ok m P else ok n P)"
  and post_if [wp]: "post (if b then m else n) P = (if b then post m P else post n P)"
  by simp_all

lemma ok_prod [wp]: "ok (case p of (x, y) \<Rightarrow> f x y) P = (case p of (x, y) \<Rightarrow> ok (f x y) P)"
  and post_prod [wp]: "post (case p of (x, y) \<Rightarrow> f x y) P = (case p of (x, y) \<Rightarrow> post (f x y) P)"
  by (simp_all split: prod.split)

lemma ok_iff: "ok m P \<longleftrightarrow> (\<exists>x. m = Some x \<and> P x)"
  by (cases m) simp_all

lemma okD: "ok m P \<Longrightarrow> m = Some x \<Longrightarrow> P x"
  by simp

lemma okE:
  assumes "ok m P"
  obtains x where "m = Some x" "P x"
  using assms by (auto simp: ok_iff)

lemma ok_mono: "ok m P \<Longrightarrow> (\<And>x. m = Some x \<Longrightarrow> P x \<Longrightarrow> Q x) \<Longrightarrow> ok m Q"
  by (cases m) simp_all

lemma post_mono: "post m P \<Longrightarrow> (\<And>x. m = Some x \<Longrightarrow> P x \<Longrightarrow> Q x) \<Longrightarrow> post m Q"
  by (cases m) simp_all

lemma postI: "(\<And>x. m = Some x \<Longrightarrow> P x) \<Longrightarrow> post m P"
  by (cases m) simp_all

lemma postD: "post m P \<Longrightarrow> m = Some x \<Longrightarrow> P x"
  by simp

lemma ok_imp_post: "ok m P \<Longrightarrow> post m P"
  by (cases m) simp_all

lemma ok_chk64 [wp]: "ok (chk64 x) P \<longleftrightarrow> in_i64 x \<and> P x"
  and ok_chk32 [wp]: "ok (chk32 x) P \<longleftrightarrow> in_i32 x \<and> P x"
  and post_chk64 [wp]: "post (chk64 x) P \<longleftrightarrow> (in_i64 x \<longrightarrow> P x)"
  and post_chk32 [wp]: "post (chk32 x) P \<longleftrightarrow> (in_i32 x \<longrightarrow> P x)"
  by (simp_all add: chk64_def chk32_def)

lemma chk64_eq_Some [simp]: "chk64 x = Some y \<longleftrightarrow> y = x \<and> in_i64 x"
  and chk32_eq_Some [simp]: "chk32 x = Some y \<longleftrightarrow> y = x \<and> in_i32 x"
  by (auto simp: chk64_def chk32_def)

section \<open>Ranges\<close>

lemma in_i64_zero [simp]: "in_i64 0" and in_i32_zero [simp]: "in_i32 0"
  by (simp_all add: in_i64_def in_i32_def)

lemma in_i64_abs_le: "\<bar>x\<bar> \<le> INT64_MAX \<Longrightarrow> in_i64 x"
  by (auto simp: in_i64_def)

lemma in_i32_between: "in_i32 a \<Longrightarrow> in_i32 b \<Longrightarrow> a \<le> x \<Longrightarrow> x \<le> b \<Longrightarrow> in_i32 x"
  by (simp add: in_i32_def)

lemma in_i32_imp_in_i64: "in_i32 x \<Longrightarrow> in_i64 x"
  by (simp add: in_i32_def in_i64_def)

section \<open>Truncating division\<close>

lemma sdiv_nonneg_eq: "0 \<le> a \<Longrightarrow> 0 < b \<Longrightarrow> a sdiv b = a div b" for a b :: int
  by (cases "a = 0") (simp_all add: signed_divide_int_def sgn_if)

lemma abs_sdiv: "\<bar>a sdiv b\<bar> = \<bar>a\<bar> div \<bar>b\<bar>" for a b :: int
  by (auto simp: signed_divide_int_def abs_mult sgn_if pos_imp_zdiv_nonneg_iff)

lemma abs_sdiv_le: "\<bar>a sdiv b\<bar> \<le> \<bar>a\<bar>" for a b :: int
  using sdiv_int_range [of a b] by auto

lemma abs_sdiv_scale_le:
  fixes a c r k :: int
  assumes "\<bar>a\<bar> \<le> c * k" "0 < c" "0 \<le> r"
  shows "\<bar>(a * r) sdiv c\<bar> \<le> r * k"
proof -
  have "\<bar>a * r\<bar> \<le> (c * k) * r"
    using assms by (simp add: abs_mult mult_right_mono)
  also have "\<dots> = (r * k) * c" by (simp add: algebra_simps)
  finally have "\<bar>a * r\<bar> div c \<le> (r * k) * c div c"
    using assms(2) by (intro zdiv_mono1) simp_all
  then show ?thesis using assms(2) by (simp add: abs_sdiv)
qed


lemma in_i64_le: "\<bar>x\<bar> \<le> a \<Longrightarrow> a \<le> INT64_MAX \<Longrightarrow> in_i64 x"
  and in_i64_neg: "\<bar>x\<bar> \<le> a \<Longrightarrow> a \<le> INT64_MAX \<Longrightarrow> in_i64 (- x)"
  and in_i64_add: "\<bar>x\<bar> \<le> a \<Longrightarrow> \<bar>y\<bar> \<le> b \<Longrightarrow> a + b \<le> INT64_MAX \<Longrightarrow> in_i64 (x + y)"
  and in_i64_diff: "\<bar>x\<bar> \<le> a \<Longrightarrow> \<bar>y\<bar> \<le> b \<Longrightarrow> a + b \<le> INT64_MAX \<Longrightarrow> in_i64 (x - y)"
  by (auto simp: in_i64_def)

lemma in_i64_sdiv: "in_i64 x \<Longrightarrow> 0 \<le> b \<Longrightarrow> in_i64 (x sdiv b)" for x b :: int
proof -
  assume x: "in_i64 x" and b: "0 \<le> b"
  have "x sdiv b \<le> 0" if "x < 0"
    using that b by (auto simp: signed_divide_int_def sgn_if pos_imp_zdiv_nonneg_iff)
  then show ?thesis
    using sdiv_int_range [of x b] x by (cases "x < 0") (auto simp: in_i64_def)
qed

lemma sgn_mult_sdiv:
  fixes s a b :: int
  assumes "s = 1 \<or> s = -1" "0 < b"
  shows "s * (a sdiv b) = (s * a) sdiv b"
  using assms by (auto simp: signed_divide_int_def sgn_if)

lemma abs_mult_le: "\<bar>x\<bar> \<le> a \<Longrightarrow> \<bar>y\<bar> \<le> b \<Longrightarrow> \<bar>x * y\<bar> \<le> a * b" for x y a b :: int
  unfolding abs_mult by (intro mult_mono) auto

end
