(* ===== verification/Kernel_Types.thy ===== *)
theory Kernel_Types
  imports Kernel_Prelude "HOL-Library.Word"
begin

text \<open>
  The data types of \<^verbatim>\<open>include/types.h\<close>. Enumerations are datatypes with the source's
  enumerators (with a prefix where two enumerations share one, or where HOL has the
  name), structs are records with the source's members (with a prefix per struct,
  because record selectors are global in HOL). A brace-initialised \<^verbatim>\<open>Fill{}\<close> is
  \<open>empty_fill\<close>.
\<close>

type_synonym TimestampNs = i64
type_synonym Price = i64
type_synonym u32 = "32 word"

definition PRICE_SCALE :: Price where "PRICE_SCALE = 10000"

datatype Side = Buy | Sell

record MarketTick =
  exchange_ts_ns :: TimestampNs
  receive_ts_ns :: TimestampNs
  bid_price :: Price
  ask_price :: Price
  symbol_id :: u32
  bid_qty :: i32
  ask_qty :: i32

record Fill =
  f_ts_ns :: TimestampNs
  f_price :: Price
  f_quantity :: i32
  f_side :: Side

record PositionState =
  net_qty :: i64
  avg_price :: Price

record PnlState =
  realized_pnl :: i64
  unrealized_pnl :: i64
  cash :: i64

record OrderRequest =
  req_side :: Side
  req_quantity :: i32
  req_limit_price :: Price

datatype ExecutionStyle = Aggressive | Passive

datatype RejectReason =
    NoReject
  | MaxPosition
  | NewRejectedByVenue
  | CancelRejectedByVenue
  | RejInvalidQuantity

record OrderDecision =
  accepted :: bool
  reject_reason :: RejectReason

record StrategyDecision =
  has_order :: bool
  decision_order :: OrderRequest

definition side_sign :: "Side \<Rightarrow> i64" where
  "side_sign side = (if side = Buy then 1 else -1)"

definition empty_fill :: Fill where
  "empty_fill = \<lparr>f_ts_ns = 0, f_price = 0, f_quantity = 0, f_side = Buy\<rparr>"

text \<open>The signed quantity and the signed notional of a fill, as the ledger counts them.\<close>

definition signed_qty :: "Fill \<Rightarrow> int" where
  "signed_qty f = side_sign (f_side f) * f_quantity f"

definition notional :: "Fill \<Rightarrow> int" where
  "notional f = signed_qty f * f_price f"

lemma empty_fill_sel [simp]:
  "f_quantity empty_fill = 0" "f_ts_ns empty_fill = 0" "f_price empty_fill = 0" "f_side empty_fill = Buy"
  by (simp_all add: empty_fill_def)

lemma side_sign_simps [simp]: "side_sign Buy = 1" "side_sign Sell = -1"
  by (simp_all add: side_sign_def)

lemma abs_side_sign [simp]: "\<bar>side_sign s\<bar> = 1"
  by (cases s) simp_all

lemma side_sign_cases: "side_sign s = 1 \<or> side_sign s = -1"
  by (cases s) simp_all

lemma abs_signed_qty: "\<bar>signed_qty f\<bar> = \<bar>f_quantity f\<bar>"
  by (simp add: signed_qty_def abs_mult)

lemma signed_qty_empty [simp]: "signed_qty empty_fill = 0" and notional_empty [simp]: "notional empty_fill = 0"
  by (simp_all add: signed_qty_def notional_def)

text \<open>
  A tick whose fields are representable in the struct's member types: what every
  \<^verbatim>\<open>MarketTick\<close> object satisfies by its type.
\<close>

definition tick_typed :: "MarketTick \<Rightarrow> bool" where
  "tick_typed t \<longleftrightarrow> in_i64 (exchange_ts_ns t) \<and> in_i64 (receive_ts_ns t) \<and>
     in_i64 (bid_price t) \<and> in_i64 (ask_price t) \<and> in_i32 (bid_qty t) \<and> in_i32 (ask_qty t)"

end
