(* ===== verification/Accounting_Engine.thy ===== *)
theory Accounting_Engine
  imports Kernel_Types
begin

text \<open>
  The accounting engine of \<^verbatim>\<open>include/accounting_engine.h\<close> and
  \<^verbatim>\<open>src/accounting_engine.cpp\<close>: cash and the signed aggregate open cost are the source
  of truth, every other figure is derived from them after each update. All products and
  sums are 64-bit and checked: \<open>apply_fill\<close> and \<open>mark_to_market\<close> return \<^term>\<open>None\<close>
  where the C++ arithmetic would overflow.
\<close>

section \<open>State and operations\<close>

record AccountingEngine =
  position_state :: PositionState
  pnl_state :: PnlState
  open_cost :: i64
  mark_price :: Price

definition accounting_init :: AccountingEngine where
  "accounting_init = \<lparr>position_state = \<lparr>net_qty = 0, avg_price = 0\<rparr>,
     pnl_state = \<lparr>realized_pnl = 0, unrealized_pnl = 0, cash = 0\<rparr>, open_cost = 0, mark_price = 0\<rparr>"

definition abs_qty :: "i64 \<Rightarrow> i64 option" where
  "abs_qty qty = (if qty \<ge> 0 then Some qty else neg64 qty)"

definition refresh_derived :: "AccountingEngine \<Rightarrow> AccountingEngine option" where
  "refresh_derived a = do {
     a \<leftarrow> (if net_qty (position_state a) = 0
       then Some (a\<lparr>open_cost := 0,
              position_state := (position_state a)\<lparr>avg_price := 0\<rparr>,
              pnl_state := (pnl_state a)\<lparr>unrealized_pnl := 0\<rparr>\<rparr>)
       else do {
         c \<leftarrow> abs_qty (open_cost a);
         n \<leftarrow> abs_qty (net_qty (position_state a));
         avg \<leftarrow> div64 c n;
         value \<leftarrow> mul64 (net_qty (position_state a)) (mark_price a);
         unrealized \<leftarrow> sub64 value (open_cost a);
         Some (a\<lparr>position_state := (position_state a)\<lparr>avg_price := avg\<rparr>,
                 pnl_state := (pnl_state a)\<lparr>unrealized_pnl := unrealized\<rparr>\<rparr>)
       });
     realized \<leftarrow> add64 (cash (pnl_state a)) (open_cost a);
     Some (a\<lparr>pnl_state := (pnl_state a)\<lparr>realized_pnl := realized\<rparr>\<rparr>)
   }"

definition apply_fill :: "AccountingEngine \<Rightarrow> Fill \<Rightarrow> (bool \<times> AccountingEngine) option" where
  "apply_fill a fill =
     (if f_quantity fill \<le> 0 then Some (False, a)
      else do {
        signed_fill_qty \<leftarrow> mul64 (side_sign (f_side fill)) (f_quantity fill);
        let current_qty = net_qty (position_state a);
        traded \<leftarrow> mul64 signed_fill_qty (f_price fill);
        new_cash \<leftarrow> sub64 (cash (pnl_state a)) traded;
        residual_qty \<leftarrow> add64 current_qty signed_fill_qty;
        new_cost \<leftarrow>
          (if current_qty = 0 \<or> ((current_qty > 0) = (signed_fill_qty > 0))
           then add64 (open_cost a) traded
           else if residual_qty = 0 then Some 0
           else if (residual_qty > 0) = (current_qty > 0)
           then do {
             r \<leftarrow> abs_qty residual_qty;
             c \<leftarrow> abs_qty current_qty;
             scaled \<leftarrow> mul64 (open_cost a) r;
             div64 scaled c
           }
           else mul64 residual_qty (f_price fill));
        a' \<leftarrow> refresh_derived
          (a\<lparr>pnl_state := (pnl_state a)\<lparr>cash := new_cash\<rparr>, open_cost := new_cost,
             position_state := (position_state a)\<lparr>net_qty := residual_qty\<rparr>\<rparr>);
        Some (True, a')
      })"

definition mark_to_market :: "AccountingEngine \<Rightarrow> Price \<Rightarrow> AccountingEngine option" where
  "mark_to_market a mid_price = refresh_derived (a\<lparr>mark_price := mid_price\<rparr>)"

section \<open>Specification\<close>

abbreviation net_of :: "AccountingEngine \<Rightarrow> i64" where "net_of a \<equiv> net_qty (position_state a)"
abbreviation avg_of :: "AccountingEngine \<Rightarrow> Price" where "avg_of a \<equiv> avg_price (position_state a)"
abbreviation cash_of :: "AccountingEngine \<Rightarrow> i64" where "cash_of a \<equiv> cash (pnl_state a)"
abbreviation realized_of :: "AccountingEngine \<Rightarrow> i64" where "realized_of a \<equiv> realized_pnl (pnl_state a)"
abbreviation unrealized_of :: "AccountingEngine \<Rightarrow> i64" where "unrealized_of a \<equiv> unrealized_pnl (pnl_state a)"

text \<open>The derived figures agree with cash, open cost, position and mark.\<close>

definition acct_inv :: "AccountingEngine \<Rightarrow> bool" where
  "acct_inv a \<longleftrightarrow> realized_of a = cash_of a + open_cost a \<and>
     (if net_of a = 0 then open_cost a = 0 \<and> avg_of a = 0 \<and> unrealized_of a = 0
      else avg_of a = \<bar>open_cost a\<bar> div \<bar>net_of a\<bar> \<and>
           unrealized_of a = net_of a * mark_price a - open_cost a)"

text \<open>
  The open cost carries the sign of the position and stays between the cheapest and the
  dearest price it was built from.
\<close>

definition cost_within :: "Price \<Rightarrow> Price \<Rightarrow> AccountingEngine \<Rightarrow> bool" where
  "cost_within lo hi a \<longleftrightarrow>
     lo * \<bar>net_of a\<bar> \<le> sgn (net_of a) * open_cost a \<and> sgn (net_of a) * open_cost a \<le> hi * \<bar>net_of a\<bar> \<and>
     (net_of a = 0 \<longrightarrow> open_cost a = 0)"

text \<open>The exact open cost after a fill, without the widths.\<close>

definition cost_after :: "int \<Rightarrow> int \<Rightarrow> int \<Rightarrow> int \<Rightarrow> int" where
  "cost_after cost cur q px =
     (if cur = 0 \<or> (cur > 0) = (q > 0) then cost + q * px
      else if cur + q = 0 then 0
      else if (cur + q > 0) = (cur > 0) then (cost * \<bar>cur + q\<bar>) sdiv \<bar>cur\<bar>
      else (cur + q) * px)"

text \<open>
  Bounds under which no intermediate result leaves 64 bits: positions up to \<open>Q\<close> in
  absolute value, prices up to \<open>P\<close>, cash up to \<open>C\<close>.
\<close>

definition acct_bounded :: "int \<Rightarrow> int \<Rightarrow> int \<Rightarrow> AccountingEngine \<Rightarrow> bool" where
  "acct_bounded Q P C a \<longleftrightarrow> \<bar>net_of a\<bar> \<le> Q \<and> \<bar>mark_price a\<bar> \<le> P \<and> \<bar>cash_of a\<bar> \<le> C \<and> cost_within 0 P a"

text \<open>A sequence of fills and marks applied to a ledger, stopping at undefined behaviour.\<close>

datatype ledger_op = OpFill Fill | OpMark Price

fun run_ledger ::
  "('l \<Rightarrow> Fill \<Rightarrow> (bool \<times> 'l) option) \<Rightarrow> ('l \<Rightarrow> Price \<Rightarrow> 'l option) \<Rightarrow> 'l \<Rightarrow> ledger_op list \<Rightarrow> 'l option" where
  "run_ledger fl mk l [] = Some l"
| "run_ledger fl mk l (OpFill f # ops) = do { (b, l') \<leftarrow> fl l f; run_ledger fl mk l' ops }"
| "run_ledger fl mk l (OpMark m # ops) = do { l' \<leftarrow> mk l m; run_ledger fl mk l' ops }"

text \<open>The fills of a sequence that the accounting boundary accepts, and the last mark.\<close>

fun accepted_fills :: "ledger_op list \<Rightarrow> Fill list" where
  "accepted_fills [] = []"
| "accepted_fills (OpFill f # ops) = (if 0 < f_quantity f then f # accepted_fills ops else accepted_fills ops)"
| "accepted_fills (OpMark m # ops) = accepted_fills ops"

fun last_mark :: "Price \<Rightarrow> ledger_op list \<Rightarrow> Price" where
  "last_mark m0 [] = m0"
| "last_mark m0 (OpFill f # ops) = last_mark m0 ops"
| "last_mark m0 (OpMark m # ops) = last_mark m ops"

definition op_prices_within :: "Price \<Rightarrow> Price \<Rightarrow> ledger_op list \<Rightarrow> bool" where
  "op_prices_within lo hi ops \<longleftrightarrow> (\<forall>f \<in> set (accepted_fills ops). lo \<le> f_price f \<and> f_price f \<le> hi)"

text \<open>Bounds on a sequence: each operation's figures, and the position after every prefix.\<close>

definition op_bounded :: "int \<Rightarrow> int \<Rightarrow> ledger_op \<Rightarrow> bool" where
  "op_bounded K P op = (case op of
     OpFill f \<Rightarrow> f_quantity f \<le> K \<and> 0 \<le> f_price f \<and> f_price f \<le> P
   | OpMark m \<Rightarrow> \<bar>m\<bar> \<le> P)"

fun nets_within :: "int \<Rightarrow> int \<Rightarrow> ledger_op list \<Rightarrow> bool" where
  "nets_within Q n [] \<longleftrightarrow> \<bar>n\<bar> \<le> Q"
| "nets_within Q n (OpFill f # ops) \<longleftrightarrow> \<bar>n\<bar> \<le> Q \<and>
     nets_within Q (if 0 < f_quantity f then n + signed_qty f else n) ops"
| "nets_within Q n (OpMark m # ops) \<longleftrightarrow> \<bar>n\<bar> \<le> Q \<and> nets_within Q n ops"

section \<open>Single operations\<close>

lemma abs_qty_eq_Some [simp]: "abs_qty x = Some y \<longleftrightarrow> y = \<bar>x\<bar> \<and> (x < 0 \<longrightarrow> in_i64 (- x))"
  by (auto simp: abs_qty_def neg64_def)

lemma post_abs_qty [wp]: "post (abs_qty x) P \<longleftrightarrow> ((x < 0 \<longrightarrow> in_i64 (- x)) \<longrightarrow> P \<bar>x\<bar>)"
  and ok_abs_qty [wp]: "ok (abs_qty x) P \<longleftrightarrow> (x < 0 \<longrightarrow> in_i64 (- x)) \<and> P \<bar>x\<bar>"
  by (auto simp: abs_qty_def neg64_def wp)

lemma refresh_derived_post:
  "post (refresh_derived a) (\<lambda>a'. acct_inv a' \<and> net_of a' = net_of a \<and> cash_of a' = cash_of a \<and>
     mark_price a' = mark_price a \<and> open_cost a' = (if net_of a = 0 then 0 else open_cost a))"
  by (auto simp: refresh_derived_def wp checked_defs acct_inv_def sdiv_nonneg_eq)

lemma mark_to_market_post:
  "post (mark_to_market a m) (\<lambda>a'. acct_inv a' \<and> net_of a' = net_of a \<and> cash_of a' = cash_of a \<and>
     mark_price a' = m \<and> (acct_inv a \<longrightarrow> open_cost a' = open_cost a))"
  unfolding mark_to_market_def
  by (rule post_mono [OF refresh_derived_post]) (auto simp: acct_inv_def)

lemma apply_fill_post:
  assumes "0 < f_quantity f"
  shows "post (apply_fill a f) (\<lambda>(b, a'). b \<and> acct_inv a' \<and> net_of a' = net_of a + signed_qty f \<and>
     cash_of a' = cash_of a - notional f \<and> mark_price a' = mark_price a \<and>
     open_cost a' = (if net_of a' = 0 then 0 else cost_after (open_cost a) (net_of a) (signed_qty f) (f_price f)))"
  using assms
  by (auto simp: apply_fill_def wp checked_defs Let_def signed_qty_def notional_def cost_after_def
      intro!: post_mono [OF refresh_derived_post])

text \<open>The cost kept by a reduction, cut to a whole number, is still between the two prices.\<close>

lemma reduced_cost_within:
  fixes cost s c r lo hi :: int
  assumes s: "s = 1 \<or> s = -1" and c: "0 < c" and r: "0 < r" and lo: "0 \<le> lo"
    and before: "lo * c \<le> s * cost" "s * cost \<le> hi * c"
  shows "lo * r \<le> s * ((cost * r) sdiv c) \<and> s * ((cost * r) sdiv c) \<le> hi * r"
proof -
  have "0 \<le> lo * c" using lo c by simp
  with before(1) have "0 \<le> s * cost" by linarith
  then have "0 \<le> s * (cost * r)" using r by (simp flip: mult.assoc)
  then have eq: "s * ((cost * r) sdiv c) = (s * cost * r) div c"
    using s c by (simp add: sgn_mult_sdiv mult.assoc sdiv_nonneg_eq)
  have ends: "(k * c * r) div c = k * r" for k
    using c by (simp add: mult.commute [of k c] mult.assoc)
  have "lo * c * r \<le> s * cost * r" "s * cost * r \<le> hi * c * r"
    using before r by (auto intro: mult_right_mono)
  then show ?thesis
    using zdiv_mono1 [of "lo * c * r" "s * cost * r" c] zdiv_mono1 [of "s * cost * r" "hi * c * r" c] c
    by (simp add: ends eq)
qed

lemma cost_after_within:
  fixes cost cur q px lo hi :: int
  assumes px: "0 \<le> lo" "lo \<le> px" "px \<le> hi" and q: "q \<noteq> 0"
    and before: "lo * \<bar>cur\<bar> \<le> sgn cur * cost" "sgn cur * cost \<le> hi * \<bar>cur\<bar>" "cur = 0 \<longrightarrow> cost = 0"
    and res: "cur + q \<noteq> 0"
  defines "cost' \<equiv> cost_after cost cur q px"
  shows "lo * \<bar>cur + q\<bar> \<le> sgn (cur + q) * cost' \<and> sgn (cur + q) * cost' \<le> hi * \<bar>cur + q\<bar>"
proof -
  have scale: "lo * \<bar>k\<bar> \<le> px * \<bar>k\<bar>" "px * \<bar>k\<bar> \<le> hi * \<bar>k\<bar>" for k :: int
    using px by (auto intro: mult_right_mono)
  consider (open_more) "cur = 0 \<or> (cur > 0) = (q > 0)"
    | (reduce) "\<not> (cur = 0 \<or> (cur > 0) = (q > 0))" "(cur + q > 0) = (cur > 0)"
    | (flip) "\<not> (cur = 0 \<or> (cur > 0) = (q > 0))" "(cur + q > 0) \<noteq> (cur > 0)"
    by blast
  then show ?thesis
  proof cases
    case open_more
    have abs_sum: "\<bar>cur + q\<bar> = \<bar>cur\<bar> + \<bar>q\<bar>" and sgn: "sgn (cur + q) = sgn q"
      using open_more q by (auto simp: sgn_if abs_if)
    have "sgn (cur + q) * cost' = sgn cur * cost + px * \<bar>q\<bar>"
      using open_more q before(3) sgn by (auto simp: cost'_def cost_after_def sgn_if abs_if algebra_simps)
    then show ?thesis
      using before scale [of q] by (simp add: abs_sum distrib_left)
  next
    case reduce
    then have "sgn cur = 1 \<or> sgn cur = -1" "0 < \<bar>cur\<bar>" "0 < \<bar>cur + q\<bar>" "sgn (cur + q) = sgn cur"
      using res by (auto simp: sgn_if)
    moreover have "cost' = (cost * \<bar>cur + q\<bar>) sdiv \<bar>cur\<bar>"
      using reduce res by (simp add: cost'_def cost_after_def)
    ultimately show ?thesis using reduced_cost_within [OF _ _ _ px(1) before(1,2)] by simp
  next
    case flip
    then have "sgn (cur + q) * cost' = px * \<bar>cur + q\<bar>"
      using res by (auto simp: cost'_def cost_after_def sgn_if abs_if algebra_simps)
    then show ?thesis using scale [of "cur + q"] by simp
  qed
qed

lemma apply_fill_cost_within:
  assumes "0 < f_quantity f" "0 \<le> lo" "lo \<le> f_price f" "f_price f \<le> hi" "cost_within lo hi a"
  shows "post (apply_fill a f) (\<lambda>(b, a'). cost_within lo hi a')"
proof (rule post_mono [OF apply_fill_post [OF assms(1)]], clarify)
  fix a'
  assume net: "net_of a' = net_of a + signed_qty f"
    and cost: "open_cost a' = (if net_of a' = 0 then 0
      else cost_after (open_cost a) (net_of a) (signed_qty f) (f_price f))"
  have "signed_qty f \<noteq> 0" using assms(1) abs_signed_qty [of f] by auto
  then show "cost_within lo hi a'"
    using assms cost_after_within [of lo "f_price f" hi "signed_qty f" "net_of a" "open_cost a"]
    by (cases "net_of a' = 0") (simp_all add: cost_within_def net cost)
qed

lemma avg_within:
  assumes "acct_inv a" "cost_within lo hi a" "0 \<le> lo" "net_of a \<noteq> 0"
  shows "lo \<le> avg_of a \<and> avg_of a \<le> hi"
proof -
  have c: "0 < \<bar>net_of a\<bar>" using assms(4) by simp
  have "0 \<le> lo * \<bar>net_of a\<bar>" using assms(3) by simp
  then have "sgn (net_of a) * open_cost a = \<bar>open_cost a\<bar>"
    using assms(2,4) by (auto simp: cost_within_def sgn_if abs_if)
  then have b: "lo * \<bar>net_of a\<bar> \<le> \<bar>open_cost a\<bar>" "\<bar>open_cost a\<bar> \<le> hi * \<bar>net_of a\<bar>"
    using assms(2) by (simp_all add: cost_within_def)
  have "lo = lo * \<bar>net_of a\<bar> div \<bar>net_of a\<bar>" "hi = hi * \<bar>net_of a\<bar> div \<bar>net_of a\<bar>"
    using assms(4) by simp_all
  then show ?thesis
    using zdiv_mono1 [OF b(1) c] zdiv_mono1 [OF b(2) c] assms(1,4) by (simp add: acct_inv_def)
qed

section \<open>Absence of overflow\<close>

lemma cost_within_abs: "cost_within 0 P a \<Longrightarrow> \<bar>open_cost a\<bar> \<le> P * \<bar>net_of a\<bar>"
  by (auto simp: cost_within_def sgn_if abs_if split: if_splits)

lemma cost_within_abs_le:
  assumes "cost_within 0 P a" "\<bar>net_of a\<bar> \<le> Q" "0 \<le> P"
  shows "\<bar>open_cost a\<bar> \<le> Q * P"
proof -
  have "P * \<bar>net_of a\<bar> \<le> P * Q" using assms(2,3) by (rule mult_left_mono)
  then show ?thesis using cost_within_abs [OF assms(1)] by (simp add: mult.commute)
qed

lemma refresh_derived_defined:
  assumes "\<bar>net_of a\<bar> \<le> Q" "\<bar>mark_price a\<bar> \<le> P" "\<bar>open_cost a\<bar> \<le> Q * P"
    and "\<bar>cash_of a\<bar> \<le> C" "C + Q * P \<le> INT64_MAX" "2 * (Q * P) \<le> INT64_MAX" "Q \<le> INT64_MAX"
  shows "ok (refresh_derived a) (\<lambda>_. True)"
proof -
  let ?v = "net_of a * mark_price a"
  have v: "\<bar>?v\<bar> \<le> Q * P" using assms(1,2) by (rule abs_mult_le)
  have avg: "\<bar>\<bar>open_cost a\<bar> sdiv \<bar>net_of a\<bar>\<bar> \<le> Q * P"
    using abs_sdiv_le [of "\<bar>open_cost a\<bar>" "\<bar>net_of a\<bar>"] assms(3) by simp
  have W: "0 \<le> Q * P" "0 \<le> C" using order_trans [OF abs_ge_zero v] order_trans [OF abs_ge_zero assms(4)] by auto
  have "Q * P \<le> INT64_MAX" using assms(6) W by linarith
  then have "in_i64 ?v" "in_i64 (\<bar>open_cost a\<bar> sdiv \<bar>net_of a\<bar>)" "in_i64 (- open_cost a)" "in_i64 (- net_of a)"
    using in_i64_le [OF v] in_i64_le [OF avg] in_i64_neg [OF assms(3)] in_i64_neg [OF assms(1)] assms(7) by auto
  moreover have "in_i64 (?v - open_cost a)" using assms(6) by (intro in_i64_diff [OF v assms(3)]) linarith
  moreover have "in_i64 (cash_of a + open_cost a)" using assms(5) by (intro in_i64_add [OF assms(4,3)])
  moreover have "in_i64 (cash_of a)" using assms(5) W by (intro in_i64_le [OF assms(4)]) linarith
  ultimately show ?thesis
    by (simp add: refresh_derived_def wp checked_defs)
qed

lemma mark_to_market_ok:
  assumes "acct_inv a" "acct_bounded Q P C a" "\<bar>m\<bar> \<le> P"
    and "C + Q * P \<le> INT64_MAX" "2 * (Q * P) \<le> INT64_MAX" "Q \<le> INT64_MAX"
  shows "ok (mark_to_market a m) (\<lambda>a'. acct_inv a' \<and> acct_bounded Q P C a' \<and> net_of a' = net_of a)"
proof -
  have "\<bar>open_cost a\<bar> \<le> Q * P"
    using assms(2,3) by (intro cost_within_abs_le) (auto simp: acct_bounded_def)
  then have "ok (mark_to_market a m) (\<lambda>_. True)"
    unfolding mark_to_market_def using assms
    by (intro refresh_derived_defined [where Q = Q and P = P and C = C]) (auto simp: acct_bounded_def)
  then obtain a' where m: "mark_to_market a m = Some a'" by (auto simp: ok_iff)
  then show ?thesis
    using postD [OF mark_to_market_post m] assms by (auto simp: acct_bounded_def cost_within_def)
qed

lemma cost_after_defined:
  assumes "cost_within 0 P a" "\<bar>net_of a\<bar> \<le> Q" "\<bar>net_of a + q\<bar> \<le> Q" "\<bar>px\<bar> \<le> P"
    and "Q * (Q * P) \<le> INT64_MAX" "2 * (Q * P) \<le> INT64_MAX"
  shows "in_i64 (open_cost a * \<bar>net_of a + q\<bar>) \<and> in_i64 ((net_of a + q) * px)"
proof -
  have P: "0 \<le> P" using assms(4) by linarith
  have c: "\<bar>open_cost a\<bar> \<le> Q * P" using assms(1,2) P by (rule cost_within_abs_le)
  have "\<bar>open_cost a * \<bar>net_of a + q\<bar>\<bar> \<le> (Q * P) * Q" "\<bar>(net_of a + q) * px\<bar> \<le> Q * P"
    using c assms(3,4) by (auto intro!: abs_mult_le)
  moreover have "0 \<le> Q * P" using c by linarith
  ultimately show ?thesis
    using assms(5,6) in_i64_le by (simp add: mult.commute)
qed

text \<open>With every intermediate result in range, a fill is one exact update and a refresh.\<close>

lemma apply_fill_reduce:
  assumes "0 < f_quantity f" "in_i64 (signed_qty f)" "in_i64 (notional f)" "in_i64 (cash_of a - notional f)"
    and "in_i64 (net_of a + signed_qty f)" "in_i64 (open_cost a + notional f)"
    and "in_i64 (- net_of a)" "in_i64 (- (net_of a + signed_qty f))"
    and "in_i64 (open_cost a * \<bar>net_of a + signed_qty f\<bar>)" "in_i64 ((net_of a + signed_qty f) * f_price f)"
  shows "apply_fill a f = Option.bind (refresh_derived
      (a\<lparr>pnl_state := (pnl_state a)\<lparr>cash := cash_of a - notional f\<rparr>,
         open_cost := cost_after (open_cost a) (net_of a) (signed_qty f) (f_price f),
         position_state := (position_state a)\<lparr>net_qty := net_of a + signed_qty f\<rparr>\<rparr>)) (\<lambda>a'. Some (True, a'))"
proof -
  have "in_i64 ((open_cost a * \<bar>net_of a + signed_qty f\<bar>) sdiv \<bar>net_of a\<bar>)"
    using assms(9) by (rule in_i64_sdiv) simp
  then show ?thesis using assms
    by (auto simp: apply_fill_def checked_defs Let_def chk64_def abs_qty_def cost_after_def
        simp flip: signed_qty_def notional_def)
qed

text \<open>The new open cost is at most the largest position at the largest price.\<close>

lemma cost_after_abs_le:
  assumes f: "0 < f_quantity f" "0 \<le> f_price f" "f_price f \<le> P" and cw: "cost_within 0 P a"
    and res: "\<bar>net_of a + signed_qty f\<bar> \<le> Q"
  shows "\<bar>cost_after (open_cost a) (net_of a) (signed_qty f) (f_price f)\<bar> \<le> Q * P" (is "\<bar>?cost\<bar> \<le> _")
proof -
  have sq: "signed_qty f \<noteq> 0" using f(1) abs_signed_qty [of f] by auto
  have pos: "0 \<le> P" "0 \<le> Q" using f(2,3) res by linarith+
  show ?thesis
  proof (cases "net_of a + signed_qty f = 0")
    case True
    then show ?thesis using sq pos by (auto simp: cost_after_def)
  next
    case False
    have "0 \<le> sgn (net_of a + signed_qty f) * ?cost \<and>
        sgn (net_of a + signed_qty f) * ?cost \<le> P * \<bar>net_of a + signed_qty f\<bar>"
      using cost_after_within [of 0 "f_price f" P "signed_qty f" "net_of a" "open_cost a"] f False cw sq
      by (auto simp: cost_within_def)
    moreover have "P * \<bar>net_of a + signed_qty f\<bar> \<le> P * Q" using res pos(1) by (rule mult_left_mono)
    ultimately show ?thesis using False by (auto simp: sgn_if abs_if mult.commute split: if_splits)
  qed
qed

lemma apply_fill_ok:
  assumes a: "acct_inv a" "acct_bounded Q P C a"
    and f: "0 < f_quantity f" "f_quantity f \<le> K" "0 \<le> f_price f" "f_price f \<le> P"
    and res: "\<bar>net_of a + signed_qty f\<bar> \<le> Q"
    and lim: "Q * (Q * P) \<le> INT64_MAX" "C + K * P + Q * P \<le> INT64_MAX" "2 * (Q * P) \<le> INT64_MAX"
      "Q \<le> INT64_MAX" "K \<le> INT64_MAX"
  shows "ok (apply_fill a f) (\<lambda>(b, a'). b \<and> acct_inv a' \<and> acct_bounded Q P (C + K * P) a' \<and>
           net_of a' = net_of a + signed_qty f)"
proof -
  define W where "W = Q * P"
  have P: "0 \<le> P" "\<bar>f_price f\<bar> \<le> P" using f(3,4) by linarith+
  have q: "\<bar>signed_qty f\<bar> \<le> K" using f(1,2) by (simp add: abs_signed_qty)
  have cw: "cost_within 0 P a" and n: "\<bar>net_of a\<bar> \<le> Q" and cs: "\<bar>cash_of a\<bar> \<le> C"
    using a(2) by (auto simp: acct_bounded_def)
  have c: "\<bar>open_cost a\<bar> \<le> W" unfolding W_def using cw n P(1) by (rule cost_within_abs_le)
  have t: "\<bar>notional f\<bar> \<le> K * P" unfolding notional_def using q P(2) by (rule abs_mult_le)
  note widths = cost_after_defined [OF cw n res P(2) lim(1) lim(3)]
  have pos: "0 \<le> C" "0 \<le> W" "0 \<le> K * P"
    using order_trans [OF abs_ge_zero cs] order_trans [OF abs_ge_zero c] order_trans [OF abs_ge_zero t] by auto
  define cost' where "cost' = cost_after (open_cost a) (net_of a) (signed_qty f) (f_price f)"
  have cost'_W: "\<bar>cost'\<bar> \<le> W" unfolding cost'_def W_def by (rule cost_after_abs_le [OF f(1,3,4) cw res])
  have ranges: "in_i64 (signed_qty f) \<and> in_i64 (notional f) \<and> in_i64 (cash_of a - notional f) \<and>
    in_i64 (net_of a + signed_qty f) \<and> in_i64 (open_cost a + notional f) \<and>
    in_i64 (- net_of a) \<and> in_i64 (- (net_of a + signed_qty f))"
    using q t cs n res c pos lim
    by (intro conjI in_i64_le [OF q] in_i64_le [OF t] in_i64_diff [OF cs t] in_i64_le [OF res]
        in_i64_add [OF c t] in_i64_neg [OF n] in_i64_neg [OF res]) (unfold W_def, linarith+)
  let ?a = "a\<lparr>pnl_state := (pnl_state a)\<lparr>cash := cash_of a - notional f\<rparr>, open_cost := cost',
         position_state := (position_state a)\<lparr>net_qty := net_of a + signed_qty f\<rparr>\<rparr>"
  have cs': "\<bar>cash_of a - notional f\<bar> \<le> C + K * P"
    using add_mono [OF cs t] abs_triangle_ineq4 [of "cash_of a" "notional f"] by linarith
  have "ok (refresh_derived ?a) (\<lambda>_. True)"
    using a(2) res cost'_W cs' lim
    by (intro refresh_derived_defined [where Q = Q and P = P and C = "C + K * P"]) (simp_all add: acct_bounded_def W_def)
  then have "ok (apply_fill a f) (\<lambda>_. True)"
    using apply_fill_reduce [of f a] ranges widths f(1) by (simp add: wp cost'_def)
  then obtain b a' where r: "apply_fill a f = Some (b, a')" by (auto simp: ok_iff)
  show ?thesis
    using postD [OF apply_fill_post [OF f(1)] r] postD [OF apply_fill_cost_within [OF f(1) _ f(3,4) cw] r]
      r a(2) res cs' by (simp add: acct_bounded_def)
qed

section \<open>The ledger contract\<close>

text \<open>
  What the replay loop relies on when it books a fill and marks the book: a positive
  fill moves position and cash by exactly its signed quantity and notional, a
  non-positive one is refused without effect, a mark moves only the mark, and a
  well-formed book is worth its cash plus its marked inventory.
\<close>

locale ledger =
  fixes book :: "'l \<Rightarrow> Fill \<Rightarrow> (bool \<times> 'l) option"
    and mark :: "'l \<Rightarrow> Price \<Rightarrow> 'l option"
    and wf :: "'l \<Rightarrow> bool"
    and net :: "'l \<Rightarrow> int"
    and cash_in :: "'l \<Rightarrow> int"
    and marked :: "'l \<Rightarrow> int"
    and worth :: "'l \<Rightarrow> int"
  assumes book_accept: "0 < f_quantity f \<Longrightarrow> book l f = Some (b, l') \<Longrightarrow> b \<and> wf l' \<and>
      net l' = net l + signed_qty f \<and> cash_in l' = cash_in l - notional f \<and> marked l' = marked l"
    and book_refuse: "f_quantity f \<le> 0 \<Longrightarrow> book l f = Some (False, l)"
    and mark_only: "mark l m = Some l' \<Longrightarrow> wf l' \<and> net l' = net l \<and> cash_in l' = cash_in l \<and> marked l' = m"
    and worth_wf: "wf l \<Longrightarrow> worth l = cash_in l + net l * marked l"
begin

lemma run_totals:
  "wf l \<Longrightarrow> run_ledger book mark l ops = Some l' \<Longrightarrow>
     wf l' \<and> net l' = net l + sum_list (map signed_qty (accepted_fills ops)) \<and>
     cash_in l' = cash_in l - sum_list (map notional (accepted_fills ops)) \<and>
     marked l' = last_mark (marked l) ops"
proof (induction ops arbitrary: l)
  case Nil
  then show ?case by simp
next
  case (Cons op ops)
  show ?case
  proof (cases op)
    case (OpFill f)
    with Cons.prems obtain b l1 where l1: "book l f = Some (b, l1)" "run_ledger book mark l1 ops = Some l'"
      by (auto simp: Option.bind_eq_Some_conv)
    show ?thesis
    proof (cases "0 < f_quantity f")
      case True
      from book_accept [OF True l1(1)] Cons.IH [OF _ l1(2)] True OpFill show ?thesis by simp
    next
      case False
      then have "l1 = l" using book_refuse [of f l] l1(1) by simp
      with Cons.IH [OF Cons.prems(1)] l1(2) False OpFill show ?thesis by simp
    qed
  next
    case (OpMark m)
    with Cons.prems obtain l1 where l1: "mark l m = Some l1" "run_ledger book mark l1 ops = Some l'"
      by (auto simp: Option.bind_eq_Some_conv)
    from mark_only [OF l1(1)] Cons.IH [OF _ l1(2)] OpMark show ?thesis by simp
  qed
qed

lemma run_worth:
  "wf l \<Longrightarrow> run_ledger book mark l ops = Some l' \<Longrightarrow> worth l' = cash_in l' + net l' * marked l'"
  using run_totals worth_wf by blast

end

interpretation acct: ledger apply_fill mark_to_market acct_inv net_of cash_of mark_price
  "\<lambda>a. realized_of a + unrealized_of a"
proof unfold_locales
  show "b \<and> acct_inv l' \<and> net_of l' = net_of l + signed_qty f \<and> cash_of l' = cash_of l - notional f \<and>
      mark_price l' = mark_price l"
    if "0 < f_quantity f" "apply_fill l f = Some (b, l')" for f l b l'
    using postD [OF apply_fill_post [OF that(1)] that(2)] by simp
  show "apply_fill l f = Some (False, l)" if "f_quantity f \<le> 0" for f l
    using that by (simp add: apply_fill_def)
  show "acct_inv l' \<and> net_of l' = net_of l \<and> cash_of l' = cash_of l \<and> mark_price l' = m"
    if "mark_to_market l m = Some l'" for l m l'
    using postD [OF mark_to_market_post that] by simp
  show "realized_of l + unrealized_of l = cash_of l + net_of l * mark_price l" if "acct_inv l" for l
    using that by (auto simp: acct_inv_def split: if_splits)
qed

lemma acct_inv_init [simp]: "acct_inv accounting_init"
  and cost_within_init [simp]: "cost_within lo hi accounting_init"
  by (simp_all add: acct_inv_def cost_within_def accounting_init_def)

lemma run_cost_within:
  "cost_within lo hi a \<Longrightarrow> acct_inv a \<Longrightarrow> 0 \<le> lo \<Longrightarrow> op_prices_within lo hi ops \<Longrightarrow>
     run_ledger apply_fill mark_to_market a ops = Some a' \<Longrightarrow> cost_within lo hi a'"
proof (induction ops arbitrary: a)
  case Nil
  then show ?case by simp
next
  case (Cons op ops)
  show ?case
  proof (cases op)
    case (OpFill f)
    with Cons.prems obtain b a1 where a1: "apply_fill a f = Some (b, a1)"
        "run_ledger apply_fill mark_to_market a1 ops = Some a'"
      by (auto simp: Option.bind_eq_Some_conv)
    have "cost_within lo hi a1 \<and> acct_inv a1"
    proof (cases "0 < f_quantity f")
      case True
      then show ?thesis
        using postD [OF apply_fill_cost_within [OF True] a1(1), of lo hi] acct.book_accept [OF True a1(1)]
          Cons.prems OpFill by (auto simp: op_prices_within_def)
    next
      case False
      then show ?thesis using acct.book_refuse [of f a] a1(1) Cons.prems by simp
    qed
    then show ?thesis using Cons.IH [OF _ _ _ _ a1(2)] Cons.prems OpFill
      by (auto simp: op_prices_within_def split: if_splits)
  next
    case (OpMark m)
    with Cons.prems obtain a1 where a1: "mark_to_market a m = Some a1"
        "run_ledger apply_fill mark_to_market a1 ops = Some a'"
      by (auto simp: Option.bind_eq_Some_conv)
    have "cost_within lo hi a1 \<and> acct_inv a1"
      using postD [OF mark_to_market_post a1(1)] Cons.prems by (simp add: cost_within_def)
    then show ?thesis using Cons.IH [OF _ _ _ _ a1(2)] Cons.prems OpMark
      by (simp add: op_prices_within_def)
  qed
qed

lemma nets_within_start: "nets_within Q n ops \<Longrightarrow> \<bar>n\<bar> \<le> Q"
  by (cases ops rule: accepted_fills.cases) auto

lemma run_ledger_defined:
  assumes lim: "Q * (Q * P) \<le> INT64_MAX" "2 * (Q * P) \<le> INT64_MAX" "Q \<le> INT64_MAX" "K \<le> INT64_MAX"
    and KP: "0 \<le> K * P"
  shows "acct_inv a \<Longrightarrow> acct_bounded Q P C a \<Longrightarrow> list_all (op_bounded K P) ops \<Longrightarrow>
    nets_within Q (net_of a) ops \<Longrightarrow> C + int (length ops) * (K * P) + Q * P \<le> INT64_MAX \<Longrightarrow>
    \<exists>a'. run_ledger apply_fill mark_to_market a ops = Some a'"
proof (induction ops arbitrary: a C)
  case Nil
  then show ?case by simp
next
  case (Cons op ops)
  have step: "int (length (op # ops)) * (K * P) = K * P + int (length ops) * (K * P)"
    by (simp add: algebra_simps)
  have "0 \<le> int (length ops) * (K * P)" using KP by simp
  then have sums: "C + K * P + Q * P \<le> INT64_MAX" "C + Q * P \<le> INT64_MAX"
    using Cons.prems(5) step KP by linarith+
  show ?case
  proof (cases op)
    case (OpFill f)
    show ?thesis
    proof (cases "0 < f_quantity f")
      case True
      have "ok (apply_fill a f) (\<lambda>(b, a'). b \<and> acct_inv a' \<and> acct_bounded Q P (C + K * P) a' \<and>
          net_of a' = net_of a + signed_qty f)"
        using Cons.prems OpFill True lim sums nets_within_start
        by (intro apply_fill_ok) (auto simp: op_bounded_def)
      then obtain b a1 where a1: "apply_fill a f = Some (b, a1)" "acct_inv a1"
          "acct_bounded Q P (C + K * P) a1" "net_of a1 = net_of a + signed_qty f"
        by (auto simp: ok_iff)
      with Cons.IH [OF a1(2,3)] Cons.prems OpFill True step show ?thesis by simp
    next
      case False
      with Cons.IH [OF Cons.prems(1,2)] Cons.prems OpFill KP step show ?thesis
        by (simp add: acct.book_refuse)
    qed
  next
    case (OpMark m)
    have "ok (mark_to_market a m) (\<lambda>a'. acct_inv a' \<and> acct_bounded Q P C a' \<and> net_of a' = net_of a)"
      using Cons.prems OpMark lim sums
      by (intro mark_to_market_ok) (auto simp: op_bounded_def)
    then obtain a1 where a1: "mark_to_market a m = Some a1" "acct_inv a1" "acct_bounded Q P C a1"
        "net_of a1 = net_of a" by (auto simp: ok_iff)
    with Cons.IH [OF a1(2,3)] Cons.prems OpMark KP step show ?thesis by simp
  qed
qed

section \<open>Properties\<close>

text \<open>
  C2. After any sequence of fills and marks that stays defined, realized plus unrealized
  profit equals cash plus the marked inventory, cash and position are exactly the totals
  of the fills accepted (each one counted once), and a flat book has no cost basis, no
  average price and no unrealized profit.
\<close>

theorem accounting_reconciliation:
  assumes "run_ledger apply_fill mark_to_market accounting_init ops = Some a"
  shows "realized_of a + unrealized_of a = cash_of a + net_of a * last_mark 0 ops \<and>
    net_of a = sum_list (map signed_qty (accepted_fills ops)) \<and>
    cash_of a = - sum_list (map notional (accepted_fills ops)) \<and>
    (net_of a = 0 \<longrightarrow> open_cost a = 0 \<and> avg_of a = 0 \<and> unrealized_of a = 0 \<and> realized_of a = cash_of a)"
  using acct.run_totals [OF acct_inv_init assms] acct.run_worth [OF acct_inv_init assms]
  by (auto simp: accounting_init_def acct_inv_def)

text \<open>A buy of 3 at 100, a buy of 2 at 101, a sale of 4 at 105, marked at 104.\<close>

definition sample_ops :: "ledger_op list" where
  "sample_ops = [OpFill \<lparr>f_ts_ns = 1, f_price = 100, f_quantity = 3, f_side = Buy\<rparr>,
     OpFill \<lparr>f_ts_ns = 2, f_price = 101, f_quantity = 2, f_side = Buy\<rparr>,
     OpFill \<lparr>f_ts_ns = 3, f_price = 105, f_quantity = 4, f_side = Sell\<rparr>, OpMark 104]"

definition sample_book :: AccountingEngine where
  "sample_book = \<lparr>position_state = \<lparr>net_qty = 1, avg_price = 100\<rparr>,
     pnl_state = \<lparr>realized_pnl = 18, unrealized_pnl = 4, cash = -82\<rparr>, open_cost = 100, mark_price = 104\<rparr>"

lemma sample_run: "run_ledger apply_fill mark_to_market accounting_init sample_ops = Some sample_book"
  unfolding sample_ops_def sample_book_def by code_simp

theorem accounting_reconciliation_witness:
  "realized_of sample_book + unrealized_of sample_book = cash_of sample_book + net_of sample_book * 104"
  using accounting_reconciliation [OF sample_run] by (simp add: sample_ops_def)

text \<open>
  C19. The cost basis never drifts out of the range of traded prices: if every accepted
  fill traded between \<open>lo\<close> and \<open>hi\<close>, so does the reported average price of an open
  position, through additions, truncating partial closes and flips.
\<close>

theorem accounting_average_price_bounds:
  assumes "run_ledger apply_fill mark_to_market accounting_init ops = Some a"
    and "op_prices_within lo hi ops" and "0 \<le> lo" and "net_of a \<noteq> 0"
  shows "lo \<le> avg_of a \<and> avg_of a \<le> hi \<and> 0 \<le> sgn (net_of a) * open_cost a"
proof -
  have cw: "cost_within lo hi a"
    using run_cost_within [OF cost_within_init acct_inv_init assms(3,2,1)] .
  have "acct_inv a" using acct.run_totals [OF acct_inv_init assms(1)] by blast
  then have "lo \<le> avg_of a \<and> avg_of a \<le> hi" using cw assms(3,4) by (rule avg_within)
  moreover have "0 \<le> lo * \<bar>net_of a\<bar>" using assms(3) by simp
  ultimately show ?thesis using cw by (simp add: cost_within_def)
qed

theorem accounting_average_price_bounds_witness: "100 \<le> avg_of sample_book \<and> avg_of sample_book \<le> 105"
proof -
  have "op_prices_within 100 105 sample_ops"
    by (simp add: op_prices_within_def sample_ops_def)
  from accounting_average_price_bounds [OF sample_run this] show ?thesis
    by (simp add: sample_book_def)
qed

text \<open>
  No overflow: with prices at most \<open>P\<close>, fills of at most \<open>K\<close>, the position within
  \<open>Q\<close> throughout and the stated products within 64 bits, every sequence of fills and
  marks is defined.
\<close>

theorem accounting_no_overflow:
  assumes "list_all (op_bounded K P) ops" and "nets_within Q 0 ops" and "0 \<le> K" and "0 \<le> P"
    and "Q * (Q * P) \<le> INT64_MAX" and "2 * (Q * P) \<le> INT64_MAX" and "Q \<le> INT64_MAX" and "K \<le> INT64_MAX"
    and "int (length ops) * (K * P) + Q * P \<le> INT64_MAX"
  shows "\<exists>a. run_ledger apply_fill mark_to_market accounting_init ops = Some a"
proof (rule run_ledger_defined [OF assms(5-8) _ acct_inv_init, where C = 0])
  show "acct_bounded Q P 0 accounting_init"
    using assms(4) nets_within_start [OF assms(2)]
    by (simp add: acct_bounded_def accounting_init_def cost_within_def)
qed (use assms in \<open>simp_all add: accounting_init_def\<close>)

theorem accounting_no_overflow_witness:
  "\<exists>a. run_ledger apply_fill mark_to_market accounting_init sample_ops = Some a"
  by (rule accounting_no_overflow [of 4 105 _ 5])
    (simp_all add: sample_ops_def op_bounded_def signed_qty_def)

end
