(* ===== verification/Trading_Signals.thy ===== *)
theory Trading_Signals
  imports Kernel_Types
begin

text \<open>
  The two stateless decision makers of the hot path: the threshold strategy
  (\<^verbatim>\<open>include/strategy.h\<close>, \<^verbatim>\<open>src/strategy.cpp\<close>) and the pre-trade risk check
  (\<^verbatim>\<open>include/risk_engine.h\<close>, \<^verbatim>\<open>src/risk_engine.cpp\<close>).
\<close>

section \<open>Strategy\<close>

record Strategy =
  buy_below :: Price
  sell_above :: Price
  order_qty :: i32

definition strategy_on_tick :: "Strategy \<Rightarrow> MarketTick \<Rightarrow> StrategyDecision" where
  "strategy_on_tick st tick =
     (if ask_price tick \<le> buy_below st
      then \<lparr>has_order = True, decision_order = \<lparr>req_side = Buy, req_quantity = order_qty st, req_limit_price = 0\<rparr>\<rparr>
      else if bid_price tick \<ge> sell_above st
      then \<lparr>has_order = True, decision_order = \<lparr>req_side = Sell, req_quantity = order_qty st, req_limit_price = 0\<rparr>\<rparr>
      else \<lparr>has_order = False, decision_order = \<lparr>req_side = Buy, req_quantity = 0, req_limit_price = 0\<rparr>\<rparr>)"

section \<open>Risk engine\<close>

record RiskEngine =
  max_abs_position :: i64

definition evaluate :: "RiskEngine \<Rightarrow> PositionState \<Rightarrow> OrderRequest \<Rightarrow> OrderDecision option" where
  "evaluate re position request =
     (if req_quantity request \<le> 0
      then Some \<lparr>accepted = False, reject_reason = RejInvalidQuantity\<rparr>
      else do {
        change \<leftarrow> mul64 (side_sign (req_side request)) (req_quantity request);
        projected \<leftarrow> add64 (net_qty position) change;
        within \<leftarrow> (if projected \<le> max_abs_position re
          then do { lower \<leftarrow> neg64 (max_abs_position re); Some (projected \<ge> lower) }
          else Some False);
        Some (if within then \<lparr>accepted = True, reject_reason = NoReject\<rparr>
              else \<lparr>accepted = False, reject_reason = MaxPosition\<rparr>)
      })"

section \<open>Single operations\<close>

definition projected_qty :: "PositionState \<Rightarrow> OrderRequest \<Rightarrow> int" where
  "projected_qty p r = net_qty p + side_sign (req_side r) * req_quantity r"

lemma evaluate_post:
  "post (evaluate re p r) (\<lambda>d.
     (accepted d \<longleftrightarrow> 0 < req_quantity r \<and> \<bar>projected_qty p r\<bar> \<le> max_abs_position re) \<and>
     reject_reason d = (if accepted d then NoReject else if req_quantity r \<le> 0 then RejInvalidQuantity else MaxPosition))"
  by (auto simp: evaluate_def wp checked_defs projected_qty_def abs_le_iff)

lemma evaluate_defined:
  assumes "\<bar>net_qty p\<bar> \<le> n" "req_quantity r \<le> q" "n + q \<le> INT64_MAX" "0 \<le> n"
    and "in_i64 (max_abs_position re)" "0 \<le> max_abs_position re"
  shows "ok (evaluate re p r) (\<lambda>_. True)"
proof (cases "0 < req_quantity r")
  case True
  then have q: "\<bar>side_sign (req_side r) * req_quantity r\<bar> \<le> q"
    using assms(2) by (simp add: abs_mult)
  from True assms(2) have "0 \<le> q" by linarith
  then have "in_i64 (side_sign (req_side r) * req_quantity r)"
      "in_i64 (net_qty p + side_sign (req_side r) * req_quantity r)"
    using assms(3,4) in_i64_le [OF q] in_i64_add [OF assms(1) q] by auto
  moreover have "in_i64 (- max_abs_position re)" using assms(5,6) by (auto simp: in_i64_def)
  ultimately show ?thesis by (simp add: evaluate_def wp checked_defs)
qed (simp add: evaluate_def)

text \<open>Between no fill and a full fill the position is between two admissible ones.\<close>

lemma partial_fill_between:
  fixes n s q k m :: int
  assumes "\<bar>n\<bar> \<le> m" "\<bar>n + s * q\<bar> \<le> m" "0 \<le> k" "k \<le> q" "s = 1 \<or> s = -1"
  shows "\<bar>n + s * k\<bar> \<le> m"
  using assms by auto

section \<open>Properties\<close>

text \<open>
  C20. Pre-trade risk is exact: an order is accepted exactly when its quantity is positive
  and the fully filled position stays within the limit; a non-positive quantity is
  reported as such before the limit is looked at; and an accepted order started from an
  admissible position keeps the position admissible after any partial fill.
\<close>

theorem risk_evaluate_exact:
  assumes "evaluate re p r = Some d" and "\<bar>net_qty p\<bar> \<le> max_abs_position re"
  shows "(accepted d \<longleftrightarrow> 0 < req_quantity r \<and> \<bar>projected_qty p r\<bar> \<le> max_abs_position re) \<and>
    (reject_reason d = NoReject \<longleftrightarrow> accepted d) \<and>
    (reject_reason d = RejInvalidQuantity \<longleftrightarrow> req_quantity r \<le> 0) \<and>
    (accepted d \<longrightarrow> (\<forall>k. 0 \<le> k \<and> k \<le> req_quantity r \<longrightarrow>
       \<bar>net_qty p + side_sign (req_side r) * k\<bar> \<le> max_abs_position re))"
proof -
  note d = postD [OF evaluate_post assms(1)]
  have "\<bar>net_qty p + side_sign (req_side r) * k\<bar> \<le> max_abs_position re"
    if "accepted d" "0 \<le> k" "k \<le> req_quantity r" for k
    using partial_fill_between [OF assms(2) _ that(2,3) side_sign_cases] d that(1)
    by (simp add: projected_qty_def)
  with d show ?thesis by auto
qed

theorem risk_evaluate_exact_witness:
  "\<bar>150 + side_sign Buy * 20\<bar> \<le> (200 :: int)"
proof -
  let ?re = "\<lparr>max_abs_position = 200\<rparr>"
  let ?p = "\<lparr>net_qty = 150, avg_price = 99900\<rparr>"
  let ?r = "\<lparr>req_side = Buy, req_quantity = 50, req_limit_price = 0\<rparr>"
  have e: "evaluate ?re ?p ?r = Some \<lparr>accepted = True, reject_reason = NoReject\<rparr>" by code_simp
  have n: "\<bar>net_qty ?p\<bar> \<le> max_abs_position ?re" by simp
  show ?thesis using risk_evaluate_exact [OF e n] by simp
qed

text \<open>
  The strategy signals a buy exactly when the ask is at or below the buy threshold,
  and a sell exactly when it does not buy and the bid is at or above the sell threshold;
  a signal always carries the configured quantity, and on an uncrossed tick with ordered
  thresholds the two conditions exclude each other.
\<close>

theorem strategy_signal_exact:
  fixes st :: Strategy and tick :: MarketTick
  defines "d \<equiv> strategy_on_tick st tick"
  shows "(has_order d \<longleftrightarrow> ask_price tick \<le> buy_below st \<or> sell_above st \<le> bid_price tick) \<and>
    (has_order d \<and> req_side (decision_order d) = Buy \<longleftrightarrow> ask_price tick \<le> buy_below st) \<and>
    (has_order d \<longrightarrow> req_quantity (decision_order d) = order_qty st) \<and>
    (bid_price tick \<le> ask_price tick \<and> buy_below st < sell_above st \<longrightarrow>
       \<not> (ask_price tick \<le> buy_below st \<and> sell_above st \<le> bid_price tick))"
  by (auto simp: d_def strategy_on_tick_def)

theorem strategy_signal_exact_witness:
  "req_quantity (decision_order (strategy_on_tick \<lparr>buy_below = 100000, sell_above = 120000, order_qty = 50\<rparr>
     \<lparr>exchange_ts_ns = 0, receive_ts_ns = 0, bid_price = 99900, ask_price = 100000, symbol_id = 1,
      bid_qty = 10, ask_qty = 10\<rparr>)) = 50"
  using strategy_signal_exact [where
      tick = "\<lparr>exchange_ts_ns = 0, receive_ts_ns = 0, bid_price = 99900, ask_price = 100000, symbol_id = 1,
        bid_qty = 10, ask_qty = 10\<rparr>" and st = "\<lparr>buy_below = 100000, sell_above = 120000, order_qty = 50\<rparr>"]
  by simp

end
