(* ===== verification/Order_Manager.thy ===== *)
theory Order_Manager
  imports Kernel_Types
begin

text \<open>
  The order manager (OMS) of \<^verbatim>\<open>include/order_manager.h\<close> and \<^verbatim>\<open>src/order_manager.cpp\<close>.
  The class \<^verbatim>\<open>OrderManager\<close> has one data member, \<^verbatim>\<open>order_\<close>, so its state is the
  \<open>ManagedOrder\<close> itself; \<open>submit_new\<close>, \<open>oms_request_cancel\<close> and
  \<open>on_venue_event\<close> return the new order beside the C++ result. The out parameter
  \<^verbatim>\<open>fill_out\<close> is the second component of \<open>on_venue_event\<close>'s result. The 32-bit
  updates of \<^verbatim>\<open>cum_qty\<close> and \<^verbatim>\<open>leaves_qty\<close> are checked; the invariant \<open>oms_inv\<close>
  shows that the check never fails.
\<close>

section \<open>Data\<close>

datatype OrderState =
    Idle
  | PendingNewAck
  | Acked
  | PartiallyFilled
  | PendingCancel
  | Filled
  | Canceled
  | Rejected
  | Expired

datatype VenueEventType = EvNewAck | EvNewReject | EvFill | EvCancelAck | EvCancelReject | EvExpired

datatype VenueEventOutcome = Applied | WrongState | WrongOrder | InvalidQuantity | InvalidVenueOrderId

record VenueEvent =
  ev_type :: VenueEventType
  ev_ts_ns :: TimestampNs
  ev_venue_order_id :: i64
  ev_fill_qty :: i32
  ev_fill_price :: Price

record ManagedOrder =
  o_client_order_id :: i64
  o_venue_order_id :: i64
  o_side :: Side
  o_limit_price :: Price
  o_order_qty :: i32
  o_cum_qty :: i32
  o_leaves_qty :: i32
  o_state :: OrderState

section \<open>Operations\<close>

definition idle_order :: ManagedOrder where
  "idle_order = \<lparr>o_client_order_id = 0, o_venue_order_id = 0, o_side = Buy, o_limit_price = 0,
     o_order_qty = 0, o_cum_qty = 0, o_leaves_qty = 0, o_state = Idle\<rparr>"

definition submit_new :: "ManagedOrder \<Rightarrow> i64 \<Rightarrow> Side \<Rightarrow> Price \<Rightarrow> i32 \<Rightarrow> bool \<times> ManagedOrder" where
  "submit_new od client_order_id side limit_price qty =
     (let od = (if o_state od = Filled \<or> o_state od = Canceled \<or> o_state od = Rejected \<or>
                   o_state od = Expired
                then idle_order else od)
      in if qty \<le> 0 \<or> o_state od \<noteq> Idle then (False, od)
         else (True, \<lparr>o_client_order_id = client_order_id, o_venue_order_id = 0, o_side = side,
                 o_limit_price = limit_price, o_order_qty = qty, o_cum_qty = 0,
                 o_leaves_qty = qty, o_state = PendingNewAck\<rparr>))"

definition oms_request_cancel :: "ManagedOrder \<Rightarrow> bool \<times> ManagedOrder" where
  "oms_request_cancel od =
     (if o_state od \<noteq> Acked \<and> o_state od \<noteq> PartiallyFilled then (False, od)
      else (True, od\<lparr>o_state := PendingCancel\<rparr>))"

definition on_venue_event ::
  "ManagedOrder \<Rightarrow> VenueEvent \<Rightarrow> (VenueEventOutcome \<times> Fill \<times> ManagedOrder) option" where
  "on_venue_event od ev = (case ev_type ev of
     EvNewAck \<Rightarrow>
       if o_state od \<noteq> PendingNewAck then Some (WrongState, empty_fill, od)
       else if ev_venue_order_id ev \<le> 0 then Some (InvalidVenueOrderId, empty_fill, od)
       else Some (Applied, empty_fill,
              od\<lparr>o_venue_order_id := ev_venue_order_id ev, o_state := Acked\<rparr>)
   | EvNewReject \<Rightarrow>
       if o_state od \<noteq> PendingNewAck then Some (WrongState, empty_fill, od)
       else Some (Applied, empty_fill, od\<lparr>o_state := Rejected\<rparr>)
   | EvFill \<Rightarrow>
       if o_state od \<noteq> Acked \<and> o_state od \<noteq> PartiallyFilled \<and> o_state od \<noteq> PendingCancel
       then Some (WrongState, empty_fill, od)
       else if ev_venue_order_id ev \<le> 0 then Some (InvalidVenueOrderId, empty_fill, od)
       else if ev_venue_order_id ev \<noteq> o_venue_order_id od then Some (WrongOrder, empty_fill, od)
       else if ev_fill_qty ev \<le> 0 \<or> ev_fill_qty ev > o_leaves_qty od
       then Some (InvalidQuantity, empty_fill, od)
       else do {
         cum \<leftarrow> add32 (o_cum_qty od) (ev_fill_qty ev);
         leaves \<leftarrow> sub32 (o_leaves_qty od) (ev_fill_qty ev);
         Some (Applied,
           \<lparr>f_ts_ns = ev_ts_ns ev, f_price = ev_fill_price ev, f_quantity = ev_fill_qty ev,
            f_side = o_side od\<rparr>,
           od\<lparr>o_cum_qty := cum, o_leaves_qty := leaves,
              o_state := (if leaves = 0 then Filled else PartiallyFilled)\<rparr>)
       }
   | EvCancelAck \<Rightarrow>
       if o_state od \<noteq> PendingCancel then Some (WrongState, empty_fill, od)
       else if ev_venue_order_id ev \<le> 0 then Some (InvalidVenueOrderId, empty_fill, od)
       else if ev_venue_order_id ev \<noteq> o_venue_order_id od then Some (WrongOrder, empty_fill, od)
       else Some (Applied, empty_fill, od\<lparr>o_leaves_qty := 0, o_state := Canceled\<rparr>)
   | EvCancelReject \<Rightarrow>
       if o_state od \<noteq> PendingCancel then Some (WrongState, empty_fill, od)
       else if ev_venue_order_id ev \<le> 0 then Some (InvalidVenueOrderId, empty_fill, od)
       else if ev_venue_order_id ev \<noteq> o_venue_order_id od then Some (WrongOrder, empty_fill, od)
       else Some (Applied, empty_fill, od\<lparr>o_state :=
              (if o_leaves_qty od = o_order_qty od then Acked else PartiallyFilled)\<rparr>)
   | EvExpired \<Rightarrow>
       if o_state od \<noteq> Acked \<and> o_state od \<noteq> PartiallyFilled
       then Some (WrongState, empty_fill, od)
       else if ev_venue_order_id ev \<le> 0 then Some (InvalidVenueOrderId, empty_fill, od)
       else if ev_venue_order_id ev \<noteq> o_venue_order_id od then Some (WrongOrder, empty_fill, od)
       else Some (Applied, empty_fill, od\<lparr>o_leaves_qty := 0, o_state := Expired\<rparr>))"

definition order_state_name :: "OrderState \<Rightarrow> string" where
  "order_state_name state = (case state of
     Idle \<Rightarrow> ''Idle'' | PendingNewAck \<Rightarrow> ''PendingNewAck'' | Acked \<Rightarrow> ''Acked''
   | PartiallyFilled \<Rightarrow> ''PartiallyFilled'' | PendingCancel \<Rightarrow> ''PendingCancel''
   | Filled \<Rightarrow> ''Filled'' | Canceled \<Rightarrow> ''Canceled'' | Rejected \<Rightarrow> ''Rejected''
   | Expired \<Rightarrow> ''Expired'')"

definition venue_event_outcome_name :: "VenueEventOutcome \<Rightarrow> string" where
  "venue_event_outcome_name outcome = (case outcome of
     Applied \<Rightarrow> ''Applied'' | WrongState \<Rightarrow> ''WrongState'' | WrongOrder \<Rightarrow> ''WrongOrder''
   | InvalidQuantity \<Rightarrow> ''InvalidQuantity'' | InvalidVenueOrderId \<Rightarrow> ''InvalidVenueOrderId'')"

text \<open>
  The underlying values of the enumeration, which the journal stores in the price and
  quantity members of a transition event.
\<close>

definition order_state_code :: "OrderState \<Rightarrow> int" where
  "order_state_code state = (case state of
     Idle \<Rightarrow> 0 | PendingNewAck \<Rightarrow> 1 | Acked \<Rightarrow> 2 | PartiallyFilled \<Rightarrow> 3 | PendingCancel \<Rightarrow> 4
   | Filled \<Rightarrow> 5 | Canceled \<Rightarrow> 6 | Rejected \<Rightarrow> 7 | Expired \<Rightarrow> 8)"

section \<open>Specification: lifecycle, well-formed orders, runs\<close>

definition live_state :: "OrderState \<Rightarrow> bool" where
  "live_state st \<longleftrightarrow> st \<in> {PendingNewAck, Acked, PartiallyFilled, PendingCancel}"

definition open_state :: "OrderState \<Rightarrow> bool" where
  "open_state st \<longleftrightarrow> st \<in> {Acked, PartiallyFilled, PendingCancel}"

definition terminal_state :: "OrderState \<Rightarrow> bool" where
  "terminal_state st \<longleftrightarrow> st \<in> {Filled, Canceled, Rejected, Expired}"

text \<open>States compare by their numeric value, as the scoped enumeration of the source does.\<close>

instantiation OrderState :: linorder
begin

definition less_eq_OrderState :: "OrderState \<Rightarrow> OrderState \<Rightarrow> bool" where
  "less_eq_OrderState s t \<longleftrightarrow> order_state_code s \<le> order_state_code t"

definition less_OrderState :: "OrderState \<Rightarrow> OrderState \<Rightarrow> bool" where
  "less_OrderState s t \<longleftrightarrow> order_state_code s < order_state_code t"

instance
proof
  fix s t :: OrderState
  assume "s \<le> t" "t \<le> s"
  then show "s = t" by (cases s; cases t) (simp_all add: less_eq_OrderState_def order_state_code_def)
qed (auto simp: less_eq_OrderState_def less_OrderState_def)

end

lemma terminal_state_iff: "terminal_state st \<longleftrightarrow> Filled \<le> st"
  by (cases st) (simp_all add: terminal_state_def less_eq_OrderState_def order_state_code_def)

lemmas state_class_defs = live_state_def open_state_def terminal_state_def

text \<open>The order lifecycle the venue drives, as a labelled step relation on states.\<close>

inductive lifecycle_step :: "OrderState \<Rightarrow> VenueEventType \<Rightarrow> OrderState \<Rightarrow> bool" where
  ack: "lifecycle_step PendingNewAck EvNewAck Acked"
| reject: "lifecycle_step PendingNewAck EvNewReject Rejected"
| partial: "open_state st \<Longrightarrow> lifecycle_step st EvFill PartiallyFilled"
| full: "open_state st \<Longrightarrow> lifecycle_step st EvFill Filled"
| cancel_ack: "lifecycle_step PendingCancel EvCancelAck Canceled"
| cancel_reject_unfilled: "lifecycle_step PendingCancel EvCancelReject Acked"
| cancel_reject_filled: "lifecycle_step PendingCancel EvCancelReject PartiallyFilled"
| expire: "st = Acked \<or> st = PartiallyFilled \<Longrightarrow> lifecycle_step st EvExpired Expired"

inductive_cases lifecycle_from: "lifecycle_step st e st'"
inductive_simps lifecycle_simps:
  "lifecycle_step st EvNewAck st'" "lifecycle_step st EvNewReject st'" "lifecycle_step st EvFill st'"
  "lifecycle_step st EvCancelAck st'" "lifecycle_step st EvCancelReject st'" "lifecycle_step st EvExpired st'"

text \<open>The quantities of an order agree with its state.\<close>

definition oms_inv :: "ManagedOrder \<Rightarrow> bool" where
  "oms_inv od \<longleftrightarrow> in_i32 (o_order_qty od) \<and> 0 \<le> o_cum_qty od \<and> o_cum_qty od \<le> o_order_qty od \<and>
     (case o_state od of
        Idle \<Rightarrow> od = idle_order
      | PendingNewAck \<Rightarrow> o_cum_qty od = 0 \<and> o_leaves_qty od = o_order_qty od \<and> 0 < o_order_qty od
      | Acked \<Rightarrow> 0 < o_venue_order_id od \<and> o_cum_qty od = 0 \<and>
          o_leaves_qty od = o_order_qty od \<and> 0 < o_order_qty od
      | PartiallyFilled \<Rightarrow> 0 < o_venue_order_id od \<and> 0 < o_cum_qty od \<and>
          o_leaves_qty od = o_order_qty od - o_cum_qty od \<and> 0 < o_leaves_qty od
      | PendingCancel \<Rightarrow> 0 < o_venue_order_id od \<and>
          o_leaves_qty od = o_order_qty od - o_cum_qty od \<and> 0 < o_leaves_qty od
      | Filled \<Rightarrow> o_cum_qty od = o_order_qty od \<and> o_leaves_qty od = 0 \<and> 0 < o_order_qty od
      | Canceled \<Rightarrow> o_cum_qty od < o_order_qty od \<and> o_leaves_qty od = 0
      | Rejected \<Rightarrow> o_cum_qty od = 0 \<and> o_leaves_qty od = o_order_qty od \<and> 0 < o_order_qty od
      | Expired \<Rightarrow> o_cum_qty od < o_order_qty od \<and> o_leaves_qty od = 0)"

text \<open>
  A run of an event handler over a list of events, collecting outcomes and fills: the
  sequence the replay loop performs on a batch.
\<close>

fun run_events :: "('s \<Rightarrow> 'e \<Rightarrow> ('r \<times> Fill \<times> 's) option) \<Rightarrow> 's \<Rightarrow> 'e list \<Rightarrow> ('r list \<times> Fill list \<times> 's) option" where
  "run_events h s [] = Some ([], [], s)"
| "run_events h s (e # es) = do {
     (r, f, s') \<leftarrow> h s e;
     (rs, fs, s'') \<leftarrow> run_events h s' es;
     Some (r # rs, f # fs, s'')
   }"

text \<open>
  The orders an \<^verbatim>\<open>OrderManager\<close> can hold, under any sequence of calls and any venue
  behaviour, however wrong.
\<close>

inductive oms_reach :: "ManagedOrder \<Rightarrow> bool" where
  start: "oms_reach idle_order"
| submit: "oms_reach od \<Longrightarrow> in_i32 qty \<Longrightarrow> oms_reach (snd (submit_new od cid sd px qty))"
| cancel: "oms_reach od \<Longrightarrow> oms_reach (snd (oms_request_cancel od))"
| event: "oms_reach od \<Longrightarrow> on_venue_event od ev = Some (r, f, od') \<Longrightarrow> oms_reach od'"

text \<open>
  The validation policy of \<^verbatim>\<open>on_venue_event\<close> as a decision table: the state is checked
  first, then that the venue id is positive, then that it is the active order's id, then
  the fill quantity.
\<close>

definition event_enabled :: "OrderState \<Rightarrow> VenueEventType \<Rightarrow> bool" where
  "event_enabled st e = (case e of
     EvNewAck \<Rightarrow> st = PendingNewAck
   | EvNewReject \<Rightarrow> st = PendingNewAck
   | EvFill \<Rightarrow> open_state st
   | EvCancelAck \<Rightarrow> st = PendingCancel
   | EvCancelReject \<Rightarrow> st = PendingCancel
   | EvExpired \<Rightarrow> st = Acked \<or> st = PartiallyFilled)"

definition outcome_policy :: "ManagedOrder \<Rightarrow> VenueEvent \<Rightarrow> VenueEventOutcome" where
  "outcome_policy od ev =
     (if \<not> event_enabled (o_state od) (ev_type ev) then WrongState
      else if ev_type ev \<noteq> EvNewReject \<and> ev_venue_order_id ev \<le> 0 then InvalidVenueOrderId
      else if ev_type ev \<notin> {EvNewAck, EvNewReject} \<and> ev_venue_order_id ev \<noteq> o_venue_order_id od
      then WrongOrder
      else if ev_type ev = EvFill \<and> \<not> (0 < ev_fill_qty ev \<and> ev_fill_qty ev \<le> o_leaves_qty od)
      then InvalidQuantity
      else Applied)"

section \<open>Single operations\<close>

lemma on_venue_event_rejected:
  "on_venue_event od ev = Some (r, f, od') \<Longrightarrow> r \<noteq> Applied \<Longrightarrow> od' = od \<and> f = empty_fill"
  by (auto simp: on_venue_event_def Option.bind_eq_Some_conv split: VenueEventType.splits if_splits)

lemma on_venue_event_lifecycle:
  "on_venue_event od ev = Some (Applied, f, od') \<Longrightarrow>
     lifecycle_step (o_state od) (ev_type ev) (o_state od')"
  by (auto simp: on_venue_event_def Option.bind_eq_Some_conv lifecycle_simps open_state_def
      split: VenueEventType.splits if_splits)

lemma on_venue_event_frame:
  "on_venue_event od ev = Some (r, f, od') \<Longrightarrow>
     o_client_order_id od' = o_client_order_id od \<and> o_side od' = o_side od \<and>
     o_limit_price od' = o_limit_price od \<and> o_order_qty od' = o_order_qty od"
  by (auto simp: on_venue_event_def Option.bind_eq_Some_conv split: VenueEventType.splits if_splits)

lemma on_venue_event_fill:
  "on_venue_event od ev = Some (r, f, od') \<Longrightarrow>
     0 \<le> f_quantity f \<and> o_cum_qty od' = o_cum_qty od + f_quantity f \<and>
     (f_quantity f \<noteq> 0 \<longleftrightarrow> r = Applied \<and> ev_type ev = EvFill) \<and>
     (f_quantity f \<noteq> 0 \<longrightarrow> f_side f = o_side od \<and> f_price f = ev_fill_price ev \<and>
        f_ts_ns f = ev_ts_ns ev \<and> f_quantity f = ev_fill_qty ev \<and>
        f_quantity f \<le> o_leaves_qty od \<and> o_leaves_qty od' = o_leaves_qty od - f_quantity f)"
  by (auto simp: on_venue_event_def Option.bind_eq_Some_conv checked_defs
      split: VenueEventType.splits if_splits)

lemma oms_inv_idle [simp]: "oms_inv idle_order"
  by (simp add: oms_inv_def idle_order_def)

lemma oms_inv_submit_new:
  "oms_inv od \<Longrightarrow> in_i32 qty \<Longrightarrow> submit_new od cid sd px qty = (b, od') \<Longrightarrow> oms_inv od'"
  by (auto simp: submit_new_def Let_def oms_inv_def idle_order_def split: if_splits OrderState.splits)

lemma oms_inv_request_cancel: "oms_inv od \<Longrightarrow> oms_request_cancel od = (b, od') \<Longrightarrow> oms_inv od'"
  by (auto simp: oms_request_cancel_def oms_inv_def split: if_splits OrderState.splits)

lemma oms_inv_leaves_bounds: "oms_inv od \<Longrightarrow> 0 \<le> o_leaves_qty od \<and> o_leaves_qty od \<le> o_order_qty od"
  by (auto simp: oms_inv_def idle_order_def split: OrderState.splits)

lemma oms_inv_on_venue_event_ok:
  assumes "oms_inv od"
  shows "ok (on_venue_event od ev) (\<lambda>(r, f, od'). oms_inv od')"
proof (cases "ev_type ev")
  case EvFill
  have range: "in_i32 (o_cum_qty od + q) \<and> in_i32 (o_leaves_qty od - q)"
    if "open_state (o_state od)" "0 < q" "q \<le> o_leaves_qty od" for q
    using assms that by (auto simp: oms_inv_def open_state_def in_i32_def)
  show ?thesis
    using assms EvFill range [of "ev_fill_qty ev"]
    by (auto simp: on_venue_event_def wp checked_defs oms_inv_def open_state_def)
qed (use assms in \<open>auto simp: on_venue_event_def oms_inv_def split: OrderState.splits\<close>)

lemma on_venue_event_outcome:
  "on_venue_event od ev = Some (r, f, od') \<Longrightarrow> r = outcome_policy od ev"
  by (cases "ev_type ev")
    (auto simp: on_venue_event_def outcome_policy_def event_enabled_def open_state_def
      Option.bind_eq_Some_conv split: if_splits)

lemma event_enabled_iff: "event_enabled st e \<longleftrightarrow> (\<exists>st'. lifecycle_step st e st')"
  by (cases e) (auto simp: event_enabled_def lifecycle_simps)

lemma terminal_not_enabled: "terminal_state st \<or> st = Idle \<Longrightarrow> \<not> event_enabled st e"
  by (cases e) (auto simp: event_enabled_def state_class_defs)

lemma oms_reach_inv: "oms_reach od \<Longrightarrow> oms_inv od"
proof (induction rule: oms_reach.induct)
  case start
  show ?case by simp
next
  case (submit od qty cid sd px)
  then show ?case by (auto intro: oms_inv_submit_new simp: prod_eq_iff)
next
  case (cancel od)
  then show ?case by (auto intro: oms_inv_request_cancel simp: prod_eq_iff)
next
  case (event od ev r f od')
  then show ?case using oms_inv_on_venue_event_ok [of od ev] by simp
qed

section \<open>The lifecycle contract\<close>

text \<open>
  What the consumers of an order state machine rely on: a handler that is defined on
  well-formed states, keeps them well formed, ignores every event it does not apply, and
  accounts for each fill in its cumulative quantity.
\<close>

locale order_lifecycle =
  fixes handle :: "'s \<Rightarrow> 'e \<Rightarrow> ('r \<times> Fill \<times> 's) option"
    and applied :: 'r
    and wf :: "'s \<Rightarrow> bool"
    and cum :: "'s \<Rightarrow> int"
    and total :: "'s \<Rightarrow> int"
  assumes handle_ok: "wf s \<Longrightarrow> ok (handle s e) (\<lambda>(r, f, s'). wf s')"
    and handle_rejected: "handle s e = Some (r, f, s') \<Longrightarrow> r \<noteq> applied \<Longrightarrow> s' = s \<and> f = empty_fill"
    and handle_cum: "handle s e = Some (r, f, s') \<Longrightarrow>
      cum s' = cum s + f_quantity f \<and> 0 \<le> f_quantity f \<and> total s' = total s"
    and wf_bound: "wf s \<Longrightarrow> 0 \<le> cum s \<and> cum s \<le> total s"
begin

lemma run_ok:
  "wf s \<Longrightarrow> ok (run_events handle s es) (\<lambda>(rs, fs, s'). wf s' \<and> total s' = total s \<and>
     cum s' = cum s + sum_list (map f_quantity fs) \<and> length fs = length es)"
proof (induction es arbitrary: s)
  case Nil
  then show ?case by simp
next
  case (Cons e es)
  from handle_ok [OF Cons.prems, of e] obtain r f s' where h: "handle s e = Some (r, f, s')" "wf s'"
    by (auto simp: ok_iff)
  from Cons.IH [OF h(2)] show ?case
    using h(1) handle_cum [OF h(1)] by (auto simp: wp ok_iff)
qed

lemma run_rejected:
  "run_events handle s es = Some (rs, fs, s') \<Longrightarrow> applied \<notin> set rs \<Longrightarrow>
     s' = s \<and> fs = replicate (length es) empty_fill"
proof (induction es arbitrary: s rs fs)
  case Nil
  then show ?case by simp
next
  case (Cons e es)
  then show ?case
    by (fastforce simp: Option.bind_eq_Some_conv dest: handle_rejected)
qed

lemma run_never_overfills:
  "wf s \<Longrightarrow> cum s = 0 \<Longrightarrow>
     ok (run_events handle s es) (\<lambda>(rs, fs, s'). sum_list (map f_quantity fs) = cum s' \<and> cum s' \<le> total s)"
  by (rule ok_mono [OF run_ok]) (auto dest: wf_bound)

end

interpretation oms: order_lifecycle on_venue_event Applied oms_inv o_cum_qty o_order_qty
proof unfold_locales
  show "ok (on_venue_event s e) (\<lambda>(r, f, s'). oms_inv s')" if "oms_inv s" for s e
    using that by (rule oms_inv_on_venue_event_ok)
  show "s' = s \<and> f = empty_fill" if "on_venue_event s e = Some (r, f, s')" "r \<noteq> Applied" for s e r f s'
    using that by (rule on_venue_event_rejected)
  show "o_cum_qty s' = o_cum_qty s + f_quantity f \<and> 0 \<le> f_quantity f \<and> o_order_qty s' = o_order_qty s"
    if "on_venue_event s e = Some (r, f, s')" for s e r f s'
    using on_venue_event_fill [OF that] on_venue_event_frame [OF that] by simp
  show "0 \<le> o_cum_qty s \<and> o_cum_qty s \<le> o_order_qty s" if "oms_inv s" for s
    using that by (simp add: oms_inv_def)
qed

section \<open>Properties\<close>

text \<open>
  C1. From an accepted submission on, whatever events the venue delivers and in whatever
  order, the order manager never meets undefined behaviour, the order stays well formed,
  \<^verbatim>\<open>cum_qty\<close> is exactly the sum of the fills it reported, and it never exceeds the
  submitted quantity.
\<close>

theorem oms_fill_conservation:
  assumes "oms_inv od" and "in_i32 qty" and "submit_new od cid sd px qty = (True, od0)"
  shows "ok (run_events on_venue_event od0 evs) (\<lambda>(rs, fs, od').
           oms_inv od' \<and> o_order_qty od' = qty \<and> sum_list (map f_quantity fs) = o_cum_qty od' \<and>
           0 \<le> o_cum_qty od' \<and> o_cum_qty od' \<le> qty)"
proof -
  from assms have inv: "oms_inv od0" by (rule oms_inv_submit_new)
  from assms(3) have od0: "o_cum_qty od0 = 0" "o_order_qty od0 = qty"
    by (auto simp: submit_new_def Let_def split: if_splits)
  show ?thesis
    using oms.run_ok [OF inv, of evs] od0
    by (auto elim!: ok_mono dest: oms.wf_bound)
qed

theorem oms_fill_conservation_witness:
  "ok (run_events on_venue_event (snd (submit_new idle_order 7 Buy 100 50))
     [\<lparr>ev_type = EvNewAck, ev_ts_ns = 1, ev_venue_order_id = 9, ev_fill_qty = 0, ev_fill_price = 0\<rparr>,
      \<lparr>ev_type = EvFill, ev_ts_ns = 2, ev_venue_order_id = 9, ev_fill_qty = 20, ev_fill_price = 100\<rparr>,
      \<lparr>ev_type = EvFill, ev_ts_ns = 3, ev_venue_order_id = 9, ev_fill_qty = 40, ev_fill_price = 100\<rparr>])
     (\<lambda>(rs, fs, od'). oms_inv od' \<and> o_order_qty od' = 50 \<and>
        sum_list (map f_quantity fs) = o_cum_qty od' \<and> 0 \<le> o_cum_qty od' \<and> o_cum_qty od' \<le> 50)"
  by (rule oms_fill_conservation [of idle_order 50 7 Buy 100])
    (simp_all add: submit_new_def idle_order_def oms_inv_def in_i32_def)

text \<open>
  C16. The outcome of a venue event follows the documented validation order (state, then a
  positive venue id, then a matching venue id, then the quantity), and an event with any
  outcome other than Applied changes nothing and reports no fill.
\<close>

theorem oms_event_validation:
  assumes "on_venue_event od ev = Some (r, f, od')"
  shows "r = outcome_policy od ev \<and> (r \<noteq> Applied \<longrightarrow> od' = od \<and> f = empty_fill)"
  using on_venue_event_outcome [OF assms] on_venue_event_rejected [OF assms] by auto

theorem oms_event_validation_witness:
  "WrongOrder = outcome_policy
     \<lparr>o_client_order_id = 1, o_venue_order_id = 9, o_side = Buy, o_limit_price = 100, o_order_qty = 50,
      o_cum_qty = 0, o_leaves_qty = 50, o_state = Acked\<rparr>
     \<lparr>ev_type = EvFill, ev_ts_ns = 2, ev_venue_order_id = 8, ev_fill_qty = 60, ev_fill_price = 100\<rparr>"
  by (rule oms_event_validation [where f = empty_fill, THEN conjunct1]) (simp add: on_venue_event_def)

text \<open>
  C17. Every order an order manager can ever hold is well formed, and every venue event is
  handled on it without undefined behaviour, with an order the manager can hold again. Well
  formed means: the cumulative quantity is within the order, a live order leaves exactly what
  is not yet filled, a filled, cancelled or expired order leaves nothing, and an order is
  filled exactly when its whole quantity is.
\<close>

theorem oms_reachable_invariant:
  assumes "oms_reach od"
  shows "0 \<le> o_cum_qty od \<and> o_cum_qty od \<le> o_order_qty od \<and>
    (live_state (o_state od) \<longrightarrow> o_leaves_qty od = o_order_qty od - o_cum_qty od \<and> 0 < o_leaves_qty od) \<and>
    (o_state od \<in> {Filled, Canceled, Expired} \<longrightarrow> o_leaves_qty od = 0) \<and>
    (o_state od = Filled \<longleftrightarrow> 0 < o_order_qty od \<and> o_cum_qty od = o_order_qty od) \<and>
    (\<forall>ev. \<exists>r f od'. on_venue_event od ev = Some (r, f, od') \<and> oms_reach od' \<and>
       0 \<le> f_quantity f \<and> o_cum_qty od' = o_cum_qty od + f_quantity f)"
proof -
  note inv = oms_reach_inv [OF assms]
  have "\<exists>r f od'. on_venue_event od ev = Some (r, f, od') \<and> oms_reach od' \<and>
      0 \<le> f_quantity f \<and> o_cum_qty od' = o_cum_qty od + f_quantity f" for ev
  proof -
    obtain r f od' where ev: "on_venue_event od ev = Some (r, f, od')"
      using oms_inv_on_venue_event_ok [OF inv, of ev] by (auto simp: ok_iff)
    with oms_reach.event [OF assms ev] on_venue_event_fill [OF ev] show ?thesis by blast
  qed
  moreover have "0 \<le> o_cum_qty od \<and> o_cum_qty od \<le> o_order_qty od \<and>
      (live_state (o_state od) \<longrightarrow> o_leaves_qty od = o_order_qty od - o_cum_qty od \<and> 0 < o_leaves_qty od) \<and>
      (o_state od \<in> {Filled, Canceled, Expired} \<longrightarrow> o_leaves_qty od = 0) \<and>
      (o_state od = Filled \<longleftrightarrow> 0 < o_order_qty od \<and> o_cum_qty od = o_order_qty od)"
    using inv by (auto simp: oms_inv_def live_state_def idle_order_def split: OrderState.splits)
  ultimately show ?thesis by blast
qed

theorem oms_reachable_invariant_witness:
  "o_leaves_qty (snd (submit_new idle_order 7 Sell 100 50)) = 50 - 0 \<and>
    (\<exists>r f od'. on_venue_event (snd (submit_new idle_order 7 Sell 100 50))
       \<lparr>ev_type = EvFill, ev_ts_ns = 2, ev_venue_order_id = 8, ev_fill_qty = 60, ev_fill_price = 100\<rparr> = Some (r, f, od') \<and> oms_reach od')"
proof -
  have "oms_reach (snd (submit_new idle_order 7 Sell 100 50))"
    by (rule oms_reach.submit [OF oms_reach.start]) (simp add: in_i32_def)
  from oms_reachable_invariant [OF this] show ?thesis
    by (simp add: submit_new_def idle_order_def live_state_def) blast
qed

text \<open>
  C18. An applied event moves the order along the published lifecycle, every enabled
  lifecycle edge is for an event the order manager can apply, and a terminal or idle order
  accepts no venue event at all.
\<close>

theorem oms_refines_lifecycle:
  assumes "oms_inv od"
  shows "ok (on_venue_event od ev) (\<lambda>(r, f, od').
    (r = Applied \<longrightarrow> lifecycle_step (o_state od) (ev_type ev) (o_state od')) \<and>
    (r = WrongState \<longleftrightarrow> \<not> (\<exists>st'. lifecycle_step (o_state od) (ev_type ev) st')) \<and>
    (terminal_state (o_state od) \<or> o_state od = Idle \<longrightarrow> r = WrongState \<and> od' = od))"
proof (rule ok_mono [OF oms_inv_on_venue_event_ok [OF assms]], clarify, intro conjI)
  fix r f od'
  assume ev: "on_venue_event od ev = Some (r, f, od')"
  show "r = Applied \<longrightarrow> lifecycle_step (o_state od) (ev_type ev) (o_state od')"
    using ev by (auto dest: on_venue_event_lifecycle)
  show wrong: "r = WrongState \<longleftrightarrow> \<not> (\<exists>st'. lifecycle_step (o_state od) (ev_type ev) st')"
    using on_venue_event_outcome [OF ev] by (simp add: outcome_policy_def event_enabled_iff)
  show "terminal_state (o_state od) \<or> o_state od = Idle \<longrightarrow> r = WrongState \<and> od' = od"
    using on_venue_event_outcome [OF ev] on_venue_event_rejected [OF ev] terminal_not_enabled
    by (auto simp: outcome_policy_def)
qed

theorem oms_refines_lifecycle_witness:
  "ok (on_venue_event idle_order
        \<lparr>ev_type = EvFill, ev_ts_ns = 2, ev_venue_order_id = 8, ev_fill_qty = 60, ev_fill_price = 100\<rparr>)
      (\<lambda>(r, f, od'). r = WrongState \<and> od' = idle_order)"
  by (rule ok_mono [OF oms_refines_lifecycle [OF oms_inv_idle]]) (auto simp: idle_order_def)

text \<open>
  A venue rejection of a new order leaves its full quantity in \<^verbatim>\<open>leaves_qty\<close>: the
  terminal state Rejected is the one terminal state that does not clear it.
\<close>

theorem oms_rejected_keeps_leaves:
  assumes "oms_reach od" and "o_state od = Rejected"
  shows "o_leaves_qty od = o_order_qty od \<and> 0 < o_leaves_qty od"
  using oms_reach_inv [OF assms(1)] assms(2) by (simp add: oms_inv_def)

theorem oms_rejected_keeps_leaves_witness:
  "\<exists>od. oms_reach od \<and> o_state od = Rejected \<and> o_leaves_qty od = 50"
proof -
  let ?ev = "\<lparr>ev_type = EvNewReject, ev_ts_ns = 2, ev_venue_order_id = 0, ev_fill_qty = 0, ev_fill_price = 0\<rparr>"
  let ?sent = "snd (submit_new idle_order 3 Buy 100 50)"
  let ?od = "?sent\<lparr>o_state := Rejected\<rparr>"
  have "oms_reach ?sent"
    by (rule oms_reach.submit [OF oms_reach.start]) (simp add: in_i32_def)
  then have reach: "oms_reach ?od"
    by (rule oms_reach.event [where ev = ?ev and r = Applied and f = empty_fill])
      (simp add: on_venue_event_def submit_new_def idle_order_def)
  have "o_order_qty ?od = 50"
    by (simp add: submit_new_def idle_order_def)
  then have "o_leaves_qty ?od = 50"
    using oms_rejected_keeps_leaves [OF reach] by simp
  with reach show ?thesis
    by (intro exI [of _ ?od] conjI) simp_all
qed

end
