(* ===== verification/Execution_Simulator.thy ===== *)
theory Execution_Simulator
  imports Kernel_Types
begin

text \<open>
  The execution simulator of \<^verbatim>\<open>include/execution_simulator.h\<close> and
  \<^verbatim>\<open>src/execution_simulator.cpp\<close>: immediate-or-cancel fills against the displayed
  opposite quantity, and one resting passive order with a queue position, an optional
  pending cancel and stale/adverse statistics. Timestamps, prices and quantities are
  checked; the statistics counters, each incremented at most once per call, are not.
\<close>

section \<open>State\<close>

record ExecutionReport =
  rep_accepted :: bool
  rep_has_fill :: bool
  rep_was_partial :: bool
  rep_cancel_acked :: bool
  rep_stale_quote :: bool
  rep_adverse_selection :: bool
  rep_fill :: Fill
  rep_leaves_qty :: i32

record ExecutionStats =
  aggressive_fill_count :: i64
  passive_fill_count :: i64
  partial_fill_count :: i64
  cancel_request_count :: i64
  cancel_ack_count :: i64
  stale_fill_count :: i64
  adverse_fill_count :: i64

record RestingOrder =
  rest_active :: bool
  rest_side :: Side
  rest_price :: Price
  rest_leaves_qty :: i32
  rest_queue_ahead_qty :: i32
  rest_submit_ts_ns :: TimestampNs
  rest_cancel_pending :: bool
  rest_cancel_effective_ts_ns :: TimestampNs

record ExecutionSimulator =
  cancel_latency_ns :: TimestampNs
  stale_after_ns :: TimestampNs
  adverse_move_threshold :: Price
  resting_order :: RestingOrder
  stats :: ExecutionStats

definition simulator_init :: "TimestampNs \<Rightarrow> TimestampNs \<Rightarrow> Price \<Rightarrow> ExecutionSimulator" where
  "simulator_init cancel_latency stale_after adverse_move =
     \<lparr>cancel_latency_ns = cancel_latency, stale_after_ns = stale_after, adverse_move_threshold = adverse_move,
      resting_order = \<lparr>rest_active = False, rest_side = Buy, rest_price = 0, rest_leaves_qty = 0,
        rest_queue_ahead_qty = 0, rest_submit_ts_ns = 0, rest_cancel_pending = False,
        rest_cancel_effective_ts_ns = 0\<rparr>,
      stats = \<lparr>aggressive_fill_count = 0, passive_fill_count = 0, partial_fill_count = 0,
        cancel_request_count = 0, cancel_ack_count = 0, stale_fill_count = 0, adverse_fill_count = 0\<rparr>\<rparr>"

definition simulator_default :: ExecutionSimulator where
  "simulator_default = simulator_init 1000 1000 PRICE_SCALE"

text \<open>A report with no fill and no cancel acknowledgement.\<close>

definition plain_report :: "bool \<Rightarrow> i32 \<Rightarrow> ExecutionReport" where
  "plain_report acc leaves = \<lparr>rep_accepted = acc, rep_has_fill = False, rep_was_partial = False,
     rep_cancel_acked = False, rep_stale_quote = False, rep_adverse_selection = False,
     rep_fill = empty_fill, rep_leaves_qty = leaves\<rparr>"

section \<open>Operations\<close>

definition has_resting_order :: "ExecutionSimulator \<Rightarrow> bool" where
  "has_resting_order sim = rest_active (resting_order sim)"

definition is_marketable :: "ExecutionSimulator \<Rightarrow> MarketTick \<Rightarrow> bool" where
  "is_marketable sim tick =
     (if \<not> rest_active (resting_order sim) then False
      else if rest_side (resting_order sim) = Buy then ask_price tick \<le> rest_price (resting_order sim)
      else bid_price tick \<ge> rest_price (resting_order sim))"

definition visible_opposite_qty :: "ExecutionSimulator \<Rightarrow> MarketTick \<Rightarrow> i32" where
  "visible_opposite_qty sim tick = (if rest_side (resting_order sim) = Buy then ask_qty tick else bid_qty tick)"

definition detect_adverse_selection :: "ExecutionSimulator \<Rightarrow> MarketTick \<Rightarrow> bool option" where
  "detect_adverse_selection sim tick = do {
     total \<leftarrow> add64 (bid_price tick) (ask_price tick);
     mid_price \<leftarrow> div64 total 2;
     (if rest_side (resting_order sim) = Buy
      then do { moved \<leftarrow> add64 mid_price (adverse_move_threshold sim);
                Some (moved \<le> rest_price (resting_order sim)) }
      else do { moved \<leftarrow> sub64 mid_price (adverse_move_threshold sim);
                Some (moved \<ge> rest_price (resting_order sim)) })
   }"

definition aggressive_fill ::
  "ExecutionSimulator \<Rightarrow> MarketTick \<Rightarrow> OrderRequest \<Rightarrow> (ExecutionReport \<times> ExecutionSimulator) option" where
  "aggressive_fill sim tick request =
     (let available_qty = (if req_side request = Buy then ask_qty tick else bid_qty tick);
          fill_qty = (if available_qty < req_quantity request then available_qty else req_quantity request)
      in if fill_qty \<le> 0 then Some (plain_report True (req_quantity request), sim)
         else let was_partial = fill_qty < req_quantity request;
                  st = (if was_partial
                        then (stats sim)\<lparr>partial_fill_count := partial_fill_count (stats sim) + 1\<rparr>
                        else stats sim);
                  st = st\<lparr>aggressive_fill_count := aggressive_fill_count st + 1\<rparr>;
                  fill = \<lparr>f_ts_ns = receive_ts_ns tick,
                     f_price = (if req_side request = Buy then ask_price tick else bid_price tick),
                     f_quantity = fill_qty, f_side = req_side request\<rparr>
              in do {
                leaves \<leftarrow> sub32 (req_quantity request) fill_qty;
                Some (\<lparr>rep_accepted = True, rep_has_fill = True, rep_was_partial = was_partial,
                        rep_cancel_acked = False, rep_stale_quote = False, rep_adverse_selection = False,
                        rep_fill = fill, rep_leaves_qty = leaves\<rparr>,
                      sim\<lparr>stats := st\<rparr>)
              })"

text \<open>
  \<open>passive_fill_from_market\<close> in the order of the source: the displayed quantity is
  first spent on the queue ahead (\<open>consume_queue\<close>; that update stays even when nothing
  is left for the order), then the order itself fills from what is available, and the
  statistics and the deactivation follow (\<open>fill_resting\<close>).
\<close>

definition consume_queue :: "RestingOrder \<Rightarrow> i32 \<Rightarrow> (i32 \<times> i32) option" where
  "consume_queue ro available_qty =
     (if rest_queue_ahead_qty ro > 0
      then let queue_consumed = (if rest_queue_ahead_qty ro < available_qty
                                 then rest_queue_ahead_qty ro else available_qty)
           in do {
             queue_left \<leftarrow> sub32 (rest_queue_ahead_qty ro) queue_consumed;
             avail_left \<leftarrow> sub32 available_qty queue_consumed;
             Some (queue_left, avail_left)
           }
      else Some (rest_queue_ahead_qty ro, available_qty))"

definition passive_stats :: "ExecutionStats \<Rightarrow> bool \<Rightarrow> bool \<Rightarrow> bool \<Rightarrow> ExecutionStats" where
  "passive_stats st was_partial stale_quote adverse_selection =
     (let st = (if was_partial then st\<lparr>partial_fill_count := partial_fill_count st + 1\<rparr> else st);
          st = (if stale_quote then st\<lparr>stale_fill_count := stale_fill_count st + 1\<rparr> else st);
          st = (if adverse_selection then st\<lparr>adverse_fill_count := adverse_fill_count st + 1\<rparr> else st)
      in st\<lparr>passive_fill_count := passive_fill_count st + 1\<rparr>)"

definition fill_resting ::
  "ExecutionSimulator \<Rightarrow> MarketTick \<Rightarrow> i32 \<Rightarrow> (ExecutionReport \<times> ExecutionSimulator) option" where
  "fill_resting sim tick available_qty =
     (let ro = resting_order sim;
          fill_qty = (if rest_leaves_qty ro < available_qty then rest_leaves_qty ro else available_qty);
          was_partial = fill_qty < rest_leaves_qty ro
      in do {
        leaves \<leftarrow> sub32 (rest_leaves_qty ro) fill_qty;
        age \<leftarrow> sub64 (receive_ts_ns tick) (rest_submit_ts_ns ro);
        adverse_selection \<leftarrow> detect_adverse_selection sim tick;
        Some (\<lparr>rep_accepted = True, rep_has_fill = True, rep_was_partial = was_partial,
                rep_cancel_acked = False, rep_stale_quote = (age > stale_after_ns sim),
                rep_adverse_selection = adverse_selection,
                rep_fill = \<lparr>f_ts_ns = receive_ts_ns tick, f_price = rest_price ro,
                             f_quantity = fill_qty, f_side = rest_side ro\<rparr>,
                rep_leaves_qty = leaves\<rparr>,
              sim\<lparr>resting_order := (if leaves = 0
                    then ro\<lparr>rest_leaves_qty := leaves, rest_active := False, rest_cancel_pending := False\<rparr>
                    else ro\<lparr>rest_leaves_qty := leaves\<rparr>),
                  stats := passive_stats (stats sim) was_partial (age > stale_after_ns sim) adverse_selection\<rparr>)
      })"

definition passive_fill_from_market ::
  "ExecutionSimulator \<Rightarrow> MarketTick \<Rightarrow> (ExecutionReport \<times> ExecutionSimulator) option" where
  "passive_fill_from_market sim tick =
     (if \<not> is_marketable sim tick
      then Some (plain_report True (rest_leaves_qty (resting_order sim)), sim)
      else do {
        (queue_ahead, available_qty) \<leftarrow> consume_queue (resting_order sim) (visible_opposite_qty sim tick);
        let sim = sim\<lparr>resting_order := (resting_order sim)\<lparr>rest_queue_ahead_qty := queue_ahead\<rparr>\<rparr>;
        (if available_qty \<le> 0
         then Some (plain_report True (rest_leaves_qty (resting_order sim)), sim)
         else fill_resting sim tick available_qty)
      })"

definition submit_order ::
  "ExecutionSimulator \<Rightarrow> MarketTick \<Rightarrow> OrderRequest \<Rightarrow> ExecutionStyle \<Rightarrow>
     (ExecutionReport \<times> ExecutionSimulator) option" where
  "submit_order sim tick request style =
     (if req_quantity request \<le> 0 then Some (plain_report False 0, sim)
      else if style = Aggressive then aggressive_fill sim tick request
      else if rest_active (resting_order sim)
      then Some (plain_report False (rest_leaves_qty (resting_order sim)), sim)
      else let ro = \<lparr>rest_active = True, rest_side = req_side request, rest_price = req_limit_price request,
                 rest_leaves_qty = req_quantity request,
                 rest_queue_ahead_qty = (if req_side request = Buy then bid_qty tick else ask_qty tick),
                 rest_submit_ts_ns = receive_ts_ns tick, rest_cancel_pending = False,
                 rest_cancel_effective_ts_ns = 0\<rparr>
           in Some (plain_report True (rest_leaves_qty ro), sim\<lparr>resting_order := ro\<rparr>))"

definition sim_on_tick ::
  "ExecutionSimulator \<Rightarrow> MarketTick \<Rightarrow> (ExecutionReport \<times> ExecutionSimulator) option" where
  "sim_on_tick sim tick =
     (if \<not> rest_active (resting_order sim) then Some (plain_report True 0, sim)
      else do {
        (fill_report, sim) \<leftarrow> passive_fill_from_market sim tick;
        (if rep_has_fill fill_report then Some (fill_report, sim)
         else let ro = resting_order sim
              in if rest_active ro \<and> rest_cancel_pending ro \<and>
                    receive_ts_ns tick \<ge> rest_cancel_effective_ts_ns ro
                 then Some ((plain_report True 0)\<lparr>rep_cancel_acked := True\<rparr>,
                        sim\<lparr>resting_order := ro\<lparr>rest_active := False, rest_cancel_pending := False\<rparr>,
                            stats := (stats sim)\<lparr>cancel_ack_count := cancel_ack_count (stats sim) + 1\<rparr>\<rparr>)
                 else Some (plain_report True (if rest_active ro then rest_leaves_qty ro else 0), sim))
      })"

definition sim_request_cancel :: "ExecutionSimulator \<Rightarrow> TimestampNs \<Rightarrow> (bool \<times> ExecutionSimulator) option" where
  "sim_request_cancel sim ts_ns =
     (let ro = resting_order sim
      in if \<not> rest_active ro \<or> rest_cancel_pending ro then Some (False, sim)
         else do {
           effective \<leftarrow> add64 ts_ns (cancel_latency_ns sim);
           Some (True, sim\<lparr>resting_order := ro\<lparr>rest_cancel_pending := True,
                    rest_cancel_effective_ts_ns := effective\<rparr>,
                  stats := (stats sim)\<lparr>cancel_request_count := cancel_request_count (stats sim) + 1\<rparr>\<rparr>)
         })"

section \<open>Specification\<close>

text \<open>An active resting order has quantity left; an inactive one has no cancel pending.\<close>

definition sim_inv :: "ExecutionSimulator \<Rightarrow> bool" where
  "sim_inv sim \<longleftrightarrow> (let ro = resting_order sim in
     (rest_active ro \<longrightarrow> 0 < rest_leaves_qty ro) \<and> (\<not> rest_active ro \<longrightarrow> \<not> rest_cancel_pending ro))"

text \<open>What a resting order may take from a tick: the displayed quantity beyond its queue.\<close>

definition passive_take :: "RestingOrder \<Rightarrow> int \<Rightarrow> int" where
  "passive_take ro visible = min (rest_leaves_qty ro) (max 0 (visible - max 0 (rest_queue_ahead_qty ro)))"

text \<open>
  The report and the successor state of a fill of \<open>q\<close> of the resting order. Statistics
  apart, they are determined by the order, the tick and \<open>q\<close>.
\<close>

definition rest_filled :: "ExecutionSimulator \<Rightarrow> MarketTick \<Rightarrow> int \<Rightarrow> ExecutionReport \<Rightarrow> ExecutionSimulator \<Rightarrow> bool" where
  "rest_filled sim tick q rep sim' \<longleftrightarrow> (let ro = resting_order sim; ro' = resting_order sim' in
     rep_has_fill rep \<and> \<not> rep_cancel_acked rep \<and>
     rep_fill rep = \<lparr>f_ts_ns = receive_ts_ns tick, f_price = rest_price ro, f_quantity = q, f_side = rest_side ro\<rparr> \<and>
     rep_leaves_qty rep = rest_leaves_qty ro - q \<and> rest_leaves_qty ro' = rest_leaves_qty ro - q \<and>
     rest_active ro' = (rest_active ro \<and> q \<noteq> rest_leaves_qty ro) \<and>
     rest_cancel_pending ro' = (rest_cancel_pending ro \<and> q \<noteq> rest_leaves_qty ro))"

definition rest_same :: "ExecutionSimulator \<Rightarrow> ExecutionReport \<Rightarrow> ExecutionSimulator \<Rightarrow> bool" where
  "rest_same sim rep sim' \<longleftrightarrow> (let ro = resting_order sim; ro' = resting_order sim' in
     rep = plain_report True (rest_leaves_qty ro) \<and> stats sim' = stats sim \<and>
     rest_leaves_qty ro' = rest_leaves_qty ro \<and> rest_active ro' = rest_active ro \<and>
     rest_cancel_pending ro' = rest_cancel_pending ro)"

text \<open>Everything a tick never changes of a simulator that keeps its resting order.\<close>

definition rest_frame :: "ExecutionSimulator \<Rightarrow> ExecutionSimulator \<Rightarrow> bool" where
  "rest_frame sim sim' \<longleftrightarrow> (let ro = resting_order sim; ro' = resting_order sim' in
     rest_side ro' = rest_side ro \<and> rest_price ro' = rest_price ro \<and>
     rest_submit_ts_ns ro' = rest_submit_ts_ns ro \<and>
     rest_cancel_effective_ts_ns ro' = rest_cancel_effective_ts_ns ro \<and>
     cancel_latency_ns sim' = cancel_latency_ns sim \<and> stale_after_ns sim' = stale_after_ns sim \<and>
     adverse_move_threshold sim' = adverse_move_threshold sim)"

lemmas sim_spec_defs = rest_filled_def rest_same_def rest_frame_def Let_def

text \<open>
  Bounds under which a tick cannot overflow: timestamps up to \<open>T\<close> in absolute value and
  prices between zero and \<open>P\<close>, non-negative displayed quantities.
\<close>

definition tick_bounded :: "int \<Rightarrow> int \<Rightarrow> MarketTick \<Rightarrow> bool" where
  "tick_bounded T P t \<longleftrightarrow> \<bar>receive_ts_ns t\<bar> \<le> T \<and> 0 \<le> bid_price t \<and> bid_price t \<le> P \<and>
     0 \<le> ask_price t \<and> ask_price t \<le> P \<and>
     0 \<le> bid_qty t \<and> bid_qty t \<le> INT32_MAX \<and> 0 \<le> ask_qty t \<and> ask_qty t \<le> INT32_MAX"

definition sim_bounded :: "int \<Rightarrow> ExecutionSimulator \<Rightarrow> bool" where
  "sim_bounded T sim \<longleftrightarrow> (let ro = resting_order sim in
     in_i32 (rest_leaves_qty ro) \<and> in_i32 (rest_queue_ahead_qty ro) \<and> \<bar>rest_submit_ts_ns ro\<bar> \<le> T)"

section \<open>Single operations\<close>

lemma plain_report_sel [simp]:
  "rep_accepted (plain_report b l) = b" "\<not> rep_has_fill (plain_report b l)" "\<not> rep_was_partial (plain_report b l)"
  "\<not> rep_cancel_acked (plain_report b l)" "\<not> rep_stale_quote (plain_report b l)"
  "\<not> rep_adverse_selection (plain_report b l)" "rep_leaves_qty (plain_report b l) = l"
  "rep_fill (plain_report b l) = empty_fill"
  by (simp_all add: plain_report_def)

lemma consume_queue_post:
  "post (consume_queue ro v) (\<lambda>(queue, avail). max 0 avail = max 0 (v - max 0 (rest_queue_ahead_qty ro)) \<and>
     (0 \<le> v \<longrightarrow> max 0 queue = max 0 (rest_queue_ahead_qty ro - v)))"
  by (auto simp: consume_queue_def wp checked_defs Let_def max_def)

lemma fill_resting_post:
  assumes "0 < avail"
  shows "post (fill_resting sim tick avail) (\<lambda>(rep, sim'). rest_frame sim sim' \<and>
    rest_queue_ahead_qty (resting_order sim') = rest_queue_ahead_qty (resting_order sim) \<and>
    rest_filled sim tick (min (rest_leaves_qty (resting_order sim)) avail) rep sim')"
  by (cases "rest_leaves_qty (resting_order sim) < avail")
    (simp_all add: fill_resting_def wp checked_defs sim_spec_defs detect_adverse_selection_def min_def)

lemma queue_update_spec:
  "rest_filled (sim\<lparr>resting_order := (resting_order sim)\<lparr>rest_queue_ahead_qty := k\<rparr>\<rparr>) tick q rep sim' =
     rest_filled sim tick q rep sim'"
  "rest_frame (sim\<lparr>resting_order := (resting_order sim)\<lparr>rest_queue_ahead_qty := k\<rparr>\<rparr>) sim' = rest_frame sim sim'"
  by (simp_all add: rest_filled_def rest_frame_def Let_def)

lemma passive_fill_post:
  fixes sim :: ExecutionSimulator and tick :: MarketTick
  assumes "0 < rest_leaves_qty (resting_order sim)"
  defines "q \<equiv> passive_take (resting_order sim) (visible_opposite_qty sim tick)"
  shows "post (passive_fill_from_market sim tick) (\<lambda>(rep, sim'). rest_frame sim sim' \<and>
    (if is_marketable sim tick \<and> 0 < q then rest_filled sim tick q rep sim' else rest_same sim rep sim'))"
proof (cases "is_marketable sim tick")
  case False
  then show ?thesis by (simp add: passive_fill_from_market_def sim_spec_defs)
next
  case True
  let ?v = "visible_opposite_qty sim tick"
  have body: "post (if avail \<le> 0 then Some (plain_report True (rest_leaves_qty (resting_order sim)), sim1)
              else fill_resting sim1 tick avail)
      (\<lambda>(rep, sim'). rest_frame sim sim' \<and> (if 0 < q then rest_filled sim tick q rep sim' else rest_same sim rep sim'))"
    if avail: "max 0 avail = max 0 (?v - max 0 (rest_queue_ahead_qty (resting_order sim)))"
      and sim1: "sim1 = sim\<lparr>resting_order := (resting_order sim)\<lparr>rest_queue_ahead_qty := queue\<rparr>\<rparr>"
    for avail queue sim1
  proof (cases "avail \<le> 0")
    case True
    then have "q = 0" using avail assms by (simp add: q_def passive_take_def max_def split: if_splits)
    with True show ?thesis by (simp add: sim1 sim_spec_defs)
  next
    case False
    then have "q = min (rest_leaves_qty (resting_order sim)) avail"
      using avail by (simp add: q_def passive_take_def)
    moreover have "0 < q" using calculation False assms(1) by simp
    moreover have "post (fill_resting sim1 tick avail) (\<lambda>(rep, sim'). rest_frame sim1 sim' \<and>
        rest_filled sim1 tick (min (rest_leaves_qty (resting_order sim1)) avail) rep sim')"
      using False by (intro post_mono [OF fill_resting_post]) auto
    ultimately show ?thesis
      using False by (simp add: sim1 queue_update_spec)
  qed
  have "post (consume_queue (resting_order sim) ?v) (\<lambda>(queue, avail).
      post (if avail \<le> 0 then Some (plain_report True (rest_leaves_qty (resting_order sim)),
                sim\<lparr>resting_order := (resting_order sim)\<lparr>rest_queue_ahead_qty := queue\<rparr>\<rparr>)
            else fill_resting (sim\<lparr>resting_order := (resting_order sim)\<lparr>rest_queue_ahead_qty := queue\<rparr>\<rparr>) tick avail)
      (\<lambda>(rep, sim'). rest_frame sim sim' \<and> (if 0 < q then rest_filled sim tick q rep sim' else rest_same sim rep sim')))"
    by (rule post_mono [OF consume_queue_post], clarify, rule body [OF _ refl])
  with True show ?thesis
    by (simp add: passive_fill_from_market_def post_bind post_prod Let_def split del: if_split cong: if_cong)
qed

lemma passive_take_bounds:
  "0 < rest_leaves_qty ro \<Longrightarrow> 0 \<le> passive_take ro v \<and> passive_take ro v \<le> rest_leaves_qty ro"
  by (simp add: passive_take_def)

definition cancel_due :: "ExecutionSimulator \<Rightarrow> MarketTick \<Rightarrow> bool" where
  "cancel_due sim tick \<longleftrightarrow> rest_cancel_pending (resting_order sim) \<and>
     rest_cancel_effective_ts_ns (resting_order sim) \<le> receive_ts_ns tick"

lemma sim_on_tick_post:
  fixes sim :: ExecutionSimulator and tick :: MarketTick
  assumes "sim_inv sim" "rest_active (resting_order sim)"
  defines "q \<equiv> passive_take (resting_order sim) (visible_opposite_qty sim tick)"
  shows "post (sim_on_tick sim tick) (\<lambda>(rep, sim'). rest_frame sim sim' \<and>
    (if is_marketable sim tick \<and> 0 < q then rest_filled sim tick q rep sim'
     else if cancel_due sim tick
     then rep = (plain_report True 0)\<lparr>rep_cancel_acked := True\<rparr> \<and>
          \<not> rest_active (resting_order sim') \<and> \<not> rest_cancel_pending (resting_order sim')
     else rest_same sim rep sim'))"
proof -
  have "0 < rest_leaves_qty (resting_order sim)" using assms by (simp add: sim_inv_def Let_def)
  from passive_fill_post [OF this, of tick] show ?thesis
    unfolding sim_on_tick_def q_def [symmetric]
    using assms(2)
    by (auto simp: post_bind post_if cancel_due_def sim_spec_defs elim!: post_mono split: if_splits)
qed

lemma sim_request_cancel_post:
  "post (sim_request_cancel sim ts) (\<lambda>(b, sim'). rest_leaves_qty (resting_order sim') = rest_leaves_qty (resting_order sim) \<and>
     rest_active (resting_order sim') = rest_active (resting_order sim) \<and>
     rest_side (resting_order sim') = rest_side (resting_order sim) \<and>
     rest_price (resting_order sim') = rest_price (resting_order sim) \<and>
     rest_queue_ahead_qty (resting_order sim') = rest_queue_ahead_qty (resting_order sim) \<and>
     rest_submit_ts_ns (resting_order sim') = rest_submit_ts_ns (resting_order sim) \<and>
     (sim_inv sim \<longrightarrow> sim_inv sim') \<and> adverse_move_threshold sim' = adverse_move_threshold sim \<and>
     cancel_latency_ns sim' = cancel_latency_ns sim)"
  by (auto simp: sim_request_cancel_def Let_def wp checked_defs sim_inv_def)

lemma sim_inv_on_tick: "sim_inv sim \<Longrightarrow> post (sim_on_tick sim tick) (\<lambda>(rep, sim'). sim_inv sim')"
proof (cases "rest_active (resting_order sim)")
  case True
  assume inv: "sim_inv sim"
  note b = passive_take_bounds [of "resting_order sim" "visible_opposite_qty sim tick"]
  show ?thesis
    using inv True b
    by (intro post_mono [OF sim_on_tick_post [OF inv True]])
      (auto simp: sim_inv_def sim_spec_defs split: if_splits)
qed (simp add: sim_on_tick_def)

lemma sim_inv_submit_order: "sim_inv sim \<Longrightarrow> post (submit_order sim tick r style) (\<lambda>(rep, sim'). sim_inv sim')"
  by (auto simp: submit_order_def aggressive_fill_def Let_def sim_inv_def wp checked_defs)

lemma sim_inv_default [simp]: "sim_inv simulator_default"
  by (simp add: sim_inv_def simulator_default_def simulator_init_def)

lemma aggressive_fill_spec:
  fixes tick :: MarketTick and r :: OrderRequest
  assumes "0 < req_quantity r"
  defines "avail \<equiv> (if req_side r = Buy then ask_qty tick else bid_qty tick)"
  defines "q \<equiv> min avail (req_quantity r)"
  shows "post (submit_order sim tick r Aggressive) (\<lambda>(rep, sim').
    resting_order sim' = resting_order sim \<and> rep_accepted rep \<and> \<not> rep_cancel_acked rep \<and>
    rep_has_fill rep = (0 < q) \<and> rep_leaves_qty rep = req_quantity r - max 0 q \<and>
    (0 < q \<longrightarrow> rep_was_partial rep = (q < req_quantity r) \<and>
       rep_fill rep = \<lparr>f_ts_ns = receive_ts_ns tick, f_price = (if req_side r = Buy then ask_price tick else bid_price tick),
         f_quantity = q, f_side = req_side r\<rparr>))"
  using assms by (auto simp: submit_order_def aggressive_fill_def Let_def wp checked_defs min_def)

lemma passive_submit_spec:
  assumes "0 < req_quantity r" "\<not> rest_active (resting_order sim)"
  shows "submit_order sim tick r Passive = Some (plain_report True (req_quantity r),
    sim\<lparr>resting_order := \<lparr>rest_active = True, rest_side = req_side r, rest_price = req_limit_price r,
        rest_leaves_qty = req_quantity r,
        rest_queue_ahead_qty = (if req_side r = Buy then bid_qty tick else ask_qty tick),
        rest_submit_ts_ns = receive_ts_ns tick, rest_cancel_pending = False,
        rest_cancel_effective_ts_ns = 0\<rparr>\<rparr>)"
  using assms by (simp add: submit_order_def Let_def)

section \<open>Absence of overflow\<close>

lemma consume_queue_ok:
  assumes "in_i32 (rest_queue_ahead_qty ro)" "0 \<le> v" "v \<le> INT32_MAX"
  shows "ok (consume_queue ro v) (\<lambda>(queue, avail). in_i32 queue \<and> in_i32 avail)"
  using assms by (auto simp: consume_queue_def wp checked_defs Let_def in_i32_def)

lemma detect_adverse_selection_ok:
  assumes "tick_bounded T P tick" "\<bar>adverse_move_threshold sim\<bar> \<le> A" "2 * P + A \<le> INT64_MAX"
  shows "ok (detect_adverse_selection sim tick) (\<lambda>_. True)"
proof -
  let ?s = "bid_price tick + ask_price tick"
  have s: "\<bar>?s\<bar> \<le> 2 * P" using assms(1) by (simp add: tick_bounded_def)
  then have m: "\<bar>?s sdiv 2\<bar> \<le> 2 * P" using abs_sdiv_le [of ?s 2] by linarith
  have "2 * P \<le> INT64_MAX" using assms(2,3) by linarith
  then have "in_i64 ?s" "in_i64 (?s sdiv 2)" by (auto intro: in_i64_le [OF s] in_i64_le [OF m])
  moreover have "in_i64 (?s sdiv 2 + adverse_move_threshold sim)" "in_i64 (?s sdiv 2 - adverse_move_threshold sim)"
    using in_i64_add [OF m assms(2,3)] in_i64_diff [OF m assms(2,3)] by auto
  ultimately show ?thesis by (simp add: detect_adverse_selection_def wp checked_defs)
qed

lemma fill_resting_ok:
  assumes "sim_bounded T sim" "0 < rest_leaves_qty (resting_order sim)" "0 < avail" "tick_bounded T P tick"
    and "\<bar>adverse_move_threshold sim\<bar> \<le> A" "2 * P + A \<le> INT64_MAX" "2 * T \<le> INT64_MAX"
  shows "ok (fill_resting sim tick avail) (\<lambda>(rep, sim'). sim_bounded T sim')"
proof -
  let ?ro = "resting_order sim"
  obtain adv where adv: "detect_adverse_selection sim tick = Some adv"
    using detect_adverse_selection_ok [OF assms(4-6)] by (auto simp: ok_iff)
  have "in_i64 (receive_ts_ns tick - rest_submit_ts_ns ?ro)"
    using assms(1,4,7) by (intro in_i64_diff [of _ T _ T]) (auto simp: tick_bounded_def sim_bounded_def Let_def)
  moreover have "\<not> rest_leaves_qty ?ro < avail \<longrightarrow> in_i32 (rest_leaves_qty ?ro - avail)"
    using assms(1-3) by (auto simp: sim_bounded_def Let_def in_i32_def)
  ultimately show ?thesis
    using assms(1) by (cases "rest_leaves_qty ?ro < avail")
      (simp_all add: fill_resting_def wp checked_defs adv sim_bounded_def Let_def)
qed

lemma sim_on_tick_ok:
  assumes "sim_inv sim" "sim_bounded T sim" "tick_bounded T P tick"
    and "\<bar>adverse_move_threshold sim\<bar> \<le> A" "2 * P + A \<le> INT64_MAX" "2 * T \<le> INT64_MAX"
  shows "ok (sim_on_tick sim tick) (\<lambda>(rep, sim'). sim_bounded T sim')"
proof -
  let ?v = "visible_opposite_qty sim tick"
  have queue: "ok (consume_queue (resting_order sim) ?v) (\<lambda>(queue, avail). in_i32 queue \<and> in_i32 avail)"
    using assms(2,3) by (intro consume_queue_ok)
      (auto simp: sim_bounded_def tick_bounded_def visible_opposite_qty_def Let_def)
  have "ok (passive_fill_from_market sim tick) (\<lambda>(rep, sim'). sim_bounded T sim')"
    if active: "rest_active (resting_order sim)"
  proof (cases "is_marketable sim tick")
    case True
    have body: "ok (if avail \<le> 0 then Some (plain_report True l, sim1) else fill_resting sim1 tick avail)
        (\<lambda>(rep, sim'). sim_bounded T sim')"
      if "in_i32 queue" and sim1: "sim1 = sim\<lparr>resting_order := (resting_order sim)\<lparr>rest_queue_ahead_qty := queue\<rparr>\<rparr>"
      for queue avail l sim1
      using that assms active fill_resting_ok [of T sim1 avail P tick A]
      by (auto simp: sim_inv_def sim_bounded_def Let_def)
    show ?thesis
      using True queue unfolding passive_fill_from_market_def
      by (auto simp only: ok_bind ok_prod Let_def not_True_eq_False if_False elim!: ok_mono intro: body [OF _ refl])
  qed (use assms(2) in \<open>simp add: passive_fill_from_market_def\<close>)
  then show ?thesis
    using assms(2)
    by (auto simp: sim_on_tick_def ok_bind ok_prod ok_if Let_def sim_bounded_def elim!: ok_mono)
qed

lemma sim_request_cancel_ok:
  assumes "sim_bounded T sim" "\<bar>ts\<bar> \<le> T" "\<bar>cancel_latency_ns sim\<bar> \<le> L" "T + L \<le> INT64_MAX"
  shows "ok (sim_request_cancel sim ts) (\<lambda>(b, sim'). sim_bounded T sim')"
  using assms in_i64_add [OF assms(2-4)]
  by (auto simp: sim_request_cancel_def Let_def wp checked_defs sim_bounded_def)

lemma submit_order_ok:
  assumes "sim_bounded T sim" "tick_bounded T P tick" "in_i32 (req_quantity r)"
  shows "ok (submit_order sim tick r style) (\<lambda>(rep, sim'). sim_bounded T sim')"
  using assms
  by (auto simp: submit_order_def aggressive_fill_def Let_def wp checked_defs sim_bounded_def tick_bounded_def in_i32_def)

section \<open>Properties\<close>

text \<open>
  C6. Queue priority: on each tick a resting order trades exactly
  the displayed opposite quantity beyond the queue ahead of it, capped by what it has
  left, only when the market reaches its limit, and always at its limit price; a fill
  takes precedence over a cancel that is due on the same tick.
\<close>

theorem passive_fill_exact:
  fixes sim :: ExecutionSimulator and tick :: MarketTick
  assumes "sim_inv sim" and "rest_active (resting_order sim)" and "sim_on_tick sim tick = Some (rep, sim')"
  defines "ro \<equiv> resting_order sim"
  defines "q \<equiv> (if is_marketable sim tick then passive_take ro (visible_opposite_qty sim tick) else 0)"
  shows "f_quantity (rep_fill rep) = q \<and> rep_has_fill rep = (0 < q) \<and>
    (0 < q \<longrightarrow> f_price (rep_fill rep) = rest_price ro \<and> f_side (rep_fill rep) = rest_side ro \<and>
       \<not> rep_cancel_acked rep \<and> rep_leaves_qty rep = rest_leaves_qty ro - q) \<and>
    (rep_cancel_acked rep = (q = 0 \<and> cancel_due sim tick)) \<and>
    rest_active (resting_order sim') = (q < rest_leaves_qty ro \<and> \<not> rep_cancel_acked rep)"
proof -
  have pos: "0 < rest_leaves_qty ro" using assms(1,2) by (simp add: sim_inv_def Let_def ro_def)
  have bounds: "0 \<le> q" "q \<le> rest_leaves_qty ro"
    using passive_take_bounds [OF pos] pos by (simp_all add: q_def)
  show ?thesis
    using postD [OF sim_on_tick_post [OF assms(1,2)] assms(3)] assms(2) bounds pos
    by (cases "is_marketable sim tick \<and> 0 < q")
      (auto simp: sim_spec_defs q_def ro_def split: if_splits)
qed

definition sample_tick :: "int \<Rightarrow> int \<Rightarrow> int \<Rightarrow> int \<Rightarrow> int \<Rightarrow> MarketTick" where
  "sample_tick ts bid ask bq aq = \<lparr>exchange_ts_ns = ts, receive_ts_ns = ts, bid_price = bid, ask_price = ask,
     symbol_id = 1, bid_qty = bq, ask_qty = aq\<rparr>"

definition sample_resting :: ExecutionSimulator where
  "sample_resting = snd (the (submit_order simulator_default (sample_tick 1000 99900 100000 10 50)
     \<lparr>req_side = Buy, req_quantity = 50, req_limit_price = 99900\<rparr> Passive))"

theorem passive_fill_exact_witness:
  "\<exists>rep sim'. sim_on_tick sample_resting (sample_tick 2000 99800 99900 5 30) = Some (rep, sim') \<and>
     f_quantity (rep_fill rep) = 20 \<and> f_price (rep_fill rep) = 99900 \<and> rest_active (resting_order sim')"
proof -
  have inv: "sim_inv sample_resting" "rest_active (resting_order sample_resting)"
    unfolding sample_resting_def by code_simp+
  have "ok (sim_on_tick sample_resting (sample_tick 2000 99800 99900 5 30)) (\<lambda>_. True)"
    unfolding sample_resting_def by code_simp
  then obtain rep sim' where r: "sim_on_tick sample_resting (sample_tick 2000 99800 99900 5 30) = Some (rep, sim')"
    by (auto simp: ok_iff)
  have "is_marketable sample_resting (sample_tick 2000 99800 99900 5 30)"
      "passive_take (resting_order sample_resting)
         (visible_opposite_qty sample_resting (sample_tick 2000 99800 99900 5 30)) = 20"
      "rest_price (resting_order sample_resting) = 99900" "rest_leaves_qty (resting_order sample_resting) = 50"
    unfolding sample_resting_def by code_simp+
  then show ?thesis using passive_fill_exact [OF inv r] r by auto
qed

text \<open>
  C21. Aggressive orders are immediate-or-cancel: they trade the smaller of the order and the
  displayed opposite quantity at the opposite best price, never rest, and report what is
  left to the caller.
\<close>

theorem aggressive_fill_exact:
  fixes tick :: MarketTick and r :: OrderRequest
  assumes "0 < req_quantity r" and "submit_order sim tick r Aggressive = Some (rep, sim')"
  defines "avail \<equiv> (if req_side r = Buy then ask_qty tick else bid_qty tick)"
  defines "q \<equiv> max 0 (min avail (req_quantity r))"
  shows "rep_accepted rep \<and> f_quantity (rep_fill rep) = (if rep_has_fill rep then q else f_quantity empty_fill) \<and>
    rep_has_fill rep = (0 < q) \<and> rep_leaves_qty rep = req_quantity r - q \<and>
    (0 < q \<longrightarrow> f_price (rep_fill rep) = (if req_side r = Buy then ask_price tick else bid_price tick) \<and>
       f_side (rep_fill rep) = req_side r \<and> rep_was_partial rep = (q < req_quantity r)) \<and>
    resting_order sim' = resting_order sim"
  using assms(1,2)
  by (auto simp: submit_order_def aggressive_fill_def Let_def avail_def q_def Option.bind_eq_Some_conv checked_defs
      min_def max_def split: if_splits)

theorem aggressive_fill_exact_witness:
  "\<exists>rep sim'. submit_order simulator_default (sample_tick 2000 99700 100100 50 20)
       \<lparr>req_side = Buy, req_quantity = 50, req_limit_price = 0\<rparr> Aggressive = Some (rep, sim') \<and>
     f_quantity (rep_fill rep) = 20 \<and> f_price (rep_fill rep) = 100100 \<and> rep_leaves_qty rep = 30"
proof -
  let ?t = "sample_tick 2000 99700 100100 50 20"
  let ?r = "\<lparr>req_side = Buy, req_quantity = 50, req_limit_price = 0\<rparr>"
  have "ok (submit_order simulator_default ?t ?r Aggressive) (\<lambda>_. True)" by code_simp
  then obtain rep sim' where e: "submit_order simulator_default ?t ?r Aggressive = Some (rep, sim')"
    by (auto simp: ok_iff)
  have q: "0 < req_quantity ?r" by simp
  show ?thesis using aggressive_fill_exact [OF q e] e by (auto simp: sample_tick_def)
qed

end
