(* ===== verification/Mock_Venue_Gateway.thy ===== *)
theory Mock_Venue_Gateway
  imports Order_Manager Execution_Simulator
begin

text \<open>
  The in-process venue of \<^verbatim>\<open>include/mock_venue_gateway.h\<close> and
  \<^verbatim>\<open>src/mock_venue_gateway.cpp\<close>: at most one pending or active order, acknowledgement
  and cancel latencies, and a batch of venue events per tick. The batch's fixed array of
  four events with its count is the list of the events below the count; the overflow
  count is kept beside it. Venue order ids are a sequence starting at 100000 and, like
  the statistics counters, are not width-checked.
\<close>

section \<open>State\<close>

record GatewayNewOrder =
  gn_client_order_id :: i64
  gn_side :: Side
  gn_quantity :: i32
  gn_limit_price :: Price
  gn_style :: ExecutionStyle
  gn_submit_ts_ns :: TimestampNs

record VenueEventBatch =
  batch_events :: "VenueEvent list"
  batch_overflow_count :: nat

record PendingNew =
  pend_active :: bool
  pend_request :: GatewayNewOrder
  pend_ack_ready_ts_ns :: TimestampNs
  pend_should_reject :: bool

record ActiveOrder =
  act_active :: bool
  act_client_order_id :: i64
  act_venue_order_id :: i64
  act_side :: Side
  act_limit_price :: Price
  act_leaves_qty :: i32
  act_cancel_sent :: bool
  act_cancel_send_ts_ns :: TimestampNs
  act_cancel_reject_once_done :: bool

record MockVenueGateway =
  new_ack_latency_ns :: TimestampNs
  cancel_send_latency_ns :: TimestampNs
  next_venue_order_id :: i64
  pending_new :: PendingNew
  active_order :: ActiveOrder
  execution :: ExecutionSimulator

definition gateway_init :: "TimestampNs \<Rightarrow> TimestampNs \<Rightarrow> MockVenueGateway" where
  "gateway_init new_ack_latency cancel_send_latency =
     \<lparr>new_ack_latency_ns = new_ack_latency, cancel_send_latency_ns = cancel_send_latency,
      next_venue_order_id = 100000,
      pending_new = \<lparr>pend_active = False,
        pend_request = \<lparr>gn_client_order_id = 0, gn_side = Buy, gn_quantity = 0, gn_limit_price = 0,
          gn_style = Aggressive, gn_submit_ts_ns = 0\<rparr>,
        pend_ack_ready_ts_ns = 0, pend_should_reject = False\<rparr>,
      active_order = \<lparr>act_active = False, act_client_order_id = 0, act_venue_order_id = 0, act_side = Buy,
        act_limit_price = 0, act_leaves_qty = 0, act_cancel_sent = False, act_cancel_send_ts_ns = 0,
        act_cancel_reject_once_done = False\<rparr>,
      execution = simulator_default\<rparr>"

definition gateway_default :: MockVenueGateway where
  "gateway_default = gateway_init 200 200"

section \<open>Operations\<close>

definition empty_batch :: VenueEventBatch where
  "empty_batch = \<lparr>batch_events = [], batch_overflow_count = 0\<rparr>"

definition push_event :: "VenueEventBatch \<Rightarrow> VenueEvent \<Rightarrow> VenueEventBatch" where
  "push_event batch event =
     (if length (batch_events batch) \<ge> 4
      then batch\<lparr>batch_overflow_count := batch_overflow_count batch + 1\<rparr>
      else batch\<lparr>batch_events := batch_events batch @ [event]\<rparr>)"

definition venue_event :: "VenueEventType \<Rightarrow> TimestampNs \<Rightarrow> i64 \<Rightarrow> i32 \<Rightarrow> Price \<Rightarrow> VenueEvent" where
  "venue_event type ts_ns venue_order_id fill_qty fill_price =
     \<lparr>ev_type = type, ev_ts_ns = ts_ns, ev_venue_order_id = venue_order_id,
      ev_fill_qty = fill_qty, ev_fill_price = fill_price\<rparr>"

definition send_new :: "MockVenueGateway \<Rightarrow> GatewayNewOrder \<Rightarrow> (bool \<times> MockVenueGateway) option" where
  "send_new gw request =
     (if gn_quantity request \<le> 0 \<or> pend_active (pending_new gw) \<or> act_active (active_order gw)
      then Some (False, gw)
      else do {
        ready \<leftarrow> add64 (gn_submit_ts_ns request) (new_ack_latency_ns gw);
        Some (True, gw\<lparr>pending_new := \<lparr>pend_active = True, pend_request = request,
          pend_ack_ready_ts_ns = ready,
          pend_should_reject = (gn_client_order_id request smod 3 = 0)\<rparr>\<rparr>)
      })"

definition send_cancel :: "MockVenueGateway \<Rightarrow> TimestampNs \<Rightarrow> (bool \<times> MockVenueGateway) option" where
  "send_cancel gw request_ts_ns =
     (if \<not> act_active (active_order gw) \<or> act_cancel_sent (active_order gw) then Some (False, gw)
      else do {
        send_ts \<leftarrow> add64 request_ts_ns (cancel_send_latency_ns gw);
        Some (True, gw\<lparr>active_order := (active_order gw)\<lparr>act_cancel_sent := True,
          act_cancel_send_ts_ns := send_ts\<rparr>\<rparr>)
      })"

definition apply_execution_report ::
  "MockVenueGateway \<Rightarrow> VenueEventBatch \<Rightarrow> ExecutionReport \<Rightarrow> TimestampNs \<Rightarrow> VenueEventBatch" where
  "apply_execution_report gw batch report event_ts_ns =
     (let ao = active_order gw;
          batch = (if rep_has_fill report \<and> act_active ao
                   then push_event batch (venue_event EvFill event_ts_ns (act_venue_order_id ao)
                          (f_quantity (rep_fill report)) (f_price (rep_fill report)))
                   else batch)
      in if rep_cancel_acked report \<and> act_active ao
         then push_event batch (venue_event EvCancelAck event_ts_ns (act_venue_order_id ao) 0 0)
         else batch)"

definition close_active_order_if_done :: "MockVenueGateway \<Rightarrow> MockVenueGateway" where
  "close_active_order_if_done gw =
     (if \<not> act_active (active_order gw) then gw
      else if act_leaves_qty (active_order gw) = 0 \<and> \<not> has_resting_order (execution gw)
      then gw\<lparr>active_order := (active_order gw)\<lparr>act_active := False\<rparr>\<rparr>
      else gw)"

text \<open>
  \<open>gateway_on_tick\<close> in three steps with the source's two early returns: the pending
  order is rejected (return) or acknowledged and submitted (\<open>accept_pending\<close>), a sent
  cancel is rejected (return) or handed to the simulator (\<open>deliver_cancel\<close>), and the
  resting order meets the tick (\<open>advance_execution\<close>).
\<close>

definition active_from :: "GatewayNewOrder \<Rightarrow> i64 \<Rightarrow> ActiveOrder" where
  "active_from request venue_order_id =
     \<lparr>act_active = True, act_client_order_id = gn_client_order_id request,
      act_venue_order_id = venue_order_id, act_side = gn_side request,
      act_limit_price = gn_limit_price request, act_leaves_qty = gn_quantity request,
      act_cancel_sent = False, act_cancel_send_ts_ns = 0, act_cancel_reject_once_done = False\<rparr>"

text \<open>
  The rest of the acknowledgement branch, after the simulator's answer: the report is
  turned into events, what an aggressive order did not trade expires, and the order is
  closed when nothing is left of it.
\<close>

definition settle_submission ::
  "MockVenueGateway \<Rightarrow> MarketTick \<Rightarrow> VenueEventBatch \<Rightarrow> ExecutionReport \<Rightarrow> VenueEventBatch \<times> MockVenueGateway" where
  "settle_submission gw tick batch report =
     (let ao = (active_order gw)\<lparr>act_leaves_qty := rep_leaves_qty report\<rparr>;
          gw = gw\<lparr>active_order := ao\<rparr>;
          batch = apply_execution_report gw batch report (receive_ts_ns tick);
          expired = (gn_style (pend_request (pending_new gw)) = Aggressive \<and> act_leaves_qty ao > 0);
          batch = (if expired
                   then push_event batch (venue_event EvExpired (receive_ts_ns tick) (act_venue_order_id ao) 0 0)
                   else batch);
          gw = (if expired then gw\<lparr>active_order := ao\<lparr>act_leaves_qty := 0\<rparr>\<rparr> else gw);
          gw = gw\<lparr>pending_new := (pending_new gw)\<lparr>pend_active := False\<rparr>\<rparr>
      in (batch, close_active_order_if_done gw))"

definition accept_pending ::
  "MockVenueGateway \<Rightarrow> MarketTick \<Rightarrow> VenueEventBatch \<Rightarrow> (VenueEventBatch \<times> MockVenueGateway) option" where
  "accept_pending gw tick batch = do {
     let request = pend_request (pending_new gw);
     let venue_order_id = next_venue_order_id gw;
     let gw = gw\<lparr>next_venue_order_id := venue_order_id + 1, active_order := active_from request venue_order_id\<rparr>;
     let batch = push_event batch (venue_event EvNewAck (receive_ts_ns tick) venue_order_id 0 0);
     (report, sim) \<leftarrow> submit_order (execution gw) tick
       \<lparr>req_side = gn_side request, req_quantity = gn_quantity request,
        req_limit_price = gn_limit_price request\<rparr> (gn_style request);
     Some (settle_submission (gw\<lparr>execution := sim\<rparr>) tick batch report)
   }"

definition deliver_cancel ::
  "MockVenueGateway \<Rightarrow> MarketTick \<Rightarrow> VenueEventBatch \<Rightarrow> (bool \<times> VenueEventBatch \<times> MockVenueGateway) option" where
  "deliver_cancel gw tick batch =
     (let ao = active_order gw
      in if act_active ao \<and> act_cancel_sent ao \<and> receive_ts_ns tick \<ge> act_cancel_send_ts_ns ao
         then if \<not> act_cancel_reject_once_done ao \<and> act_venue_order_id ao smod 2 = 1
              then Some (True,
                push_event batch (venue_event EvCancelReject (receive_ts_ns tick) (act_venue_order_id ao) 0 0),
                gw\<lparr>active_order := ao\<lparr>act_cancel_sent := False, act_cancel_reject_once_done := True\<rparr>\<rparr>)
              else do {
                (_, sim) \<leftarrow> sim_request_cancel (execution gw) (receive_ts_ns tick);
                Some (False, batch, gw\<lparr>execution := sim, active_order := ao\<lparr>act_cancel_sent := False\<rparr>\<rparr>)
              }
         else Some (False, batch, gw))"

definition advance_execution ::
  "MockVenueGateway \<Rightarrow> MarketTick \<Rightarrow> VenueEventBatch \<Rightarrow> (VenueEventBatch \<times> MockVenueGateway) option" where
  "advance_execution gw tick batch =
     (if act_active (active_order gw) \<or> has_resting_order (execution gw)
      then do {
        (report, sim) \<leftarrow> sim_on_tick (execution gw) tick;
        let gw = gw\<lparr>execution := sim,
                    active_order := (active_order gw)\<lparr>act_leaves_qty := rep_leaves_qty report\<rparr>\<rparr>;
        Some (apply_execution_report gw batch report (receive_ts_ns tick), close_active_order_if_done gw)
      }
      else Some (batch, gw))"

definition gateway_on_tick ::
  "MockVenueGateway \<Rightarrow> MarketTick \<Rightarrow> (VenueEventBatch \<times> MockVenueGateway) option" where
  "gateway_on_tick gw tick =
     (let batch = empty_batch; pending = pending_new gw;
          due = (pend_active pending \<and> receive_ts_ns tick \<ge> pend_ack_ready_ts_ns pending)
      in if due \<and> pend_should_reject pending
         then Some (push_event batch (venue_event EvNewReject (receive_ts_ns tick) 0 0 0),
                gw\<lparr>pending_new := pending\<lparr>pend_active := False\<rparr>\<rparr>)
         else do {
           (batch, gw) \<leftarrow> (if due then accept_pending gw tick batch else Some (batch, gw));
           (returned, batch, gw) \<leftarrow> deliver_cancel gw tick batch;
           (if returned then Some (batch, gw) else advance_execution gw tick batch)
         })"

definition submit_cancel_request ::
  "MockVenueGateway \<Rightarrow> ManagedOrder \<Rightarrow> TimestampNs \<Rightarrow> (bool \<times> MockVenueGateway \<times> ManagedOrder) option" where
  "submit_cancel_request gw od request_ts_ns =
     (if o_state od \<noteq> Acked \<and> o_state od \<noteq> PartiallyFilled then Some (False, gw, od)
      else do {
        (sent, gw) \<leftarrow> send_cancel gw request_ts_ns;
        (if \<not> sent then Some (False, gw, od)
         else case oms_request_cancel od of (requested, od) \<Rightarrow> Some (requested, gw, od))
      })"

section \<open>Specification: the venue protocol\<close>

text \<open>
  What the gateway holds, as its client can know it: nothing, a submitted order, or an
  open order with its id, side and remaining quantity.
\<close>

datatype venue_view = VNone | VPending i64 Side int | VOpen i64 Side int

definition gw_view :: "MockVenueGateway \<Rightarrow> venue_view" where
  "gw_view gw =
     (if pend_active (pending_new gw)
      then VPending (gn_client_order_id (pend_request (pending_new gw)))
             (gn_side (pend_request (pending_new gw))) (gn_quantity (pend_request (pending_new gw)))
      else if act_active (active_order gw)
      then VOpen (act_venue_order_id (active_order gw)) (act_side (active_order gw))
             (act_leaves_qty (active_order gw))
      else VNone)"

text \<open>The event protocol: which event may follow in which view, per execution style.\<close>

inductive view_step :: "ExecutionStyle \<Rightarrow> venue_view \<Rightarrow> VenueEvent \<Rightarrow> venue_view \<Rightarrow> bool" where
  reject: "ev_type ev = EvNewReject \<Longrightarrow> view_step st (VPending c s q) ev VNone"
| ack: "ev_type ev = EvNewAck \<Longrightarrow> ev_venue_order_id ev = vid \<Longrightarrow> 0 < vid \<Longrightarrow>
    view_step st (VPending c s q) ev (VOpen vid s q)"
| fill: "ev_type ev = EvFill \<Longrightarrow> ev_venue_order_id ev = vid \<Longrightarrow> ev_fill_qty ev = k \<Longrightarrow> 0 < k \<Longrightarrow> k < q \<Longrightarrow>
    view_step st (VOpen vid s q) ev (VOpen vid s (q - k))"
| finish: "ev_type ev = EvFill \<Longrightarrow> ev_venue_order_id ev = vid \<Longrightarrow> ev_fill_qty ev = q \<Longrightarrow> 0 < q \<Longrightarrow>
    view_step st (VOpen vid s q) ev VNone"
| expire: "ev_type ev = EvExpired \<Longrightarrow> ev_venue_order_id ev = vid \<Longrightarrow>
    view_step Aggressive (VOpen vid s q) ev VNone"
| cancel: "ev_type ev = EvCancelAck \<Longrightarrow> ev_venue_order_id ev = vid \<Longrightarrow>
    view_step Passive (VOpen vid s q) ev VNone"
| keep: "ev_type ev = EvCancelReject \<Longrightarrow> ev_venue_order_id ev = vid \<Longrightarrow>
    view_step Passive (VOpen vid s q) ev (VOpen vid s q)"

inductive_simps view_step_open: "view_step st (VOpen vid s q) ev v'"
inductive_simps view_step_pending: "view_step st (VPending c s q) ev v'"
inductive_simps view_step_none [simp]: "view_step st VNone ev v'"

inductive view_steps :: "ExecutionStyle \<Rightarrow> venue_view \<Rightarrow> VenueEvent list \<Rightarrow> venue_view \<Rightarrow> bool" where
  nil: "view_steps st v [] v"
| cons: "view_step st v ev v' \<Longrightarrow> view_steps st v' evs v'' \<Longrightarrow> view_steps st v (ev # evs) v''"

inductive_simps view_steps_Nil [simp]: "view_steps st v [] v'"
inductive_simps view_steps_Cons [simp]: "view_steps st v (ev # evs) v'"

definition gw_inv :: "MockVenueGateway \<Rightarrow> bool" where
  "gw_inv gw \<longleftrightarrow> (let p = pending_new gw; ao = active_order gw; ro = resting_order (execution gw) in
     sim_inv (execution gw) \<and> 0 < next_venue_order_id gw \<and>
     \<not> (pend_active p \<and> act_active ao) \<and> (pend_active p \<longrightarrow> 0 < gn_quantity (pend_request p)) \<and>
     act_active ao = rest_active ro \<and>
     (act_active ao \<longrightarrow> act_leaves_qty ao = rest_leaves_qty ro \<and> act_side ao = rest_side ro \<and>
        0 < act_venue_order_id ao))"

text \<open>All orders of a gateway have one execution style; only passive ones stay open.\<close>

definition gw_style :: "ExecutionStyle \<Rightarrow> MockVenueGateway \<Rightarrow> bool" where
  "gw_style st gw \<longleftrightarrow> (pend_active (pending_new gw) \<longrightarrow> gn_style (pend_request (pending_new gw)) = st) \<and>
     (act_active (active_order gw) \<longrightarrow> st = Passive)"

text \<open>How many journal events the replay loop can emit for a venue event.\<close>

definition event_cost :: "VenueEvent \<Rightarrow> nat" where
  "event_cost ev = (if ev_type ev \<in> {EvFill, EvNewReject, EvCancelReject} then 2 else 1)"

definition is_fill :: "VenueEvent \<Rightarrow> bool" where
  "is_fill ev \<longleftrightarrow> ev_type ev = EvFill"

section \<open>The steps of a tick\<close>

lemma empty_batch_sel [simp]: "batch_events empty_batch = []" "batch_overflow_count empty_batch = 0"
  by (simp_all add: empty_batch_def)

lemma push_event_room [simp]:
  "length (batch_events b) < 4 \<Longrightarrow> batch_events (push_event b e) = batch_events b @ [e]"
  "length (batch_events b) < 4 \<Longrightarrow> batch_overflow_count (push_event b e) = batch_overflow_count b"
  by (simp_all add: push_event_def)

lemma venue_event_sel [simp]:
  "ev_type (venue_event ty ts vid q px) = ty" "ev_ts_ns (venue_event ty ts vid q px) = ts"
  "ev_venue_order_id (venue_event ty ts vid q px) = vid" "ev_fill_qty (venue_event ty ts vid q px) = q"
  "ev_fill_price (venue_event ty ts vid q px) = px"
  by (simp_all add: venue_event_def)

text \<open>What one tick may do, as seen by the consumer of the batch.\<close>

definition tick_result ::
  "ExecutionStyle \<Rightarrow> venue_view \<Rightarrow> MarketTick \<Rightarrow> VenueEventBatch \<Rightarrow> MockVenueGateway \<Rightarrow> bool" where
  "tick_result st v tick b gw' \<longleftrightarrow> gw_inv gw' \<and> gw_style st gw' \<and> batch_overflow_count b = 0 \<and>
     view_steps st v (batch_events b) (gw_view gw') \<and>
     (\<forall>ev \<in> set (batch_events b). ev_ts_ns ev = receive_ts_ns tick) \<and>
     sum_list (map event_cost (batch_events b)) \<le> (if st = Aggressive then 4 else 3) \<and>
     length (filter is_fill (batch_events b)) \<le> 1 \<and> length (batch_events b) \<le> 3"

text \<open>
  The resting order meets the tick: nothing, one fill or one cancel acknowledgement is
  appended to the batch.
\<close>

definition advanced :: "MockVenueGateway \<Rightarrow> MarketTick \<Rightarrow> VenueEvent list \<Rightarrow> MockVenueGateway \<Rightarrow> bool" where
  "advanced gw tick evs gw' \<longleftrightarrow> (let vid = act_venue_order_id (active_order gw) in
     (evs = [] \<and> gw_view gw' = gw_view gw) \<or>
     (\<exists>q. evs = [venue_event EvFill (receive_ts_ns tick) vid q (rest_price (resting_order (execution gw)))] \<and> 0 < q \<and>
        q \<le> act_leaves_qty (active_order gw) \<and>
        gw_view gw' = (if q = act_leaves_qty (active_order gw) then VNone
          else VOpen vid (act_side (active_order gw)) (act_leaves_qty (active_order gw) - q))) \<or>
     (evs = [venue_event EvCancelAck (receive_ts_ns tick) vid 0 0] \<and> gw_view gw' = VNone))"

lemma advanced_fill:
  assumes "0 < q" "q \<le> act_leaves_qty (active_order gw)"
    "gw_view gw' = (if q = act_leaves_qty (active_order gw) then VNone else
       VOpen (act_venue_order_id (active_order gw)) (act_side (active_order gw)) (act_leaves_qty (active_order gw) - q))"
  shows "advanced gw tick [venue_event EvFill (receive_ts_ns tick) (act_venue_order_id (active_order gw)) q
    (rest_price (resting_order (execution gw)))] gw'"
  unfolding advanced_def Let_def using assms by blast

lemma close_done:
  assumes "act_active (active_order g)" "act_leaves_qty (active_order g) = 0" "\<not> rest_active (resting_order (execution g))"
  shows "close_active_order_if_done g = g\<lparr>active_order := (active_order g)\<lparr>act_active := False\<rparr>\<rparr>"
  using assms by (simp add: close_active_order_if_done_def has_resting_order_def)

lemma close_open: "act_leaves_qty (active_order g) \<noteq> 0 \<Longrightarrow> close_active_order_if_done g = g"
  by (simp add: close_active_order_if_done_def)

lemma report_fill:
  assumes "act_active (active_order g)" "rep_has_fill rep" "\<not> rep_cancel_acked rep"
  shows "apply_execution_report g b rep ts = push_event b (venue_event EvFill ts (act_venue_order_id (active_order g))
    (f_quantity (rep_fill rep)) (f_price (rep_fill rep)))"
  using assms by (simp add: apply_execution_report_def)

lemma report_cancel:
  assumes "act_active (active_order g)" "\<not> rep_has_fill rep" "rep_cancel_acked rep"
  shows "apply_execution_report g b rep ts = push_event b (venue_event EvCancelAck ts (act_venue_order_id (active_order g)) 0 0)"
  using assms by (simp add: apply_execution_report_def)

lemma report_plain:
  "\<not> rep_has_fill rep \<Longrightarrow> \<not> rep_cancel_acked rep \<Longrightarrow> apply_execution_report g b rep ts = b"
  by (simp add: apply_execution_report_def)

text \<open>The two ways an active order leaves a step: still open with a new quantity, or closed.\<close>

lemma keep_open:
  assumes inv: "gw_inv gw" and act: "act_active (active_order gw)"
    and "sim_inv sim'" "rest_active (resting_order sim')"
    "rest_leaves_qty (resting_order sim') = q" "rest_side (resting_order sim') = rest_side (resting_order (execution gw))"
  defines "g \<equiv> gw\<lparr>execution := sim', active_order := (active_order gw)\<lparr>act_leaves_qty := q\<rparr>\<rparr>"
  shows "close_active_order_if_done g = g \<and> gw_inv g \<and> pending_new g = pending_new gw \<and>
    gw_view g = VOpen (act_venue_order_id (active_order gw)) (act_side (active_order gw)) q"
proof -
  have "0 < q" using assms(3-5) by (simp add: sim_inv_def Let_def)
  then have "close_active_order_if_done g = g" by (simp add: close_open g_def)
  then show ?thesis using assms by (simp add: gw_inv_def gw_view_def Let_def)
qed

lemma close_order:
  assumes inv: "gw_inv gw" and act: "act_active (active_order gw)"
    and "sim_inv sim'" "\<not> rest_active (resting_order sim')"
  defines "g \<equiv> gw\<lparr>execution := sim', active_order := (active_order gw)\<lparr>act_leaves_qty := 0\<rparr>\<rparr>"
  shows "gw_inv (close_active_order_if_done g) \<and> pending_new (close_active_order_if_done g) = pending_new gw \<and>
    gw_view (close_active_order_if_done g) = VNone"
proof -
  have "close_active_order_if_done g = g\<lparr>active_order := (active_order g)\<lparr>act_active := False\<rparr>\<rparr>"
    using assms by (intro close_done) simp_all
  moreover have "\<not> pend_active (pending_new gw)" using inv act by (auto simp: gw_inv_def Let_def)
  ultimately show ?thesis using assms by (simp add: gw_inv_def gw_view_def Let_def)
qed

lemma advance_execution_eq:
  assumes "act_active (active_order gw)"
  shows "advance_execution gw tick b = Option.bind (sim_on_tick (execution gw) tick) (\<lambda>(rep, sim').
    let g = gw\<lparr>execution := sim', active_order := (active_order gw)\<lparr>act_leaves_qty := rep_leaves_qty rep\<rparr>\<rparr>
    in Some (apply_execution_report g b rep (receive_ts_ns tick), close_active_order_if_done g))"
  using assms by (simp add: advance_execution_def)

text \<open>What an order that is open when the execution is advanced may go through.\<close>

definition after_report ::
  "MockVenueGateway \<Rightarrow> MarketTick \<Rightarrow> VenueEventBatch \<Rightarrow> ExecutionReport \<Rightarrow> ExecutionSimulator \<Rightarrow> VenueEventBatch \<times> MockVenueGateway" where
  "after_report gw tick b rep sim' =
     (let g = gw\<lparr>execution := sim', active_order := (active_order gw)\<lparr>act_leaves_qty := rep_leaves_qty rep\<rparr>\<rparr>
      in (apply_execution_report g b rep (receive_ts_ns tick), close_active_order_if_done g))"

definition advance_spec :: "MockVenueGateway \<Rightarrow> MarketTick \<Rightarrow> VenueEventBatch \<Rightarrow> VenueEventBatch \<times> MockVenueGateway \<Rightarrow> bool" where
  "advance_spec gw tick b r \<longleftrightarrow> (case r of (b', gw') \<Rightarrow> gw_inv gw' \<and>
     pending_new gw' = pending_new gw \<and> batch_overflow_count b' = batch_overflow_count b \<and>
     (\<exists>evs. batch_events b' = batch_events b @ evs \<and> advanced gw tick evs gw'))"

lemma open_order_facts:
  assumes inv: "gw_inv gw" and act: "act_active (active_order gw)"
  shows "sim_inv (execution gw)" "rest_active (resting_order (execution gw))" "\<not> pend_active (pending_new gw)"
    "act_leaves_qty (active_order gw) = rest_leaves_qty (resting_order (execution gw))"
    "act_side (active_order gw) = rest_side (resting_order (execution gw))" "0 < rest_leaves_qty (resting_order (execution gw))"
    "gw_view gw = VOpen (act_venue_order_id (active_order gw)) (act_side (active_order gw))
       (rest_leaves_qty (resting_order (execution gw)))"
proof -
  show f: "sim_inv (execution gw)" "rest_active (resting_order (execution gw))" "\<not> pend_active (pending_new gw)"
    "act_leaves_qty (active_order gw) = rest_leaves_qty (resting_order (execution gw))"
    "act_side (active_order gw) = rest_side (resting_order (execution gw))"
    using inv act by (auto simp: gw_inv_def Let_def)
  then show "0 < rest_leaves_qty (resting_order (execution gw))" by (simp add: sim_inv_def Let_def)
  show "gw_view gw = VOpen (act_venue_order_id (active_order gw)) (act_side (active_order gw))
       (rest_leaves_qty (resting_order (execution gw)))"
    using act f by (simp add: gw_view_def)
qed

lemma after_fill:
  fixes tick gw
  defines "sim \<equiv> execution gw"
  defines "q \<equiv> passive_take (resting_order sim) (visible_opposite_qty sim tick)"
  assumes inv: "gw_inv gw" and act: "act_active (active_order gw)" and room: "length (batch_events b) < 4"
    and sim': "sim_inv sim'" "rest_side (resting_order sim') = rest_side (resting_order sim)"
    and fill: "0 < q" "rest_filled sim tick q rep sim'"
  shows "advance_spec gw tick b (after_report gw tick b rep sim')"
proof -
  let ?L = "rest_leaves_qty (resting_order sim)"
  let ?g = "gw\<lparr>execution := sim', active_order := (active_order gw)\<lparr>act_leaves_qty := rep_leaves_qty rep\<rparr>\<rparr>"
  note o = open_order_facts [OF inv act, folded sim_def]
  have ga: "act_active (active_order ?g)" "act_venue_order_id (active_order ?g) = act_venue_order_id (active_order gw)"
    using act by simp_all
  from fill(2) have f: "rep_has_fill rep" "\<not> rep_cancel_acked rep" "rep_leaves_qty rep = ?L - q"
      "f_quantity (rep_fill rep) = q" "f_price (rep_fill rep) = rest_price (resting_order sim)"
      "rest_leaves_qty (resting_order sim') = ?L - q" "rest_active (resting_order sim') = (q \<noteq> ?L)"
    using o(2) by (simp_all add: rest_filled_def Let_def)
  have b': "apply_execution_report ?g b rep (receive_ts_ns tick) =
      push_event b (venue_event EvFill (receive_ts_ns tick) (act_venue_order_id (active_order gw)) q (rest_price (resting_order sim)))"
    using report_fill [OF ga(1) f(1,2), of b "receive_ts_ns tick"] f(4,5) ga(2) by simp
  have "gw_inv (close_active_order_if_done ?g) \<and> pending_new (close_active_order_if_done ?g) = pending_new gw \<and>
      gw_view (close_active_order_if_done ?g) =
        (if q = ?L then VNone else VOpen (act_venue_order_id (active_order gw)) (act_side (active_order gw)) (?L - q))"
  proof (cases "q = ?L")
    case True
    with f(7) have "\<not> rest_active (resting_order sim')" by simp
    from close_order [OF inv act sim'(1) this] show ?thesis using f(3) True by simp
  next
    case False
    with f(7) have "rest_active (resting_order sim')" by simp
    from keep_open [OF inv act sim'(1) this f(6) [unfolded sim_def] sim'(2) [unfolded sim_def]] show ?thesis
      using False by (simp only: f(3) sim_def if_False)
  qed
  moreover have "q \<le> ?L" using passive_take_bounds [OF o(6)] by (auto simp: q_def)
  ultimately show ?thesis
    using advanced_fill [of q gw "close_active_order_if_done ?g" tick] fill(1) room o(4)
    by (simp add: advance_spec_def after_report_def Let_def b' sim_def)
qed

lemma after_cancel:
  assumes inv: "gw_inv gw" and act: "act_active (active_order gw)" and room: "length (batch_events b) < 4"
    and sim': "sim_inv sim'" "\<not> rest_active (resting_order sim')"
    and rep: "rep = (plain_report True 0)\<lparr>rep_cancel_acked := True\<rparr>"
  shows "advance_spec gw tick b (after_report gw tick b rep sim')"
proof -
  let ?g = "gw\<lparr>execution := sim', active_order := (active_order gw)\<lparr>act_leaves_qty := rep_leaves_qty rep\<rparr>\<rparr>"
  have ga: "act_active (active_order ?g)" using act by simp
  have "rep_leaves_qty rep = 0" "\<not> rep_has_fill rep" "rep_cancel_acked rep" by (simp_all add: rep plain_report_def)
  with close_order [OF inv act sim'] report_cancel [OF ga, of rep b "receive_ts_ns tick"] room
  show ?thesis by (simp add: advance_spec_def after_report_def Let_def advanced_def)
qed

lemma after_nothing:
  assumes inv: "gw_inv gw" and act: "act_active (active_order gw)"
    and sim': "sim_inv sim'" "rest_side (resting_order sim') = rest_side (resting_order (execution gw))"
    and same: "rest_same (execution gw) rep sim'"
  shows "advance_spec gw tick b (after_report gw tick b rep sim')"
proof -
  note o = open_order_facts [OF inv act]
  have f: "rep = plain_report True (rest_leaves_qty (resting_order (execution gw)))"
      "rest_leaves_qty (resting_order sim') = rest_leaves_qty (resting_order (execution gw))" "rest_active (resting_order sim')"
    using same o(2) by (simp_all add: rest_same_def Let_def)
  from keep_open [OF inv act sim'(1) f(3,2) sim'(2)] show ?thesis
    by (simp add: advance_spec_def after_report_def Let_def f(1) report_plain o(7) advanced_def plain_report_def)
qed

lemma advance_execution_post:
  assumes inv: "gw_inv gw" and act: "act_active (active_order gw)" and room: "length (batch_events b) < 4"
  shows "post (advance_execution gw tick b) (\<lambda>(b', gw'). gw_inv gw' \<and>
    pending_new gw' = pending_new gw \<and> batch_overflow_count b' = batch_overflow_count b \<and>
    (\<exists>evs. batch_events b' = batch_events b @ evs \<and> advanced gw tick evs gw'))"
proof -
  let ?sim = "execution gw"
  let ?q = "passive_take (resting_order ?sim) (visible_opposite_qty ?sim tick)"
  note o = open_order_facts [OF inv act]
  have spec: "advance_spec gw tick b (after_report gw tick b rep sim')"
    if s: "sim_on_tick ?sim tick = Some (rep, sim')" for rep sim'
  proof -
    have i: "sim_inv sim'" and fr: "rest_side (resting_order sim') = rest_side (resting_order ?sim)"
      and cases: "if is_marketable ?sim tick \<and> 0 < ?q then rest_filled ?sim tick ?q rep sim'
        else if cancel_due ?sim tick
        then rep = (plain_report True 0)\<lparr>rep_cancel_acked := True\<rparr> \<and>
             \<not> rest_active (resting_order sim') \<and> \<not> rest_cancel_pending (resting_order sim')
        else rest_same ?sim rep sim'"
      using postD [OF sim_inv_on_tick [OF o(1)] s] postD [OF sim_on_tick_post [OF o(1,2)] s]
      by (simp_all add: rest_frame_def Let_def)
    show ?thesis
      using cases after_fill [OF inv act room i fr] after_cancel [OF inv act room i] after_nothing [OF inv act i fr]
      by (auto split: if_splits)
  qed
  show ?thesis
  proof (rule postI)
    fix r assume "advance_execution gw tick b = Some r"
    then obtain rep sim' where s: "sim_on_tick ?sim tick = Some (rep, sim')"
      and r: "r = after_report gw tick b rep sim'"
      unfolding advance_execution_eq [OF act] Option.bind_eq_Some_conv after_report_def Let_def by auto
    show "case r of (b', gw') \<Rightarrow> gw_inv gw' \<and> pending_new gw' = pending_new gw \<and>
        batch_overflow_count b' = batch_overflow_count b \<and>
        (\<exists>evs. batch_events b' = batch_events b @ evs \<and> advanced gw tick evs gw')"
      using spec [OF s] unfolding advance_spec_def r .
  qed
qed

text \<open>
  Between the steps of a tick: the events so far follow the protocol; while an order is
  open there is at most the acknowledgement among them.
\<close>

definition mid_tick ::
  "ExecutionStyle \<Rightarrow> venue_view \<Rightarrow> MarketTick \<Rightarrow> VenueEventBatch \<Rightarrow> MockVenueGateway \<Rightarrow> bool" where
  "mid_tick st v tick b gw' \<longleftrightarrow> tick_result st v tick b gw' \<and>
     (act_active (active_order gw') \<longrightarrow> sum_list (map event_cost (batch_events b)) \<le> 1 \<and>
        filter is_fill (batch_events b) = [] \<and> length (batch_events b) \<le> 1)"

lemma view_steps_append:
  "view_steps st v (xs @ ys) v'' \<longleftrightarrow> (\<exists>v'. view_steps st v xs v' \<and> view_steps st v' ys v'')"
  by (induction xs arbitrary: v) auto

text \<open>The gateway as it settles a submission: the order is active, the request still pending.\<close>

definition submitting :: "MockVenueGateway \<Rightarrow> ExecutionSimulator \<Rightarrow> MockVenueGateway" where
  "submitting gw sim = gw\<lparr>next_venue_order_id := next_venue_order_id gw + 1,
     active_order := active_from (pend_request (pending_new gw)) (next_venue_order_id gw), execution := sim\<rparr>"

definition ack_batch :: "MockVenueGateway \<Rightarrow> MarketTick \<Rightarrow> VenueEventBatch" where
  "ack_batch gw tick = push_event empty_batch (venue_event EvNewAck (receive_ts_ns tick) (next_venue_order_id gw) 0 0)"

lemma accept_pending_eq:
  "accept_pending gw tick empty_batch = Option.bind
     (submit_order (execution gw) tick \<lparr>req_side = gn_side (pend_request (pending_new gw)),
        req_quantity = gn_quantity (pend_request (pending_new gw)),
        req_limit_price = gn_limit_price (pend_request (pending_new gw))\<rparr> (gn_style (pend_request (pending_new gw))))
     (\<lambda>(rep, sim). Some (settle_submission (submitting gw sim) tick (ack_batch gw tick) rep))"
  by (simp add: accept_pending_def submitting_def ack_batch_def Let_def)

lemma submitting_sel [simp]:
  "next_venue_order_id (submitting gw sim) = next_venue_order_id gw + 1"
  "active_order (submitting gw sim) = active_from (pend_request (pending_new gw)) (next_venue_order_id gw)"
  "execution (submitting gw sim) = sim" "pending_new (submitting gw sim) = pending_new gw"
  by (simp_all add: submitting_def)

lemma active_from_sel [simp]:
  "act_active (active_from r v)" "act_venue_order_id (active_from r v) = v" "act_side (active_from r v) = gn_side r"
  "act_leaves_qty (active_from r v) = gn_quantity r" "\<not> act_cancel_sent (active_from r v)"
  by (simp_all add: active_from_def)

lemma ack_batch_sel [simp]:
  "batch_events (ack_batch gw tick) = [venue_event EvNewAck (receive_ts_ns tick) (next_venue_order_id gw) 0 0]"
  "batch_overflow_count (ack_batch gw tick) = 0"
  by (simp_all add: ack_batch_def)

lemma pending_facts:
  assumes "gw_inv gw" "pend_active (pending_new gw)"
  shows "0 < gn_quantity (pend_request (pending_new gw))" "\<not> act_active (active_order gw)"
    "\<not> rest_active (resting_order (execution gw))" "0 < next_venue_order_id gw" "sim_inv (execution gw)"
  using assms by (auto simp: gw_inv_def Let_def)

lemma accept_pending_passive:
  assumes inv: "gw_inv gw" and pend: "pend_active (pending_new gw)"
    and sty: "gn_style (pend_request (pending_new gw)) = Passive"
  shows "post (accept_pending gw tick empty_batch) (\<lambda>(b, g). mid_tick Passive (gw_view gw) tick b g)"
proof -
  let ?r = "pend_request (pending_new gw)"
  let ?rep = "plain_report True (gn_quantity ?r)"
  note facts = pending_facts [OF inv pend]
  define sim where "sim = (execution gw)\<lparr>resting_order := \<lparr>rest_active = True, rest_side = gn_side ?r,
    rest_price = gn_limit_price ?r, rest_leaves_qty = gn_quantity ?r,
    rest_queue_ahead_qty = (if gn_side ?r = Buy then bid_qty tick else ask_qty tick),
    rest_submit_ts_ns = receive_ts_ns tick, rest_cancel_pending = False, rest_cancel_effective_ts_ns = 0\<rparr>\<rparr>"
  define g where "g = (submitting gw sim)\<lparr>active_order := (active_order (submitting gw sim))\<lparr>act_leaves_qty := gn_quantity ?r\<rparr>,
      pending_new := (pending_new gw)\<lparr>pend_active := False\<rparr>\<rparr>"
  have "settle_submission (submitting gw sim) tick (ack_batch gw tick) ?rep = (ack_batch gw tick, close_active_order_if_done g)"
    by (simp add: settle_submission_def sty report_plain plain_report_def g_def)
  moreover have "close_active_order_if_done g = g" using facts by (intro close_open) (simp add: g_def)
  moreover have "gw_inv g" using facts by (simp add: gw_inv_def g_def sim_def sim_inv_def)
  moreover have "gw_view g = VOpen (next_venue_order_id gw) (gn_side ?r) (gn_quantity ?r)" by (simp add: gw_view_def g_def)
  moreover have "gw_style Passive g" by (simp add: gw_style_def g_def)
  moreover have "submit_order (execution gw) tick \<lparr>req_side = gn_side ?r, req_quantity = gn_quantity ?r,
      req_limit_price = gn_limit_price ?r\<rparr> Passive = Some (?rep, sim)"
    using passive_submit_spec facts by (simp add: sim_def)
  ultimately show ?thesis
    using pend facts
    by (auto simp: accept_pending_eq sty mid_tick_def tick_result_def gw_view_def [of gw] event_cost_def is_fill_def
        intro: view_step.ack)
qed

lemma accept_pending_aggressive:
  assumes inv: "gw_inv gw" and pend: "pend_active (pending_new gw)"
    and sty: "gn_style (pend_request (pending_new gw)) = Aggressive"
  shows "post (accept_pending gw tick empty_batch) (\<lambda>(b, g). mid_tick Aggressive (gw_view gw) tick b g)"
proof -
  let ?r = "pend_request (pending_new gw)"
  let ?vid = "next_venue_order_id gw"
  let ?q = "gn_quantity ?r"
  let ?rq = "\<lparr>req_side = gn_side ?r, req_quantity = ?q, req_limit_price = gn_limit_price ?r\<rparr>"
  note facts = pending_facts [OF inv pend]
  have step: "post (submit_order (execution gw) tick ?rq Aggressive) (\<lambda>(rep, sim). sim_inv sim \<and>
      \<not> rest_active (resting_order sim) \<and> \<not> rep_cancel_acked rep \<and> 0 \<le> rep_leaves_qty rep \<and>
      (if rep_has_fill rep then 0 < f_quantity (rep_fill rep) \<and> rep_leaves_qty rep = ?q - f_quantity (rep_fill rep)
       else rep_leaves_qty rep = ?q))"
    using facts inv sim_inv_submit_order [of "execution gw" tick ?rq Aggressive]
      aggressive_fill_spec [of ?rq "execution gw" tick]
    by (auto simp: post_def gw_inv_def Let_def split: option.splits if_splits)
  have main: "mid_tick Aggressive (gw_view gw) tick b' g'"
    if sim: "sim_inv sim" "\<not> rest_active (resting_order sim)" "\<not> rep_cancel_acked rep" "0 \<le> rep_leaves_qty rep"
      and fill: "if rep_has_fill rep then 0 < f_quantity (rep_fill rep) \<and> rep_leaves_qty rep = ?q - f_quantity (rep_fill rep)
        else rep_leaves_qty rep = ?q"
      and settle: "settle_submission (submitting gw sim) tick (ack_batch gw tick) rep = (b', g')"
    for rep sim b' g'
  proof -
    let ?l = "rep_leaves_qty rep"
    let ?fill = "venue_event EvFill (receive_ts_ns tick) ?vid (f_quantity (rep_fill rep)) (f_price (rep_fill rep))"
    let ?exp = "venue_event EvExpired (receive_ts_ns tick) ?vid 0 0"
    define ao where "ao = (active_order (submitting gw sim))\<lparr>act_leaves_qty := 0\<rparr>"
    define h where "h = (submitting gw sim)\<lparr>active_order := ao, pending_new := (pending_new gw)\<lparr>pend_active := False\<rparr>\<rparr>"
    have "g' = close_active_order_if_done h"
      using settle sim(4) by (cases "0 < ?l") (auto simp: settle_submission_def sty h_def ao_def Let_def)
    also have "\<dots> = h\<lparr>active_order := ao\<lparr>act_active := False\<rparr>\<rparr>"
      by (subst close_done) (simp_all add: h_def ao_def sim)
    finally have g': "g' = h\<lparr>active_order := ao\<lparr>act_active := False\<rparr>\<rparr>" .
    have b': "batch_overflow_count b' = 0" "batch_events b' = batch_events (ack_batch gw tick) @
        (if rep_has_fill rep then [?fill] else []) @ (if 0 < ?l then [?exp] else [])"
      using settle by (auto simp: settle_submission_def sty apply_execution_report_def sim(3) Let_def split: if_splits)
    have "gw_inv g'" "gw_style Aggressive g'" "gw_view g' = VNone" "\<not> act_active (active_order g')"
      using sim facts by (simp_all add: g' h_def gw_inv_def gw_style_def gw_view_def)
    moreover have "view_steps Aggressive (gw_view gw) (batch_events b') VNone"
      using pend facts fill sim(4) b'
      by (cases "rep_has_fill rep"; cases "0 < ?l") (auto simp: gw_view_def view_step_open view_step_pending)
    ultimately show ?thesis
      by (auto simp: mid_tick_def tick_result_def b' event_cost_def is_fill_def)
  qed
  show ?thesis
    unfolding accept_pending_eq sty post_bind
    using main by (intro post_mono [OF step]) (auto split: prod.splits)
qed

lemma accept_pending_post:
  assumes "gw_inv gw" "gw_style st gw" "pend_active (pending_new gw)"
  shows "post (accept_pending gw tick empty_batch) (\<lambda>(b, g). mid_tick st (gw_view gw) tick b g)"
  using assms accept_pending_passive [of gw tick] accept_pending_aggressive [of gw tick]
  by (cases st) (simp_all add: gw_style_def)

lemma mid_tick_open:
  assumes "mid_tick st v tick b gw" "act_active (active_order gw)"
  shows "st = Passive" "gw_inv gw" "\<not> pend_active (pending_new gw)" "batch_overflow_count b = 0"
    "sum_list (map event_cost (batch_events b)) \<le> 1" "filter is_fill (batch_events b) = []"
    "length (batch_events b) \<le> 1" "\<forall>ev \<in> set (batch_events b). ev_ts_ns ev = receive_ts_ns tick"
    "view_steps st v (batch_events b) (VOpen (act_venue_order_id (active_order gw)) (act_side (active_order gw))
       (act_leaves_qty (active_order gw)))"
    "0 < act_venue_order_id (active_order gw)"
  using assms by (auto simp: mid_tick_def tick_result_def gw_style_def gw_inv_def gw_view_def Let_def)

lemma mid_tick_cong:
  assumes "mid_tick st v tick b gw" "gw_inv gw'" "gw_view gw' = gw_view gw" "pending_new gw' = pending_new gw"
    "act_active (active_order gw') = act_active (active_order gw)"
  shows "mid_tick st v tick b gw'"
  using assms by (auto simp: mid_tick_def tick_result_def gw_style_def)

lemma deliver_cancel_post:
  assumes mid: "mid_tick st v tick b gw"
  shows "post (deliver_cancel gw tick b) (\<lambda>(ret, b', g). if ret then tick_result st v tick b' g else mid_tick st v tick b' g)"
proof (cases "act_active (active_order gw)")
  case True
  let ?ao = "active_order gw"
  let ?ev = "venue_event EvCancelReject (receive_ts_ns tick) (act_venue_order_id ?ao) 0 0"
  let ?g = "gw\<lparr>active_order := ?ao\<lparr>act_cancel_sent := False, act_cancel_reject_once_done := True\<rparr>\<rparr>"
  note f = mid_tick_open [OF mid True]
  have "gw_inv ?g" "gw_style st ?g" "gw_view ?g = VOpen (act_venue_order_id ?ao) (act_side ?ao) (act_leaves_qty ?ao)"
    using f(1-3) True by (simp_all add: gw_inv_def gw_style_def gw_view_def Let_def)
  then have rejected: "tick_result st v tick (push_event b ?ev) ?g"
    using f(1,4-9) by (auto simp: tick_result_def view_steps_append is_fill_def event_cost_def intro!: exI view_step.keep)
  have delivered: "post (sim_request_cancel (execution gw) (receive_ts_ns tick)) (\<lambda>(x, sim).
      mid_tick st v tick b (gw\<lparr>execution := sim, active_order := ?ao\<lparr>act_cancel_sent := False\<rparr>\<rparr>))"
    using f(2,3) True
    by (intro post_mono [OF sim_request_cancel_post]) (auto intro!: mid_tick_cong [OF mid] simp: gw_inv_def gw_view_def Let_def)
  show ?thesis
    using mid rejected delivered by (auto simp: deliver_cancel_def Let_def wp elim!: post_mono)
next
  case False
  with mid show ?thesis by (simp add: deliver_cancel_def Let_def)
qed

lemma finish_tick_post:
  assumes mid: "mid_tick st v tick b gw"
  shows "post (advance_execution gw tick b) (\<lambda>(b', g). tick_result st v tick b' g)"
proof (cases "act_active (active_order gw)")
  case True
  note f = mid_tick_open [OF mid True]
  have room: "length (batch_events b) < 4" using f(7) by simp
  have main: "tick_result st v tick b' g"
    if "gw_inv g" "pending_new g = pending_new gw" "batch_overflow_count b' = batch_overflow_count b"
      "batch_events b' = batch_events b @ evs" "advanced gw tick evs g" for b' g evs
  proof -
    let ?v = "VOpen (act_venue_order_id (active_order gw)) (act_side (active_order gw)) (act_leaves_qty (active_order gw))"
    have v: "gw_view gw = ?v" using True f(3) by (simp add: gw_view_def)
    have "view_steps st ?v evs (gw_view g) \<and> (\<forall>ev \<in> set evs. ev_ts_ns ev = receive_ts_ns tick) \<and>
        sum_list (map event_cost evs) \<le> 2 \<and> length evs \<le> 1"
      using that(5) v f(1) unfolding advanced_def Let_def
      by (auto simp: event_cost_def view_step_open)
    moreover have "gw_style st g" using that(2) f(1,3) by (simp add: gw_style_def)
    moreover have "length (filter is_fill evs) \<le> length evs" by (rule length_filter_le)
    ultimately show ?thesis
      using that(1-4) f by (auto simp del: length_filter_le simp: tick_result_def view_steps_append)
  qed
  show ?thesis
    by (intro post_mono [OF advance_execution_post [OF f(2) True room]]) (auto intro: main)
next
  case False
  with mid show ?thesis
    by (auto simp: advance_execution_def has_resting_order_def mid_tick_def tick_result_def gw_inv_def Let_def)
qed

lemma mid_tick_start: "gw_inv gw \<Longrightarrow> gw_style st gw \<Longrightarrow> mid_tick st (gw_view gw) tick empty_batch gw"
  by (simp add: mid_tick_def tick_result_def)

lemma gateway_on_tick_post:
  assumes "gw_inv gw" "gw_style st gw"
  shows "post (gateway_on_tick gw tick) (\<lambda>(b, g). tick_result st (gw_view gw) tick b g)"
proof -
  let ?p = "pending_new gw"
  let ?due = "pend_active ?p \<and> receive_ts_ns tick \<ge> pend_ack_ready_ts_ns ?p"
  let ?res = "\<lambda>(b, g). tick_result st (gw_view gw) tick b g"
  have accept: "post (if ?due then accept_pending gw tick empty_batch else Some (empty_batch, gw))
      (\<lambda>(b, g). mid_tick st (gw_view gw) tick b g)"
    using accept_pending_post [OF assms] mid_tick_start [OF assms] by simp
  have rest: "post (Option.bind (deliver_cancel g tick b)
      (\<lambda>(ret, b', g'). if ret then Some (b', g') else advance_execution g' tick b')) ?res"
    if "mid_tick st (gw_view gw) tick b g" for b g
    unfolding post_bind
    by (intro post_mono [OF deliver_cancel_post [OF that]]) (auto simp: finish_tick_post split: if_splits)
  have reject: "tick_result st (gw_view gw) tick (push_event empty_batch (venue_event EvNewReject (receive_ts_ns tick) 0 0 0))
      (gw\<lparr>pending_new := ?p\<lparr>pend_active := False\<rparr>\<rparr>)" if ?due
    using assms that by (auto simp: tick_result_def gw_inv_def gw_style_def gw_view_def event_cost_def is_fill_def Let_def
        intro: view_step.reject)
  have cont: "post (Option.bind (if ?due then accept_pending gw tick empty_batch else Some (empty_batch, gw))
      (\<lambda>(b, g). Option.bind (deliver_cancel g tick b)
         (\<lambda>(ret, b', g'). if ret then Some (b', g') else advance_execution g' tick b'))) ?res"
    unfolding post_bind [of "if _ then _ else _"]
    by (intro post_mono [OF accept]) (clarify, simp only: prod.case rest)
  show ?thesis
    unfolding gateway_on_tick_def Let_def post_if [of "?due \<and> pend_should_reject ?p"]
    using reject cont by (simp only: post_Some prod.case split: if_split) blast
qed

section \<open>Requests\<close>

lemma gw_view_none: "gw_view gw = VNone \<longleftrightarrow> \<not> pend_active (pending_new gw) \<and> \<not> act_active (active_order gw)"
  by (simp add: gw_view_def)

lemma gw_inv_default [simp]: "gw_inv gateway_default" "gw_style st gateway_default" "gw_view gateway_default = VNone"
  using sim_inv_default by (simp_all add: gateway_default_def gateway_init_def gw_inv_def gw_style_def gw_view_def
      simulator_default_def simulator_init_def Let_def)

lemma send_new_post:
  "gw_inv gw \<Longrightarrow> gw_style st gw \<Longrightarrow> gn_style r = st \<Longrightarrow>
   post (send_new gw r) (\<lambda>(acc, g). acc = (0 < gn_quantity r \<and> gw_view gw = VNone) \<and> gw_inv g \<and> gw_style st g \<and>
     gw_view g = (if acc then VPending (gn_client_order_id r) (gn_side r) (gn_quantity r) else gw_view gw))"
  by (auto simp: send_new_def gw_inv_def gw_style_def gw_view_def Let_def wp checked_defs)

lemma send_cancel_post:
  "gw_inv gw \<Longrightarrow> gw_style st gw \<Longrightarrow>
   post (send_cancel gw ts) (\<lambda>(sent, g). sent = (act_active (active_order gw) \<and> \<not> act_cancel_sent (active_order gw)) \<and>
     gw_inv g \<and> gw_style st g \<and> gw_view g = gw_view gw)"
  by (auto simp: send_cancel_def gw_inv_def gw_style_def gw_view_def Let_def wp checked_defs)

section \<open>The order manager as a client of the venue\<close>

text \<open>
  The order manager's order and the venue's view of it: the venue's pending order is the
  one awaiting acknowledgement, the venue's open order is open with the same id, side
  and remaining quantity. When the venue holds nothing the order is at least not awaiting
  an acknowledgement; in \<open>agree\<close> it is not live at all.
\<close>

definition linked :: "ExecutionStyle \<Rightarrow> venue_view \<Rightarrow> ManagedOrder \<Rightarrow> bool" where
  "linked st v od \<longleftrightarrow> (st = Aggressive \<longrightarrow> o_state od \<noteq> PendingCancel) \<and> (case v of
     VNone \<Rightarrow> o_state od \<noteq> PendingNewAck
   | VPending c s q \<Rightarrow> o_state od = PendingNewAck \<and> o_client_order_id od = c \<and> o_side od = s \<and> o_order_qty od = q
   | VOpen vid s q \<Rightarrow> open_state (o_state od) \<and> o_venue_order_id od = vid \<and> o_side od = s \<and> o_leaves_qty od = q)"

definition agree :: "venue_view \<Rightarrow> ManagedOrder \<Rightarrow> bool" where
  "agree v od \<longleftrightarrow> (v = VNone \<longrightarrow> \<not> live_state (o_state od))"

text \<open>What the manager may answer: only a cancel's outcome can find it in the wrong state.\<close>

definition benign :: "VenueEvent \<Rightarrow> VenueEventOutcome \<Rightarrow> bool" where
  "benign ev r \<longleftrightarrow> r = Applied \<or> r = WrongState \<and> ev_type ev \<in> {EvCancelAck, EvCancelReject}"

lemma link_step:
  assumes "oms_inv od" "linked st v od" "view_step st v ev v'"
  shows "ok (on_venue_event od ev) (\<lambda>(r, f, od'). oms_inv od' \<and> linked st v' od' \<and> benign ev r \<and>
    (agree v od \<and> r = Applied \<longrightarrow> agree v' od') \<and> (st = Aggressive \<longrightarrow> r = Applied))"
proof -
  obtain r f od' where e: "on_venue_event od ev = Some (r, f, od')" and inv: "oms_inv od'"
    using oms_inv_on_venue_event_ok [OF assms(1), of ev] by (auto simp: ok_iff)
  have "0 < o_leaves_qty od \<and> 0 < o_venue_order_id od" if "open_state (o_state od)"
    using assms(1) that by (auto simp: oms_inv_def open_state_def)
  moreover have "o_leaves_qty od = o_order_qty od" if "o_state od = PendingNewAck"
    using assms(1) that by (simp add: oms_inv_def)
  ultimately have "linked st v' od' \<and> benign ev r \<and> (agree v od \<and> r = Applied \<longrightarrow> agree v' od') \<and>
      (st = Aggressive \<longrightarrow> r = Applied)"
    using assms(3,2) e
    by (elim view_step.cases)
      (auto simp: linked_def agree_def benign_def state_class_defs on_venue_event_def Option.bind_eq_Some_conv
        checked_defs split: if_splits)
  with e inv show ?thesis by simp
qed

lemma link_steps:
  assumes "view_steps st v evs v'" "oms_inv od" "linked st v od"
  shows "ok (run_events on_venue_event od evs) (\<lambda>(rs, fs, od'). oms_inv od' \<and> linked st v' od' \<and>
    list_all2 benign evs rs \<and> (agree v od \<and> set rs \<subseteq> {Applied} \<longrightarrow> agree v' od') \<and>
    (st = Aggressive \<longrightarrow> set rs \<subseteq> {Applied}))"
  using assms
proof (induction arbitrary: od rule: view_steps.induct)
  case (cons st v ev v' evs v'')
  from link_step [OF cons.prems cons.hyps(1)] obtain r f od' where e: "on_venue_event od ev = Some (r, f, od')"
    and step: "oms_inv od'" "linked st v' od'" "benign ev r" "agree v od \<and> r = Applied \<longrightarrow> agree v' od'"
      "st = Aggressive \<longrightarrow> r = Applied"
    by (auto simp: ok_iff)
  show ?case
    unfolding run_events.simps e bind.simps prod.case ok_bind
    by (intro ok_mono [OF cons.IH [OF step(1,2)]]) (use step in \<open>auto simp: list_all2_Cons1\<close>)
qed simp

text \<open>
  The venue as the order manager's owner relies on it, and what follows for the manager
  that consumes its batches.
\<close>

locale venue_protocol =
  fixes style :: ExecutionStyle
    and inv :: "'g \<Rightarrow> bool"
    and view :: "'g \<Rightarrow> venue_view"
    and advance :: "'g \<Rightarrow> 't \<Rightarrow> (VenueEventBatch \<times> 'g) option"
  assumes advance_protocol: "inv g \<Longrightarrow> post (advance g t) (\<lambda>(b, g'). inv g' \<and>
      view_steps style (view g) (batch_events b) (view g') \<and> batch_overflow_count b = 0)"
begin

lemma batch_consumed:
  assumes "inv g" "advance g t = Some (b, g')" "oms_inv od" "linked style (view g) od"
  shows "ok (run_events on_venue_event od (batch_events b)) (\<lambda>(rs, fs, od'). oms_inv od' \<and>
    linked style (view g') od' \<and> list_all2 benign (batch_events b) rs \<and>
    (agree (view g) od \<and> set rs \<subseteq> {Applied} \<longrightarrow> agree (view g') od') \<and>
    (style = Aggressive \<longrightarrow> set rs \<subseteq> {Applied}))"
  using postD [OF advance_protocol [OF assms(1)] assms(2)] link_steps [OF _ assms(3,4)] by auto

end

interpretation venue: venue_protocol st "\<lambda>gw. gw_inv gw \<and> gw_style st gw" gw_view gateway_on_tick for st
proof
  show "post (gateway_on_tick g t) (\<lambda>(b, g'). (gw_inv g' \<and> gw_style st g') \<and>
      view_steps st (gw_view g) (batch_events b) (gw_view g') \<and> batch_overflow_count b = 0)"
    if "gw_inv g \<and> gw_style st g" for g t
    using gateway_on_tick_post [of g st t] that by (auto simp: tick_result_def elim!: post_mono)
qed

section \<open>Absence of overflow\<close>

definition sim_within :: "int \<Rightarrow> int \<Rightarrow> int \<Rightarrow> ExecutionSimulator \<Rightarrow> bool" where
  "sim_within T P M sim \<longleftrightarrow> sim_bounded T sim \<and> \<bar>cancel_latency_ns sim\<bar> \<le> M \<and> \<bar>adverse_move_threshold sim\<bar> \<le> M \<and>
     0 \<le> rest_price (resting_order sim) \<and> rest_price (resting_order sim) \<le> P"

definition gw_bounded :: "int \<Rightarrow> int \<Rightarrow> int \<Rightarrow> MockVenueGateway \<Rightarrow> bool" where
  "gw_bounded T P M gw \<longleftrightarrow> (let r = pend_request (pending_new gw) in
     sim_within T P M (execution gw) \<and> \<bar>new_ack_latency_ns gw\<bar> \<le> M \<and> \<bar>cancel_send_latency_ns gw\<bar> \<le> M \<and>
     in_i32 (gn_quantity r) \<and> 0 \<le> gn_limit_price r \<and> gn_limit_price r \<le> P)"

lemma gw_bounded_update [simp]:
  "gw_bounded T P M (gw\<lparr>active_order := ao\<rparr>) = gw_bounded T P M gw"
  "gw_bounded T P M (gw\<lparr>next_venue_order_id := n\<rparr>) = gw_bounded T P M gw"
  "gw_bounded T P M (gw\<lparr>pending_new := (pending_new gw)\<lparr>pend_active := x\<rparr>\<rparr>) = gw_bounded T P M gw"
  by (simp_all add: gw_bounded_def Let_def)

lemma gw_bounded_execution [simp]:
  "gw_bounded T P M gw \<Longrightarrow> sim_within T P M sim \<Longrightarrow> gw_bounded T P M (gw\<lparr>execution := sim\<rparr>)"
  by (simp add: gw_bounded_def Let_def)

lemma gw_bounded_sel:
  assumes "gw_bounded T P M gw"
  shows "sim_within T P M (execution gw)" "in_i32 (gn_quantity (pend_request (pending_new gw)))"
    "0 \<le> gn_limit_price (pend_request (pending_new gw))" "gn_limit_price (pend_request (pending_new gw)) \<le> P"
  using assms by (simp_all add: gw_bounded_def Let_def)

definition prices_within :: "int \<Rightarrow> VenueEventBatch \<Rightarrow> bool" where
  "prices_within P b \<longleftrightarrow> (\<forall>ev \<in> set (batch_events b). 0 \<le> ev_fill_price ev \<and> ev_fill_price ev \<le> P)"

lemma prices_within_push: "prices_within P b \<Longrightarrow> 0 \<le> ev_fill_price ev \<Longrightarrow> ev_fill_price ev \<le> P \<Longrightarrow> prices_within P (push_event b ev)"
  by (auto simp: prices_within_def push_event_def)

lemma gw_bounded_close [simp]: "gw_bounded T P M (close_active_order_if_done gw) = gw_bounded T P M gw"
  by (simp add: close_active_order_if_done_def)

definition report_within :: "int \<Rightarrow> ExecutionReport \<Rightarrow> bool" where
  "report_within P rep \<longleftrightarrow> (rep_has_fill rep \<longrightarrow> 0 \<le> f_price (rep_fill rep) \<and> f_price (rep_fill rep) \<le> P)"

lemma submit_frame:
  "post (submit_order sim tick r st) (\<lambda>(rep, sim'). cancel_latency_ns sim' = cancel_latency_ns sim \<and>
     adverse_move_threshold sim' = adverse_move_threshold sim \<and>
     (rest_price (resting_order sim') = rest_price (resting_order sim) \<or> rest_price (resting_order sim') = req_limit_price r) \<and>
     (rep_has_fill rep \<longrightarrow> f_price (rep_fill rep) = ask_price tick \<or> f_price (rep_fill rep) = bid_price tick))"
  by (auto simp: submit_order_def aggressive_fill_def Let_def wp checked_defs)

lemma submit_within:
  assumes "sim_within T P M sim" "tick_bounded T P tick" "in_i32 (req_quantity r)" "0 \<le> req_limit_price r" "req_limit_price r \<le> P"
  shows "ok (submit_order sim tick r st) (\<lambda>(rep, sim'). sim_within T P M sim' \<and> report_within P rep)"
proof -
  obtain rep sim' where e: "submit_order sim tick r st = Some (rep, sim')" "sim_bounded T sim'"
    using submit_order_ok [OF _ assms(2,3), of sim st] assms(1) by (auto simp: ok_iff sim_within_def)
  note f = postD [OF submit_frame e(1), unfolded prod.case]
  have "sim_within T P M sim'" using f e(2) assms(1,4,5) unfolding sim_within_def by metis
  moreover have "report_within P rep" using f assms(2) unfolding report_within_def tick_bounded_def by metis
  ultimately show ?thesis using e(1) by simp
qed

lemma request_cancel_within:
  assumes "sim_within T P M sim" "\<bar>ts\<bar> \<le> T" "T + M \<le> INT64_MAX"
  shows "ok (sim_request_cancel sim ts) (\<lambda>(x, sim'). sim_within T P M sim')"
  using assms in_i64_add [of ts T "cancel_latency_ns sim" M]
  by (auto simp: sim_request_cancel_def Let_def wp checked_defs sim_within_def sim_bounded_def)

lemma sim_on_tick_frame:
  assumes "sim_inv sim"
  shows "post (sim_on_tick sim tick) (\<lambda>(rep, sim'). rest_frame sim sim' \<and>
    (rep_has_fill rep \<longrightarrow> f_price (rep_fill rep) = rest_price (resting_order sim)))"
proof (cases "rest_active (resting_order sim)")
  case True
  have filled: "rest_filled sim tick q rep sim' \<Longrightarrow> f_price (rep_fill rep) = rest_price (resting_order sim)"
    and same: "rest_same sim rep sim' \<Longrightarrow> \<not> rep_has_fill rep" for q rep sim'
    by (simp_all add: rest_filled_def rest_same_def Let_def)
  have acked: "\<not> rep_has_fill ((plain_report True 0)\<lparr>rep_cancel_acked := True\<rparr>)" by simp
  show ?thesis
  proof (rule postI, clarify, intro conjI impI)
    fix rep sim' assume e: "sim_on_tick sim tick = Some (rep, sim')"
    note p = postD [OF sim_on_tick_post [OF assms True] e, unfolded prod.case]
    from p show "rest_frame sim sim'" by (rule conjunct1)
    assume h: "rep_has_fill rep"
    consider q where "rest_filled sim tick q rep sim'" | "rep = (plain_report True 0)\<lparr>rep_cancel_acked := True\<rparr>"
      | "rest_same sim rep sim'"
      using conjunct2 [OF p] by (auto split: if_splits)
    then show "f_price (rep_fill rep) = rest_price (resting_order sim)"
      using filled same acked h by cases blast+
  qed
qed (simp add: sim_on_tick_def rest_frame_def)

lemma sim_on_tick_within:
  assumes "sim_inv sim" "sim_within T P M sim" "tick_bounded T P tick" "2 * T \<le> INT64_MAX" "2 * P + M \<le> INT64_MAX"
  shows "ok (sim_on_tick sim tick) (\<lambda>(rep, sim'). sim_within T P M sim' \<and> report_within P rep)"
proof -
  have "ok (sim_on_tick sim tick) (\<lambda>(rep, sim'). sim_bounded T sim')"
    using assms by (intro sim_on_tick_ok [where A = M and P = P]) (auto simp: sim_within_def)
  with sim_on_tick_frame [OF assms(1), of tick] show ?thesis
    using assms(2) by (auto simp: ok_iff sim_within_def report_within_def rest_frame_def Let_def)
qed

lemma prices_within_report:
  assumes "prices_within P b" "0 \<le> P" "report_within P rep"
  shows "prices_within P (apply_execution_report gw b rep ts)"
  using assms by (auto simp: apply_execution_report_def report_within_def Let_def intro!: prices_within_push)

lemma settle_within:
  assumes "gw_bounded T P M gw" "prices_within P b" "0 \<le> P" "report_within P rep"
  shows "case settle_submission gw tick b rep of (b', g) \<Rightarrow> gw_bounded T P M g \<and> prices_within P b'"
proof -
  let ?g = "gw\<lparr>active_order := (active_order gw)\<lparr>act_leaves_qty := rep_leaves_qty rep\<rparr>\<rparr>"
  have b: "prices_within P (apply_execution_report ?g b rep ts)" for ts
    using assms by (intro prices_within_report)
  have "gw_bounded T P M (h\<lparr>pending_new := (pending_new h)\<lparr>pend_active := False\<rparr>\<rparr>)" if "gw_bounded T P M h" for h
    using that by simp
  then show ?thesis
    using assms b by (auto simp: settle_submission_def Let_def simp del: gw_bounded_update(3) intro!: prices_within_push)
qed

lemma accept_pending_ok:
  assumes b: "gw_bounded T P M gw" and t: "tick_bounded T P tick" and p: "prices_within P bt"
  shows "ok (accept_pending gw tick bt) (\<lambda>(b', g). gw_bounded T P M g \<and> prices_within P b')"
proof -
  let ?r = "pend_request (pending_new gw)"
  have P: "0 \<le> P" using t by (simp add: tick_bounded_def)
  have p': "prices_within P (push_event bt (venue_event EvNewAck ts vid 0 0))" for ts vid
    using p P by (auto intro: prices_within_push)
  obtain rep sim where e: "submit_order (execution gw) tick \<lparr>req_side = gn_side ?r, req_quantity = gn_quantity ?r,
      req_limit_price = gn_limit_price ?r\<rparr> (gn_style ?r) = Some (rep, sim)" "sim_within T P M sim" "report_within P rep"
    using submit_within [OF gw_bounded_sel(1) [OF b] t, of "\<lparr>req_side = gn_side ?r, req_quantity = gn_quantity ?r,
      req_limit_price = gn_limit_price ?r\<rparr>" "gn_style ?r"] gw_bounded_sel(2-4) [OF b] by (auto simp: ok_iff)
  have "gw_bounded T P M (gw\<lparr>next_venue_order_id := n, active_order := ao, execution := sim\<rparr>)" for n ao
    using b e(2) by (intro gw_bounded_execution) simp_all
  from settle_within [OF this p' P e(3)] show ?thesis
    by (simp add: accept_pending_def Let_def e(1))
qed

lemma deliver_cancel_ok:
  assumes b: "gw_bounded T P M gw" and t: "tick_bounded T P tick" and p: "prices_within P bt" and m: "T + M \<le> INT64_MAX"
  shows "ok (deliver_cancel gw tick bt) (\<lambda>(ret, b', g). gw_bounded T P M g \<and> prices_within P b')"
proof -
  have P: "0 \<le> P" "\<bar>receive_ts_ns tick\<bar> \<le> T" using t by (simp_all add: tick_bounded_def)
  obtain x sim where e: "sim_request_cancel (execution gw) (receive_ts_ns tick) = Some (x, sim)" "sim_within T P M sim"
    using request_cancel_within [OF gw_bounded_sel(1) [OF b] P(2) m] by (auto simp: ok_iff)
  have "prices_within P (push_event bt (venue_event EvCancelReject ts vid 0 0))" for ts vid
    using p P by (auto intro: prices_within_push)
  then show ?thesis
    using b p e by (simp add: deliver_cancel_def Let_def ok_if)
qed

lemma advance_execution_ok:
  assumes i: "gw_inv gw" and b: "gw_bounded T P M gw" and t: "tick_bounded T P tick" and p: "prices_within P bt"
    and m: "2 * T \<le> INT64_MAX" "2 * P + M \<le> INT64_MAX"
  shows "ok (advance_execution gw tick bt) (\<lambda>(b', g). gw_bounded T P M g \<and> prices_within P b')"
proof -
  have sim: "sim_inv (execution gw)" using i by (simp add: gw_inv_def Let_def)
  obtain rep sim where e: "sim_on_tick (execution gw) tick = Some (rep, sim)" "sim_within T P M sim" "report_within P rep"
    using sim_on_tick_within [OF sim gw_bounded_sel(1) [OF b] t m] by (auto simp: ok_iff)
  have P: "0 \<le> P" using t by (simp add: tick_bounded_def)
  show ?thesis
    using b p e P by (simp add: advance_execution_def Let_def prices_within_report)
qed

lemma gateway_on_tick_ok:
  assumes i: "gw_inv gw" "gw_style st gw" and b: "gw_bounded T P M gw" and t: "tick_bounded T P tick"
    and m: "T + M \<le> INT64_MAX" "2 * T \<le> INT64_MAX" "2 * P + M \<le> INT64_MAX"
  shows "ok (gateway_on_tick gw tick) (\<lambda>(b, g). gw_bounded T P M g \<and> prices_within P b)"
proof -
  let ?p = "pending_new gw"
  let ?due = "pend_active ?p \<and> receive_ts_ns tick \<ge> pend_ack_ready_ts_ns ?p"
  have P: "0 \<le> P" using t by (simp add: tick_bounded_def)
  have e: "prices_within P empty_batch" by (simp add: prices_within_def)
  obtain b1 g1 where s1: "(if ?due then accept_pending gw tick empty_batch else Some (empty_batch, gw)) = Some (b1, g1)"
      "gw_bounded T P M g1" "prices_within P b1"
    using accept_pending_ok [OF b t e] b e by (cases ?due) (auto simp: ok_iff)
  have mid: "mid_tick st (gw_view gw) tick b1 g1"
    using s1(1) accept_pending_post [OF i, of tick] mid_tick_start [OF i, of tick] by (auto split: if_splits)
  obtain ret b2 g2 where s2: "deliver_cancel g1 tick b1 = Some (ret, b2, g2)" "gw_bounded T P M g2" "prices_within P b2"
    using deliver_cancel_ok [OF s1(2) t s1(3) m(1)] by (auto simp: ok_iff)
  have "gw_inv g2" if "\<not> ret"
    using postD [OF deliver_cancel_post [OF mid] s2(1)] that by (simp add: mid_tick_def tick_result_def)
  then have "ok (if ret then Some (b2, g2) else advance_execution g2 tick b2) (\<lambda>(b, g). gw_bounded T P M g \<and> prices_within P b)"
    using advance_execution_ok [OF _ s2(2) t s2(3) m(2,3)] s2 by simp
  moreover have "prices_within P (push_event empty_batch (venue_event EvNewReject ts 0 0 0))" for ts
    using e P by (auto intro: prices_within_push)
  ultimately show ?thesis
    using b unfolding gateway_on_tick_def Let_def s1(1) bind.simps prod.case s2(1) by simp
qed

lemma send_new_ok:
  assumes "gw_bounded T P M gw" "\<bar>gn_submit_ts_ns r\<bar> \<le> T" "T + M \<le> INT64_MAX"
    and "in_i32 (gn_quantity r)" "0 \<le> gn_limit_price r" "gn_limit_price r \<le> P"
  shows "ok (send_new gw r) (\<lambda>(acc, g). gw_bounded T P M g)"
  using assms in_i64_add [of "gn_submit_ts_ns r" T "new_ack_latency_ns gw" M]
  by (auto simp: send_new_def wp checked_defs gw_bounded_def Let_def)

lemma send_cancel_ok:
  assumes "gw_bounded T P M gw" "\<bar>ts\<bar> \<le> T" "T + M \<le> INT64_MAX"
  shows "ok (send_cancel gw ts) (\<lambda>(sent, g). gw_bounded T P M g)"
  using assms in_i64_add [of ts T "cancel_send_latency_ns gw" M]
  by (auto simp: send_cancel_def wp checked_defs gw_bounded_def Let_def)

lemma gw_bounded_default:
  assumes "0 \<le> T" "0 \<le> P" "PRICE_SCALE \<le> M" "1000 \<le> M"
  shows "gw_bounded T P M gateway_default"
  using assms by (simp add: gateway_default_def gateway_init_def gw_bounded_def sim_within_def sim_bounded_def
      simulator_default_def simulator_init_def PRICE_SCALE_def Let_def)

section \<open>Order of the events of a tick\<close>

definition extends :: "VenueEventBatch \<Rightarrow> VenueEventBatch \<Rightarrow> bool" where
  "extends b b' \<longleftrightarrow> (\<exists>evs. batch_events b' = batch_events b @ evs)"

lemma extends_refl [simp]: "extends b b"
  by (simp add: extends_def)

lemma extends_trans: "extends a b \<Longrightarrow> extends b c \<Longrightarrow> extends a c"
  by (auto simp: extends_def)

lemma extends_push [simp]: "extends a b \<Longrightarrow> extends a (push_event b e)"
  by (auto simp: extends_def push_event_def)

lemma extends_report [simp]: "extends b (apply_execution_report gw b rep ts)"
  by (simp add: apply_execution_report_def Let_def)

lemma extends_settle: "extends b (fst (settle_submission gw tick b rep))"
  by (simp add: settle_submission_def Let_def)

lemma extends_deliver: "post (deliver_cancel gw tick b) (\<lambda>(ret, b', g). extends b b')"
  by (auto simp: deliver_cancel_def Let_def post_if post_bind intro!: postI)

lemma extends_advance: "post (advance_execution gw tick b) (\<lambda>(b', g). extends b b')"
  by (auto simp: advance_execution_def Let_def post_if post_bind intro!: postI)

lemma accept_pending_ack_first:
  "post (accept_pending gw tick empty_batch) (\<lambda>(b, g). extends (ack_batch gw tick) b)"
  unfolding accept_pending_eq post_bind
  by (rule postI) (use extends_settle in \<open>auto simp: split_beta\<close>)

lemma gateway_acks_first:
  assumes "pend_active (pending_new gw)" "pend_ack_ready_ts_ns (pending_new gw) \<le> receive_ts_ns tick"
    and "\<not> pend_should_reject (pending_new gw)"
  shows "post (gateway_on_tick gw tick) (\<lambda>(b, g). extends (ack_batch gw tick) b)"
proof -
  have rest: "post (Option.bind (deliver_cancel g tick b) (\<lambda>(ret, b', g'). if ret then Some (b', g') else advance_execution g' tick b'))
      (\<lambda>(b', g'). extends (ack_batch gw tick) b')" if "extends (ack_batch gw tick) b" for b g
    unfolding post_bind
    by (rule post_mono [OF extends_deliver])
      (auto simp: post_if intro!: post_mono [OF extends_advance], (metis extends_trans that)+)
  have "post (Option.bind (accept_pending gw tick empty_batch)
      (\<lambda>(b, g). Option.bind (deliver_cancel g tick b) (\<lambda>(ret, b', g'). if ret then Some (b', g') else advance_execution g' tick b')))
      (\<lambda>(b', g'). extends (ack_batch gw tick) b')"
    unfolding post_bind [of "accept_pending gw tick empty_batch"]
    by (rule post_mono [OF accept_pending_ack_first]) (clarify, simp only: prod.case rest)
  then show ?thesis using assms by (simp add: gateway_on_tick_def)
qed

section \<open>Properties\<close>

text \<open>
  C22. On every tick the gateway's events follow the venue protocol from what the client
  could know before to what it can know after; the batch's four slots never overflow, and
  a tick carries at most three events and at most one fill.
\<close>

theorem gateway_tick_protocol:
  assumes "gw_inv gw" and "gw_style st gw" and "gateway_on_tick gw tick = Some (b, gw')"
  shows "view_steps st (gw_view gw) (batch_events b) (gw_view gw') \<and> gw_inv gw' \<and> gw_style st gw' \<and>
    batch_overflow_count b = 0 \<and> length (batch_events b) \<le> 3 \<and> length (filter is_fill (batch_events b)) \<le> 1 \<and>
    (\<forall>ev \<in> set (batch_events b). ev_ts_ns ev = receive_ts_ns tick)"
  using postD [OF gateway_on_tick_post [OF assms(1,2)] assms(3)] by (simp add: tick_result_def)

definition sample_request :: GatewayNewOrder where
  "sample_request = \<lparr>gn_client_order_id = 1, gn_side = Buy, gn_quantity = 50, gn_limit_price = 100000,
     gn_style = Aggressive, gn_submit_ts_ns = 1000\<rparr>"

definition sample_gateway :: MockVenueGateway where
  "sample_gateway = snd (the (send_new gateway_default sample_request))"

lemma sample_gateway_facts:
  "gw_inv sample_gateway" "gw_style Aggressive sample_gateway" "gw_view sample_gateway = VPending 1 Buy 50"
  unfolding sample_gateway_def by code_simp+

theorem gateway_tick_protocol_witness:
  "\<exists>b gw'. gateway_on_tick sample_gateway (sample_tick 2000 99900 100000 50 20) = Some (b, gw') \<and>
     map ev_type (batch_events b) = [EvNewAck, EvFill, EvExpired] \<and> gw_view gw' = VNone \<and>
     view_steps Aggressive (VPending 1 Buy 50) (batch_events b) VNone"
proof -
  have "ok (gateway_on_tick sample_gateway (sample_tick 2000 99900 100000 50 20))
      (\<lambda>(b, g). map ev_type (batch_events b) = [EvNewAck, EvFill, EvExpired] \<and> gw_view g = VNone)"
    unfolding sample_gateway_def by code_simp
  then obtain b g where r: "gateway_on_tick sample_gateway (sample_tick 2000 99900 100000 50 20) = Some (b, g)"
      "map ev_type (batch_events b) = [EvNewAck, EvFill, EvExpired]" "gw_view g = VNone"
    by (auto simp: ok_iff)
  then show ?thesis
    using gateway_tick_protocol [OF sample_gateway_facts(1,2) r(1)] by (auto simp: sample_gateway_facts(3))
qed

text \<open>
  C23. The answer to a new order: an order sent to an idle gateway stays pending, without
  any event, until its acknowledgement latency has passed; then an order whose client id
  is a multiple of three is rejected, and that is all that happens on the tick; any other
  order is acknowledged first, under the next venue order id.
\<close>

theorem gateway_new_order_answer:
  assumes "gw_inv gw" and "gw_view gw = VNone" and "0 < gn_quantity r"
    and "send_new gw r = Some (acc, g)" and "gateway_on_tick g tick = Some (b, g')"
  defines "ready \<equiv> gn_submit_ts_ns r + new_ack_latency_ns gw"
  shows "acc \<and>
    (if receive_ts_ns tick < ready
     then batch_events b = [] \<and> gw_view g' = VPending (gn_client_order_id r) (gn_side r) (gn_quantity r)
     else if gn_client_order_id r smod 3 = 0
     then batch_events b = [venue_event EvNewReject (receive_ts_ns tick) 0 0 0] \<and> gw_view g' = VNone
     else \<exists>evs. batch_events b = venue_event EvNewAck (receive_ts_ns tick) (next_venue_order_id gw) 0 0 # evs)"
proof -
  have idle: "\<not> pend_active (pending_new gw)" "\<not> act_active (active_order gw)"
      "\<not> rest_active (resting_order (execution gw))"
    using assms(1,2) by (auto simp: gw_view_none gw_inv_def Let_def)
  have g: "acc" "g = gw\<lparr>pending_new := \<lparr>pend_active = True, pend_request = r, pend_ack_ready_ts_ns = ready,
      pend_should_reject = (gn_client_order_id r smod 3 = 0)\<rparr>\<rparr>"
    using assms(3,4) idle by (auto simp: send_new_def ready_def Option.bind_eq_Some_conv checked_defs)
  show ?thesis
  proof (cases "receive_ts_ns tick < ready \<or> gn_client_order_id r smod 3 = 0")
    case True
    then show ?thesis
      using assms(5) idle g(1) by (auto simp: g(2) gateway_on_tick_def deliver_cancel_def advance_execution_def
          has_resting_order_def gw_view_def Let_def split: if_splits)
  next
    case False
    then show ?thesis
      using postD [OF gateway_acks_first [of g tick] assms(5)] g(1) by (auto simp: g(2) extends_def ack_batch_def)
  qed
qed

theorem gateway_new_order_answer_witness:
  "\<exists>b g'. gateway_on_tick (snd (the (send_new gateway_default (sample_request\<lparr>gn_client_order_id := 3\<rparr>))))
       (sample_tick 1200 99900 100000 50 20) = Some (b, g') \<and>
     batch_events b = [venue_event EvNewReject 1200 0 0 0] \<and> gw_view g' = VNone"
proof -
  let ?r = "sample_request\<lparr>gn_client_order_id := 3\<rparr>"
  let ?t = "sample_tick 1200 99900 100000 50 20"
  have "ok (send_new gateway_default ?r) (\<lambda>(acc, g). ok (gateway_on_tick g ?t) (\<lambda>_. True))"
    by code_simp
  then obtain acc g b g' where r: "send_new gateway_default ?r = Some (acc, g)" "gateway_on_tick g ?t = Some (b, g')"
    by (auto simp: ok_iff)
  have q: "0 < gn_quantity ?r" by (simp add: sample_request_def)
  have "gn_submit_ts_ns ?r + new_ack_latency_ns gateway_default = 1200" "gn_client_order_id ?r smod 3 = 0"
    by code_simp+
  then show ?thesis
    using gateway_new_order_answer [OF gw_inv_default(1,3) q r] r by (simp add: sample_tick_def)
qed

text \<open>
  C7. An order manager that is linked to the gateway can consume every batch: no
  event is ever for a wrong order, with an invalid id or an invalid quantity; only the
  outcome of a cancel can find the order in the wrong state, and with aggressive orders
  not even that. If every event applies, manager and venue still agree on whether an order
  is live.
\<close>

theorem gateway_batch_consumed:
  assumes "gw_inv gw" and "gw_style st gw" and "gateway_on_tick gw tick = Some (b, gw')"
    and "oms_inv od" and "linked st (gw_view gw) od"
  shows "ok (run_events on_venue_event od (batch_events b)) (\<lambda>(rs, fs, od'). oms_inv od' \<and>
    linked st (gw_view gw') od' \<and> list_all2 benign (batch_events b) rs \<and>
    (agree (gw_view gw) od \<and> set rs \<subseteq> {Applied} \<longrightarrow> agree (gw_view gw') od') \<and>
    (st = Aggressive \<longrightarrow> set rs \<subseteq> {Applied}))"
  using venue.batch_consumed [of gw st, OF _ assms(3-5)] assms(1,2) by simp

theorem gateway_batch_consumed_witness:
  "\<exists>b gw'. gateway_on_tick sample_gateway (sample_tick 2000 99900 100000 50 20) = Some (b, gw') \<and>
     ok (run_events on_venue_event (snd (submit_new idle_order 1 Buy 100000 50)) (batch_events b))
       (\<lambda>(rs, fs, od'). oms_inv od' \<and> set rs \<subseteq> {Applied})"
proof -
  let ?od = "snd (submit_new idle_order 1 Buy 100000 50)"
  have "ok (gateway_on_tick sample_gateway (sample_tick 2000 99900 100000 50 20)) (\<lambda>_. True)"
    unfolding sample_gateway_def by code_simp
  then obtain b g where r: "gateway_on_tick sample_gateway (sample_tick 2000 99900 100000 50 20) = Some (b, g)"
    by (auto simp: ok_iff)
  have od: "oms_inv ?od" "linked Aggressive (gw_view sample_gateway) ?od"
    unfolding sample_gateway_facts(3) by code_simp+
  show ?thesis
    using r ok_mono [OF gateway_batch_consumed [OF sample_gateway_facts(1,2) r od]] by auto
qed

end
