(* ===== verification/Spsc_Ring_Buffer.thy ===== *)
theory Spsc_Ring_Buffer
  imports Kernel_Types
begin

text \<open>
  The single-producer single-consumer ring buffer of \<^verbatim>\<open>include/spsc_ring_buffer.h\<close>,
  twice. First as a sequential object: \<open>try_push\<close>, \<open>try_pop\<close> and \<open>ring_empty\<close> as
  functions on the indices and the slots, with the contract of a bounded queue. Then as
  the concurrent program it is: one step per shared-memory access, with the two atomic
  cursors given by their modification orders, so that an acquire load may return any
  value from the last one the thread has seen to the newest (a thread always sees its own
  stores). Payload accesses are plain; that they never race is proved. Indices are natural
  numbers: they stay below the number of slots.
\<close>

section \<open>The sequential object\<close>

record 'a SpscRingBuffer =
  ring_capacity :: nat
  ring_buffer :: "'a list"
  ring_head :: nat
  ring_tail :: nat

definition ring_init :: "'a \<Rightarrow> nat \<Rightarrow> 'a SpscRingBuffer" where
  "ring_init initial capacity = \<lparr>ring_capacity = capacity + 1, ring_buffer = replicate (capacity + 1) initial,
     ring_head = 0, ring_tail = 0\<rparr>"

definition ring_increment :: "'a SpscRingBuffer \<Rightarrow> nat \<Rightarrow> nat" where
  "ring_increment r index = (index + 1) mod ring_capacity r"

definition try_push :: "'a SpscRingBuffer \<Rightarrow> 'a \<Rightarrow> bool \<times> 'a SpscRingBuffer" where
  "try_push r v =
     (let head = ring_head r; next_head = ring_increment r head
      in if next_head = ring_tail r then (False, r)
         else (True, r\<lparr>ring_buffer := (ring_buffer r)[head := v], ring_head := next_head\<rparr>))"

definition try_pop :: "'a SpscRingBuffer \<Rightarrow> 'a option \<times> 'a SpscRingBuffer" where
  "try_pop r =
     (let tail = ring_tail r
      in if tail = ring_head r then (None, r)
         else (Some (ring_buffer r ! tail), r\<lparr>ring_tail := ring_increment r tail\<rparr>))"

definition ring_empty :: "'a SpscRingBuffer \<Rightarrow> bool" where
  "ring_empty r = (ring_head r = ring_tail r)"

definition ring_usable :: "'a SpscRingBuffer \<Rightarrow> nat" where
  "ring_usable r = ring_capacity r - 1"

text \<open>The queue a ring stands for.\<close>

definition ring_inv :: "'a SpscRingBuffer \<Rightarrow> bool" where
  "ring_inv r \<longleftrightarrow> length (ring_buffer r) = ring_capacity r \<and> ring_head r < ring_capacity r \<and> ring_tail r < ring_capacity r"

definition ring_size :: "'a SpscRingBuffer \<Rightarrow> nat" where
  "ring_size r = (if ring_tail r \<le> ring_head r then ring_head r - ring_tail r
     else ring_head r + ring_capacity r - ring_tail r)"

definition ring_contents :: "'a SpscRingBuffer \<Rightarrow> 'a list" where
  "ring_contents r = map (\<lambda>i. ring_buffer r ! ((ring_tail r + i) mod ring_capacity r)) [0..<ring_size r]"

lemma ring_inv_init [simp]: "ring_inv (ring_init d c)" "ring_contents (ring_init d c) = []" "ring_usable (ring_init d c) = c"
  by (simp_all add: ring_inv_def ring_init_def ring_contents_def ring_size_def ring_usable_def)

lemma length_ring_contents [simp]: "length (ring_contents r) = ring_size r"
  by (simp add: ring_contents_def)

lemma ring_empty_iff: "ring_inv r \<Longrightarrow> ring_empty r \<longleftrightarrow> ring_contents r = []"
  by (auto simp: ring_empty_def ring_contents_def ring_size_def ring_inv_def)

lemma increment_cases:
  assumes "i < (c::nat)" shows "(i + 1) mod c = (if i + 1 = c then 0 else i + 1)"
  using assms by auto

lemma mod_index_cases:
  assumes "i < c" "j < (c::nat)" shows "(i + j) mod c = (if i + j < c then i + j else i + j - c)"
  using assms by (simp add: mod_if)

lemma push_spec:
  assumes inv: "ring_inv r" and push: "try_push r v = (b, r')"
  shows "ring_inv r' \<and> ring_usable r' = ring_usable r \<and> b = (ring_size r < ring_usable r) \<and>
    ring_contents r' = (if b then ring_contents r @ [v] else ring_contents r)"
proof -
  let ?c = "ring_capacity r"
  have c: "ring_head r < ?c" "ring_tail r < ?c" "length (ring_buffer r) = ?c" using inv by (auto simp: ring_inv_def)
  have full: "ring_increment r (ring_head r) = ring_tail r \<longleftrightarrow> \<not> ring_size r < ring_usable r"
    using c unfolding ring_increment_def increment_cases [OF c(1)] by (auto simp: ring_size_def ring_usable_def)
  show ?thesis
  proof (cases b)
    case True
    then have r': "r' = r\<lparr>ring_buffer := (ring_buffer r)[ring_head r := v], ring_head := ring_increment r (ring_head r)\<rparr>"
        and room: "ring_size r < ring_usable r"
      using push full by (auto simp: try_push_def Let_def split: if_splits)
    have size: "ring_size r' = Suc (ring_size r)"
      using c room unfolding r' ring_increment_def increment_cases [OF c(1)] by (auto simp: ring_size_def ring_usable_def)
    have head: "(ring_tail r + ring_size r) mod ?c = ring_head r" using c by (auto simp: ring_size_def)
    have other: "(ring_tail r + i) mod ?c \<noteq> ring_head r" if "i < ring_size r" for i
    proof -
      have "i < ?c" using that c by (auto simp: ring_size_def split: if_splits)
      with that c show ?thesis unfolding mod_index_cases [OF c(2) \<open>i < ?c\<close>] by (auto simp: ring_size_def split: if_splits)
    qed
    have "ring_contents r' = ring_contents r @ [v]"
      unfolding ring_contents_def size using c(1,3) head not_sym [OF other] by (auto simp: r')
    moreover have "ring_inv r'" using c by (auto simp: r' ring_inv_def ring_increment_def)
    ultimately show ?thesis using True room by (simp add: r' ring_usable_def)
  next
    case False
    then show ?thesis using push full inv by (auto simp: try_push_def Let_def split: if_splits)
  qed
qed

lemma pop_spec:
  assumes inv: "ring_inv r" and pop: "try_pop r = (x, r')"
  shows "ring_inv r' \<and> ring_usable r' = ring_usable r \<and>
    (case ring_contents r of [] \<Rightarrow> x = None \<and> r' = r | y # ys \<Rightarrow> x = Some y \<and> ring_contents r' = ys)"
proof (cases "ring_tail r = ring_head r")
  case True
  then show ?thesis using inv pop by (simp add: try_pop_def ring_contents_def ring_size_def)
next
  case False
  let ?c = "ring_capacity r"
  have c: "ring_head r < ?c" "ring_tail r < ?c" "length (ring_buffer r) = ?c" using inv by (auto simp: ring_inv_def)
  have r': "x = Some (ring_buffer r ! ring_tail r)" "r' = r\<lparr>ring_tail := ring_increment r (ring_tail r)\<rparr>"
    using pop False by (auto simp: try_pop_def Let_def)
  have size: "ring_size r = Suc (ring_size r')"
    using c False unfolding r' ring_increment_def increment_cases [OF c(2)] by (auto simp: ring_size_def)
  have "(ring_tail r' + i) mod ?c = (ring_tail r + Suc i) mod ?c" for i
    by (simp add: r' ring_increment_def mod_simps)
  then have "ring_contents r = ring_buffer r ! ring_tail r # ring_contents r'"
    unfolding ring_contents_def size using c(2) by (simp add: upt_conv_Cons map_Suc_upt [symmetric] r' del: upt_Suc)
  moreover have "ring_inv r'" using c by (auto simp: r' ring_inv_def ring_increment_def)
  ultimately show ?thesis by (simp add: r' ring_usable_def)
qed

section \<open>The contract of a bounded queue\<close>

datatype 'a queue_op = Push 'a | Pop

fun run_queue :: "('q \<Rightarrow> 'a \<Rightarrow> bool \<times> 'q) \<Rightarrow> ('q \<Rightarrow> 'a option \<times> 'q) \<Rightarrow> 'q \<Rightarrow> 'a queue_op list \<Rightarrow> 'a list \<times> 'a list \<times> 'q" where
  "run_queue push pop q [] = ([], [], q)"
| "run_queue push pop q (Push v # ops) =
     (let (b, q') = push q v; (ins, outs, q'') = run_queue push pop q' ops
      in (if b then v # ins else ins, outs, q''))"
| "run_queue push pop q (Pop # ops) =
     (let (x, q') = pop q; (ins, outs, q'') = run_queue push pop q' ops
      in (ins, (case x of None \<Rightarrow> outs | Some v \<Rightarrow> v # outs), q''))"

locale bounded_fifo =
  fixes wf :: "'q \<Rightarrow> bool"
    and cap :: "'q \<Rightarrow> nat"
    and contents :: "'q \<Rightarrow> 'a list"
    and push :: "'q \<Rightarrow> 'a \<Rightarrow> bool \<times> 'q"
    and pop :: "'q \<Rightarrow> 'a option \<times> 'q"
  assumes push_law: "wf q \<Longrightarrow> push q v = (b, q') \<Longrightarrow> wf q' \<and> cap q' = cap q \<and>
      b = (length (contents q) < cap q) \<and> contents q' = (if b then contents q @ [v] else contents q)"
    and pop_law: "wf q \<Longrightarrow> pop q = (x, q') \<Longrightarrow> wf q' \<and> cap q' = cap q \<and>
      (case contents q of [] \<Rightarrow> x = None \<and> q' = q | y # ys \<Rightarrow> x = Some y \<and> contents q' = ys)"
begin

lemma fifo_run:
  assumes "wf q" "run_queue push pop q ops = (ins, outs, q')"
  shows "wf q' \<and> cap q' = cap q \<and> contents q @ ins = outs @ contents q' \<and>
    (length (contents q) \<le> cap q \<longrightarrow> length (contents q') \<le> cap q)"
  using assms
proof (induction ops arbitrary: q ins outs)
  case (Cons op ops)
  show ?case
  proof (cases op)
    case (Push v)
    obtain b p where e: "push q v = (b, p)" by fastforce
    obtain xs ys where r: "run_queue push pop p ops = (xs, ys, q')" "ins = (if b then v # xs else xs)" "outs = ys"
      using Cons.prems(2) Push e by (auto split: prod.splits)
    from push_law [OF Cons.prems(1) e] Cons.IH [OF _ r(1)] r(2,3) show ?thesis by (cases b) auto
  next
    case Pop
    obtain x p where e: "pop q = (x, p)" by fastforce
    obtain xs ys where r: "run_queue push pop p ops = (xs, ys, q')" "ins = xs"
        "outs = (case x of None \<Rightarrow> ys | Some v \<Rightarrow> v # ys)"
      using Cons.prems(2) Pop e by (auto split: prod.splits)
    from pop_law [OF Cons.prems(1) e] Cons.IH [OF _ r(1)] r(2,3) show ?thesis
      by (cases "contents q") auto
  qed
qed simp

lemma no_drop:
  assumes "wf q" "run_queue push pop q (map Push vs) = (ins, outs, q')"
    and "length (contents q) + length vs \<le> cap q"
  shows "ins = vs"
  using assms
proof (induction vs arbitrary: q ins outs)
  case (Cons v vs)
  obtain b q1 where e: "push q v = (b, q1)" by fastforce
  from push_law [OF Cons.prems(1) e] Cons.prems(3)
  have "b" "wf q1" "length (contents q1) + length vs \<le> cap q1" by auto
  with Cons.IH [of q1] Cons.prems(2) e show ?case by (auto split: prod.splits)
qed simp

end

interpretation ring: bounded_fifo ring_inv ring_usable ring_contents try_push try_pop
  by unfold_locales (use push_spec in fastforce, use pop_spec in blast)

section \<open>The concurrent program\<close>

text \<open>
  The producer's and the consumer's position in \<^verbatim>\<open>try_push\<close> and \<^verbatim>\<open>try_pop\<close>, with the
  local variables that are live there: after the relaxed load of the own cursor, after
  the acquire load of the other one, after the payload access.
\<close>

datatype 'a producer_pc = PIdle | PLoaded 'a nat | PChecked 'a nat | PWritten 'a nat

datatype 'a consumer_pc = CIdle | CLoaded nat | CChecked nat | CRead nat 'a

text \<open>
  Each atomic cursor is its modification order, the list of the values stored so far.
  \<open>producer_seen\<close> and \<open>consumer_seen\<close> are the positions in the other thread's order up to
  which a thread has synchronised. The two logs record the values published and taken.
\<close>

record 'a spsc_state =
  sp_capacity :: nat
  sp_buffer :: "'a list"
  head_order :: "nat list"
  tail_order :: "nat list"
  producer :: "'a producer_pc"
  consumer :: "'a consumer_pc"
  producer_seen :: nat
  consumer_seen :: nat
  published :: "'a list"
  taken :: "'a list"

definition spsc_start :: "'a \<Rightarrow> nat \<Rightarrow> 'a spsc_state" where
  "spsc_start initial capacity = \<lparr>sp_capacity = capacity + 1, sp_buffer = replicate (capacity + 1) initial,
     head_order = [0], tail_order = [0], producer = PIdle, consumer = CIdle,
     producer_seen = 0, consumer_seen = 0, published = [], taken = []\<rparr>"

inductive spsc_step :: "'a spsc_state \<Rightarrow> 'a spsc_state \<Rightarrow> bool" where
  push_begin: "producer s = PIdle \<Longrightarrow>
    spsc_step s (s\<lparr>producer := PLoaded v (last (head_order s))\<rparr>)"
| push_full: "producer s = PLoaded v head \<Longrightarrow> producer_seen s \<le> i \<Longrightarrow> i < length (tail_order s) \<Longrightarrow>
    (head + 1) mod sp_capacity s = tail_order s ! i \<Longrightarrow>
    spsc_step s (s\<lparr>producer := PIdle, producer_seen := i\<rparr>)"
| push_room: "producer s = PLoaded v head \<Longrightarrow> producer_seen s \<le> i \<Longrightarrow> i < length (tail_order s) \<Longrightarrow>
    (head + 1) mod sp_capacity s \<noteq> tail_order s ! i \<Longrightarrow>
    spsc_step s (s\<lparr>producer := PChecked v head, producer_seen := i\<rparr>)"
| push_write: "producer s = PChecked v head \<Longrightarrow>
    spsc_step s (s\<lparr>producer := PWritten v head, sp_buffer := (sp_buffer s)[head := v]\<rparr>)"
| push_publish: "producer s = PWritten v head \<Longrightarrow>
    spsc_step s (s\<lparr>producer := PIdle, head_order := head_order s @ [(head + 1) mod sp_capacity s],
      published := published s @ [v]\<rparr>)"
| pop_begin: "consumer s = CIdle \<Longrightarrow>
    spsc_step s (s\<lparr>consumer := CLoaded (last (tail_order s))\<rparr>)"
| pop_empty: "consumer s = CLoaded tail \<Longrightarrow> consumer_seen s \<le> i \<Longrightarrow> i < length (head_order s) \<Longrightarrow>
    tail = head_order s ! i \<Longrightarrow>
    spsc_step s (s\<lparr>consumer := CIdle, consumer_seen := i\<rparr>)"
| pop_ready: "consumer s = CLoaded tail \<Longrightarrow> consumer_seen s \<le> i \<Longrightarrow> i < length (head_order s) \<Longrightarrow>
    tail \<noteq> head_order s ! i \<Longrightarrow>
    spsc_step s (s\<lparr>consumer := CChecked tail, consumer_seen := i\<rparr>)"
| pop_read: "consumer s = CChecked tail \<Longrightarrow>
    spsc_step s (s\<lparr>consumer := CRead tail (sp_buffer s ! tail)\<rparr>)"
| pop_release: "consumer s = CRead tail v \<Longrightarrow>
    spsc_step s (s\<lparr>consumer := CIdle, tail_order := tail_order s @ [(tail + 1) mod sp_capacity s],
      taken := taken s @ [v]\<rparr>)"

inductive spsc_reach :: "'a \<Rightarrow> nat \<Rightarrow> 'a spsc_state \<Rightarrow> bool" for initial capacity where
  start: "spsc_reach initial capacity (spsc_start initial capacity)"
| step: "spsc_reach initial capacity s \<Longrightarrow> spsc_step s s' \<Longrightarrow> spsc_reach initial capacity s'"

text \<open>
  With \<open>p\<close> values published and \<open>c\<close> taken the cursors are \<open>p\<close> and \<open>c\<close> modulo the number
  of slots, the slots between them hold the published values not yet taken, and each
  thread's knowledge of the other is a lower bound that keeps it out of the other's slots.
\<close>

definition cyclic :: "nat \<Rightarrow> nat \<Rightarrow> nat list" where
  "cyclic n k = map (\<lambda>i. i mod n) [0..<Suc k]"

definition producer_ok :: "'a spsc_state \<Rightarrow> bool" where
  "producer_ok s \<longleftrightarrow> (let p = length (published s); n = sp_capacity s in
     case producer s of PIdle \<Rightarrow> True
     | PLoaded v head \<Rightarrow> head = p mod n
     | PChecked v head \<Rightarrow> head = p mod n \<and> p + 1 < producer_seen s + n
     | PWritten v head \<Rightarrow> head = p mod n \<and> p + 1 < producer_seen s + n \<and> sp_buffer s ! head = v)"

definition consumer_ok :: "'a spsc_state \<Rightarrow> bool" where
  "consumer_ok s \<longleftrightarrow> (let c = length (taken s); n = sp_capacity s in
     case consumer s of CIdle \<Rightarrow> True
     | CLoaded tail \<Rightarrow> tail = c mod n
     | CChecked tail \<Rightarrow> tail = c mod n \<and> c < consumer_seen s
     | CRead tail v \<Rightarrow> tail = c mod n \<and> c < consumer_seen s \<and> v = published s ! c)"

definition spsc_inv :: "nat \<Rightarrow> 'a spsc_state \<Rightarrow> bool" where
  "spsc_inv capacity s \<longleftrightarrow> (let p = length (published s); c = length (taken s); n = sp_capacity s in
     n = capacity + 1 \<and> length (sp_buffer s) = n \<and> head_order s = cyclic n p \<and> tail_order s = cyclic n c \<and>
     taken s = take c (published s) \<and>
     producer_seen s \<le> c \<and> c \<le> consumer_seen s \<and> consumer_seen s \<le> p \<and> p < producer_seen s + n \<and>
     (\<forall>k. c \<le> k \<and> k < p \<longrightarrow> sp_buffer s ! (k mod n) = published s ! k) \<and>
     producer_ok s \<and> consumer_ok s)"

lemma cyclic_basics [simp]:
  "length (cyclic n k) = Suc k" "last (cyclic n k) = k mod n" "i \<le> k \<Longrightarrow> cyclic n k ! i = i mod n"
  "cyclic n k @ [Suc (k mod n) mod n] = cyclic n (Suc k)"
  by (simp_all add: cyclic_def mod_simps del: upt_Suc) (simp_all add: mod_simps)

lemma cyclic_distinct: "a < b \<Longrightarrow> b < a + n \<Longrightarrow> a mod n \<noteq> b mod (n::nat)"
  by (metis add_diff_cancel_left' less_imp_add_positive mod_eq_dvd_iff_nat nat_dvd_not_less less_imp_le nat_add_left_cancel_less)

lemma spsc_inv_start: "spsc_inv capacity (spsc_start initial capacity)"
  by (simp add: spsc_inv_def spsc_start_def cyclic_def producer_ok_def consumer_ok_def)

lemma spsc_invI:
  assumes "sp_capacity s = capacity + 1" "length (sp_buffer s) = sp_capacity s"
    "head_order s = cyclic (sp_capacity s) (length (published s))"
    "tail_order s = cyclic (sp_capacity s) (length (taken s))"
    "taken s = take (length (taken s)) (published s)" "producer_seen s \<le> length (taken s)"
    "length (taken s) \<le> consumer_seen s" "consumer_seen s \<le> length (published s)"
    "length (published s) < producer_seen s + sp_capacity s"
    "\<And>k. length (taken s) \<le> k \<Longrightarrow> k < length (published s) \<Longrightarrow> sp_buffer s ! (k mod sp_capacity s) = published s ! k"
    "producer_ok s" "consumer_ok s"
  shows "spsc_inv capacity s"
  using assms unfolding spsc_inv_def Let_def by blast

lemma spsc_invD:
  assumes "spsc_inv capacity s"
  shows "sp_capacity s = capacity + 1" "length (sp_buffer s) = sp_capacity s"
    "head_order s = cyclic (sp_capacity s) (length (published s))"
    "tail_order s = cyclic (sp_capacity s) (length (taken s))"
    "taken s = take (length (taken s)) (published s)" "producer_seen s \<le> length (taken s)"
    "length (taken s) \<le> consumer_seen s" "consumer_seen s \<le> length (published s)"
    "length (published s) < producer_seen s + sp_capacity s"
    "\<And>k. length (taken s) \<le> k \<Longrightarrow> k < length (published s) \<Longrightarrow> sp_buffer s ! (k mod sp_capacity s) = published s ! k"
    "producer_ok s" "consumer_ok s"
  using assms unfolding spsc_inv_def Let_def by blast+

lemmas pc_ok_defs = producer_ok_def consumer_ok_def Let_def

text \<open>A producer that sees room one slot before the consumer's last known position has room.\<close>

lemma room_bound:
  assumes "(p + 1) mod n \<noteq> j mod n" "p < q + n" "q \<le> j"
  shows "p + 1 < j + (n::nat)"
proof -
  have "p + 1 \<noteq> j + n" using assms(1) by (metis mod_add_self2)
  then show ?thesis using assms(2,3) by linarith
qed

lemma producer_step:
  assumes inv: "spsc_inv capacity s"
    and frame: "sp_capacity s' = sp_capacity s" "tail_order s' = tail_order s" "taken s' = taken s"
      "consumer s' = consumer s" "consumer_seen s' = consumer_seen s" "published s' = published s"
      "head_order s' = head_order s" "length (sp_buffer s') = length (sp_buffer s)"
    and seen: "producer_seen s \<le> producer_seen s'" "producer_seen s' \<le> length (taken s)"
    and data: "\<And>k. length (taken s) \<le> k \<Longrightarrow> k < length (published s) \<Longrightarrow>
      sp_buffer s' ! (k mod sp_capacity s) = sp_buffer s ! (k mod sp_capacity s)"
    and ok: "producer_ok s'"
  shows "spsc_inv capacity s'"
proof (rule spsc_invI)
  note i = spsc_invD [OF inv]
  show "consumer_ok s'" using i(12) unfolding consumer_ok_def frame(1,3-6) .
  show "length (published s') < producer_seen s' + sp_capacity s'" using i(9) seen frame by simp
  show "sp_buffer s' ! (k mod sp_capacity s') = published s' ! k"
    if "length (taken s') \<le> k" "k < length (published s')" for k
    using that i(10) data frame by simp
qed (use spsc_invD [OF inv] frame seen ok in simp_all)

lemma consumer_step:
  assumes inv: "spsc_inv capacity s"
    and frame: "sp_capacity s' = sp_capacity s" "head_order s' = head_order s" "published s' = published s"
      "producer s' = producer s" "producer_seen s' = producer_seen s" "taken s' = taken s"
      "tail_order s' = tail_order s" "sp_buffer s' = sp_buffer s"
    and seen: "consumer_seen s \<le> consumer_seen s'" "consumer_seen s' \<le> length (published s)"
    and ok: "consumer_ok s'"
  shows "spsc_inv capacity s'"
proof (rule spsc_invI)
  note i = spsc_invD [OF inv]
  show "producer_ok s'" using i(11) unfolding producer_ok_def frame(1,3-5,8) .
  show "sp_buffer s' ! (k mod sp_capacity s') = published s' ! k"
    if "length (taken s') \<le> k" "k < length (published s')" for k
    using that i(10) frame by simp
qed (use spsc_invD [OF inv] frame seen ok in simp_all)

text \<open>The two steps that hand a slot over: the publication of a value and the release of a slot.\<close>

lemma spsc_inv_publish:
  assumes inv: "spsc_inv capacity s" and pc: "producer s = PWritten v head"
  shows "spsc_inv capacity (s\<lparr>producer := PIdle, head_order := head_order s @ [(head + 1) mod sp_capacity s],
    published := published s @ [v]\<rparr>)" (is "spsc_inv _ ?s")
proof (rule spsc_invI)
  note i = spsc_invD [OF inv]
  have head: "head = length (published s) mod sp_capacity s" "length (published s) + 1 < producer_seen s + sp_capacity s"
      "sp_buffer s ! head = v"
    using i(11) pc by (auto simp: pc_ok_defs)
  show "consumer_ok ?s" using i(8,12) by (auto simp: pc_ok_defs nth_append split: consumer_pc.splits)
  show "sp_buffer ?s ! (k mod sp_capacity ?s) = published ?s ! k" if "length (taken ?s) \<le> k" "k < length (published ?s)" for k
    using that i(10) [of k] head by (auto simp: nth_append less_Suc_eq)
qed (use spsc_invD [OF inv] pc in \<open>simp_all add: pc_ok_defs\<close>)

lemma spsc_inv_release:
  assumes inv: "spsc_inv capacity s" and pc: "consumer s = CRead tail v"
  shows "spsc_inv capacity (s\<lparr>consumer := CIdle, tail_order := tail_order s @ [(tail + 1) mod sp_capacity s],
    taken := taken s @ [v]\<rparr>)" (is "spsc_inv _ ?s")
proof (rule spsc_invI)
  note i = spsc_invD [OF inv]
  have tail: "tail = length (taken s) mod sp_capacity s" "length (taken s) < consumer_seen s" "v = published s ! length (taken s)"
    using i(12) pc by (auto simp: pc_ok_defs)
  show "producer_ok ?s" using i(11) by (auto simp: pc_ok_defs split: producer_pc.splits)
  show "taken ?s = take (length (taken ?s)) (published ?s)"
    using i(5,8) tail by (simp add: take_Suc_conv_app_nth)
  show "sp_buffer ?s ! (k mod sp_capacity ?s) = published ?s ! k" if "length (taken ?s) \<le> k" "k < length (published ?s)" for k
    using that i(10) [of k] by simp
qed (use spsc_invD [OF inv] pc in \<open>simp_all add: pc_ok_defs\<close>)

lemma spsc_inv_step:
  assumes inv: "spsc_inv capacity s" and step: "spsc_step s s'"
  shows "spsc_inv capacity s'"
proof -
  let ?p = "length (published s)" and ?c = "length (taken s)" and ?n = "sp_capacity s"
  note i = spsc_invD [OF inv]
  from step show ?thesis
  proof cases
    case (push_begin v)
    then show ?thesis using i by (intro producer_step [OF inv]) (simp_all add: producer_ok_def)
  next
    case (push_full v head j)
    then show ?thesis using i by (intro producer_step [OF inv]) (simp_all add: producer_ok_def)
  next
    case (push_room v head j)
    have head: "head = ?p mod ?n" using i(11) push_room(2) by (simp add: pc_ok_defs)
    have j: "j \<le> ?c" using push_room(4) i(4) by simp
    have "?p + 1 < j + ?n"
      using room_bound [OF _ i(9) push_room(3)] push_room(5) i(4) j head by (simp add: mod_simps)
    then show ?thesis using push_room j head i by (intro producer_step [OF inv]) (simp_all add: pc_ok_defs)
  next
    case (push_write v head)
    have head: "head = ?p mod ?n" "?p + 1 < producer_seen s + ?n"
      using i(11) push_write(2) by (simp_all add: pc_ok_defs)
    have "?p mod ?n \<noteq> k mod ?n" if "?c \<le> k" "k < ?p" for k
      using cyclic_distinct [OF that(2), of ?n] head(2) i(6) that(1) by auto
    then show ?thesis
      using push_write head i by (intro producer_step [OF inv]) (simp_all add: pc_ok_defs)
  next
    case (push_publish v head)
    then show ?thesis using spsc_inv_publish [OF inv] by simp
  next
    case pop_begin
    then show ?thesis using i by (intro consumer_step [OF inv]) (simp_all add: consumer_ok_def)
  next
    case (pop_empty tail j)
    then show ?thesis using i by (intro consumer_step [OF inv]) (simp_all add: consumer_ok_def)
  next
    case (pop_ready tail j)
    have tail: "tail = ?c mod ?n" using i(12) pop_ready(2) by (simp add: pc_ok_defs)
    moreover have j: "j \<le> ?p" using pop_ready(4) i(3) by simp
    ultimately have "?c \<noteq> j" using pop_ready(5) i(3) by auto
    then have "?c < j" using i(7) pop_ready(3) by linarith
    then show ?thesis using pop_ready j tail i by (intro consumer_step [OF inv]) (simp_all add: pc_ok_defs)
  next
    case (pop_read tail)
    have "tail = ?c mod ?n" "?c < consumer_seen s" using i(12) pop_read(2) by (simp_all add: pc_ok_defs)
    then show ?thesis using pop_read i(8) i(10) [of ?c] by (intro consumer_step [OF inv]) (simp_all add: pc_ok_defs)
  next
    case (pop_release tail v)
    then show ?thesis using spsc_inv_release [OF inv] by simp
  qed
qed

lemma spsc_reach_inv: "spsc_reach initial capacity s \<Longrightarrow> spsc_inv capacity s"
  by (induction rule: spsc_reach.induct) (auto intro: spsc_inv_start spsc_inv_step)

section \<open>Properties\<close>

text \<open>
  C24. Used sequentially the ring is a bounded first-in first-out queue: whatever is
  pushed and popped, the values popped followed by those still stored are the values
  stored at the start followed by those accepted, and never more than the capacity is
  stored.
\<close>

theorem ring_is_fifo:
  assumes "run_queue try_push try_pop (ring_init d capacity) ops = (ins, outs, r)"
  shows "outs @ ring_contents r = ins \<and> ring_inv r \<and> ring_size r \<le> capacity"
  using ring.fifo_run [OF ring_inv_init(1) assms] by (auto simp flip: length_ring_contents)

theorem ring_is_fifo_witness:
  "\<exists>r. run_queue try_push try_pop (ring_init (0::int) 2) [Push 1, Push 2, Push 3, Pop, Push 4, Pop] = ([1, 2, 4], [1, 2], r) \<and>
     ring_contents r = [4]"
proof -
  have "fst (run_queue try_push try_pop (ring_init (0::int) 2) [Push 1, Push 2, Push 3, Pop, Push 4, Pop]) = [1, 2, 4]"
    "fst (snd (run_queue try_push try_pop (ring_init (0::int) 2) [Push 1, Push 2, Push 3, Pop, Push 4, Pop])) = [1, 2]"
    by code_simp+
  then obtain r where "run_queue try_push try_pop (ring_init (0::int) 2) [Push 1, Push 2, Push 3, Pop, Push 4, Pop] = ([1, 2, 4], [1, 2], r)"
    by (metis prod.collapse)
  from ring_is_fifo [OF this] this show ?thesis by auto
qed

text \<open>
  C25. Under every interleaving of the producer's and the consumer's memory accesses, with
  stale acquire loads allowed, the consumer takes the published values in order, each
  once, and at most the capacity of values is in flight.
\<close>

theorem spsc_concurrent_fifo:
  assumes "spsc_reach initial capacity s"
  shows "taken s = take (length (taken s)) (published s) \<and> length (published s) \<le> length (taken s) + capacity"
  using spsc_invD(1,5,6,9) [OF spsc_reach_inv [OF assms]] by simp

text \<open>
  C26. Payload accesses never race: when the producer is about to write a slot or has
  written one it has not published, and the consumer is about to read one, the slots are
  different, and both are slots of the buffer.
\<close>

theorem spsc_race_free:
  assumes "spsc_reach initial capacity s" and "producer s = PChecked v head \<or> producer s = PWritten v head"
    and "consumer s = CChecked tail"
  shows "head \<noteq> tail \<and> head < length (sp_buffer s) \<and> tail < length (sp_buffer s)"
proof -
  note i = spsc_invD [OF spsc_reach_inv [OF assms(1)]]
  have "head = length (published s) mod sp_capacity s" using i(11) assms(2) by (auto simp: pc_ok_defs)
  moreover have "tail = length (taken s) mod sp_capacity s" "length (taken s) < length (published s)"
    using i(8,12) assms(3) by (simp_all add: pc_ok_defs)
  moreover have "length (published s) < length (taken s) + sp_capacity s" using i(6,9) by simp
  ultimately show ?thesis
    using cyclic_distinct [of "length (taken s)" "length (published s)" "sp_capacity s"] i(1,2) by auto
qed

text \<open>A run that publishes one value, then writes a second one while the consumer has checked the first.\<close>

definition sample_spsc :: "int spsc_state" where
  "sample_spsc = \<lparr>sp_capacity = 3, sp_buffer = [7, 8, 0], head_order = [0, 1], tail_order = [0],
     producer = PWritten 8 1, consumer = CChecked 0, producer_seen = 0, consumer_seen = 1,
     published = [7], taken = []\<rparr>"

lemma sample_spsc_reach: "spsc_reach 0 2 sample_spsc"
proof -
  let ?s = "spsc_start (0::int) 2"
  let ?b = "?s\<lparr>sp_buffer := [7, 0, 0], head_order := [0, 1], published := [7]\<rparr>"
  have "spsc_reach 0 2 (?s\<lparr>producer := PLoaded 7 0\<rparr>)"
    by (rule spsc_reach.step [OF spsc_reach.start]) (use spsc_step.push_begin [of ?s 7] in \<open>simp add: spsc_start_def\<close>)
  then have "spsc_reach 0 2 (?s\<lparr>producer := PChecked 7 0\<rparr>)"
    by (rule spsc_reach.step) (use spsc_step.push_room [of "?s\<lparr>producer := PLoaded 7 0\<rparr>" 7 0 0] in \<open>simp add: spsc_start_def\<close>)
  then have "spsc_reach 0 2 (?s\<lparr>producer := PWritten 7 0, sp_buffer := [7, 0, 0]\<rparr>)"
    by (rule spsc_reach.step)
      (use spsc_step.push_write [of "?s\<lparr>producer := PChecked 7 0\<rparr>" 7 0] in \<open>simp add: spsc_start_def numeral_eq_Suc\<close>)
  then have "spsc_reach 0 2 ?b"
    by (rule spsc_reach.step)
      (use spsc_step.push_publish [of "?s\<lparr>producer := PWritten 7 0, sp_buffer := [7, 0, 0]\<rparr>" 7 0] in \<open>simp add: spsc_start_def\<close>)
  then have "spsc_reach 0 2 (?b\<lparr>producer := PLoaded 8 1\<rparr>)"
    by (rule spsc_reach.step) (use spsc_step.push_begin [of ?b 8] in \<open>simp add: spsc_start_def\<close>)
  then have "spsc_reach 0 2 (?b\<lparr>producer := PChecked 8 1\<rparr>)"
    by (rule spsc_reach.step) (use spsc_step.push_room [of "?b\<lparr>producer := PLoaded 8 1\<rparr>" 8 1 0] in \<open>simp add: spsc_start_def\<close>)
  then have "spsc_reach 0 2 (?b\<lparr>producer := PWritten 8 1, sp_buffer := [7, 8, 0]\<rparr>)"
    by (rule spsc_reach.step) (use spsc_step.push_write [of "?b\<lparr>producer := PChecked 8 1\<rparr>" 8 1] in \<open>simp add: spsc_start_def\<close>)
  then have "spsc_reach 0 2 (?b\<lparr>producer := PWritten 8 1, sp_buffer := [7, 8, 0], consumer := CLoaded 0\<rparr>)"
    by (rule spsc_reach.step)
      (use spsc_step.pop_begin [of "?b\<lparr>producer := PWritten 8 1, sp_buffer := [7, 8, 0]\<rparr>"] in \<open>simp add: spsc_start_def\<close>)
  then show ?thesis
    by (rule spsc_reach.step)
      (use spsc_step.pop_ready [of "?b\<lparr>producer := PWritten 8 1, sp_buffer := [7, 8, 0], consumer := CLoaded 0\<rparr>" 0 1]
        in \<open>simp add: spsc_start_def sample_spsc_def\<close>)
qed

theorem spsc_concurrent_fifo_witness:
  "spsc_reach 0 2 sample_spsc \<and> taken sample_spsc = take 0 (published sample_spsc) \<and>
     length (published sample_spsc) \<le> length (taken sample_spsc) + 2"
  using sample_spsc_reach spsc_concurrent_fifo [OF sample_spsc_reach] by (simp add: sample_spsc_def)

theorem spsc_race_free_witness:
  "producer sample_spsc = PWritten 8 1 \<and> consumer sample_spsc = CChecked 0 \<and> (1::nat) \<noteq> 0 \<and>
     1 < length (sp_buffer sample_spsc)"
  using spsc_race_free [OF sample_spsc_reach, of 8 1 0] by (simp add: sample_spsc_def)

end
