(* ===== verification/Text_Format.thy ===== *)
theory Text_Format
  imports Kernel_Types
begin

text \<open>
  Decimal text: what \<^verbatim>\<open>operator<<\<close> writes for the integer types, and how a list of
  fields is read back from a comma-separated line.
\<close>

section \<open>Printing and reading decimals\<close>

definition digit_char :: "nat \<Rightarrow> char" where
  "digit_char d = char_of (48 + d)"

definition char_digit :: "char \<Rightarrow> nat option" where
  "char_digit c = (let n = of_char c :: nat in if 48 \<le> n \<and> n \<le> 57 then Some (n - 48) else None)"

fun show_nat :: "nat \<Rightarrow> string" where
  "show_nat n = (if n < 10 then [digit_char n] else show_nat (n div 10) @ [digit_char (n mod 10)])"

declare show_nat.simps [simp del]

definition show_int :: "int \<Rightarrow> string" where
  "show_int i = (if i < 0 then CHR ''-'' # show_nat (nat (- i)) else show_nat (nat i))"

fun read_digits :: "nat \<Rightarrow> string \<Rightarrow> nat option" where
  "read_digits acc [] = Some acc"
| "read_digits acc (c # cs) = (case char_digit c of None \<Rightarrow> None | Some d \<Rightarrow> read_digits (10 * acc + d) cs)"

definition read_nat :: "string \<Rightarrow> nat option" where
  "read_nat cs = (if cs = [] then None else read_digits 0 cs)"

definition read_int :: "string \<Rightarrow> int option" where
  "read_int cs = (case cs of [] \<Rightarrow> None
     | c # ds \<Rightarrow> if c = CHR ''-'' then map_option (\<lambda>n. - int n) (read_nat ds) else map_option int (read_nat cs))"

lemma char_digit_char [simp]: "d < 10 \<Longrightarrow> char_digit (digit_char d) = Some d"
  by (simp add: char_digit_def digit_char_def)

lemma read_digits_append: "read_digits a (xs @ ys) = Option.bind (read_digits a xs) (\<lambda>b. read_digits b ys)"
  by (induction xs arbitrary: a) (simp_all split: option.split)

lemma show_nat_nonempty [simp]: "show_nat n \<noteq> []"
  by (subst show_nat.simps) simp

lemma read_show_nat [simp]: "read_nat (show_nat n) = Some n"
proof -
  have "read_digits 0 (show_nat n) = Some n"
    by (induction n rule: show_nat.induct) (subst show_nat.simps, simp add: read_digits_append)
  then show ?thesis by (simp add: read_nat_def)
qed

lemma set_show_nat: "set (show_nat n) \<subseteq> digit_char ` {..<10}"
  by (induction n rule: show_nat.induct) (subst show_nat.simps, simp)

lemma char_digit_special [simp]: "char_digit CHR ''-'' = None" "char_digit CHR '','' = None"
  by (simp_all add: char_digit_def)

lemma show_nat_digit: "c \<in> set (show_nat n) \<Longrightarrow> char_digit c \<noteq> None"
  using set_show_nat [of n] by auto

lemma show_nat_special [simp]: "CHR ''-'' \<notin> set (show_nat n)" "CHR '','' \<notin> set (show_nat n)"
  using show_nat_digit by fastforce+

lemma read_show_int [simp]: "read_int (show_int i) = Some i"
proof (cases "i < 0")
  case False
  obtain c cs where e: "show_nat (nat i) = c # cs" by (cases "show_nat (nat i)") auto
  then have "c \<noteq> CHR ''-''" using show_nat_special(1) [of "nat i"] by auto
  moreover have "read_nat (c # cs) = Some (nat i)" using read_show_nat [of "nat i"] by (simp add: e)
  ultimately show ?thesis using False by (simp add: show_int_def read_int_def e)
qed (simp add: show_int_def read_int_def)

lemma show_int_no_comma [simp]: "CHR '','' \<notin> set (show_int i)"
  by (simp add: show_int_def)

section \<open>Comma-separated fields\<close>

fun split_commas :: "string \<Rightarrow> string list" where
  "split_commas [] = [[]]"
| "split_commas (c # cs) = (if c = CHR '','' then [] # split_commas cs
     else case split_commas cs of [] \<Rightarrow> [[c]] | f # fs \<Rightarrow> (c # f) # fs)"

lemma split_commas_field: "CHR '','' \<notin> set f \<Longrightarrow> split_commas f = [f]"
  by (induction f) auto

lemma split_commas_Cons: "CHR '','' \<notin> set f \<Longrightarrow> split_commas (f @ CHR '','' # rest) = f # split_commas rest"
  by (induction f) auto

section \<open>Decimal text of literals by rewriting\<close>

lemma show_nat_numeral:
  "show_nat (numeral k) = (if numeral k < (10 :: nat) then [digit_char (numeral k)]
     else show_nat (numeral k div 10) @ [digit_char (numeral k mod 10)])"
  by (rule show_nat.simps)

lemma digits:
  "digit_char 0 = CHR ''0''" "digit_char (Suc 0) = CHR ''1''" "digit_char 1 = CHR ''1''" "digit_char 2 = CHR ''2''"
  "digit_char 3 = CHR ''3''" "digit_char 4 = CHR ''4''" "digit_char 5 = CHR ''5''" "digit_char 6 = CHR ''6''"
  "digit_char 7 = CHR ''7''" "digit_char 8 = CHR ''8''" "digit_char 9 = CHR ''9''"
  by code_simp+

lemma show_nat_small:
  "show_nat 0 = ''0''" "show_nat (Suc 0) = ''1''" "show_nat 1 = ''1''"
  by (simp_all add: show_nat.simps [of 0] show_nat.simps [of "Suc 0"] show_nat.simps [of 1] digits)

lemmas decimal_text = show_int_def show_nat_numeral show_nat_small digits

lemma char_digit_literals:
  "char_digit CHR ''0'' = Some 0" "char_digit CHR ''1'' = Some 1" "char_digit CHR ''2'' = Some 2" "char_digit CHR ''3'' = Some 3"
  "char_digit CHR ''4'' = Some 4" "char_digit CHR ''5'' = Some 5" "char_digit CHR ''6'' = Some 6" "char_digit CHR ''7'' = Some 7"
  "char_digit CHR ''8'' = Some 8" "char_digit CHR ''9'' = Some 9" "char_digit CHR ''x'' = None"
  by (simp_all add: char_digit_def)

lemmas decimal_value = read_int_def read_nat_def char_digit_literals

end
