(* ===== verification/Latency_Stats.thy ===== *)
theory Latency_Stats
  imports Kernel_Types Text_Format "HOL-Library.Multiset"
begin

text \<open>
  The bounded latency collectors of \<^verbatim>\<open>include/latency_stats.h\<close> and
  \<^verbatim>\<open>src/latency_stats.cpp\<close>. Sizes are \<^verbatim>\<open>size_t\<close>: natural numbers where the code checks or
  bounds them, 64-bit words in the two rank computations, whose point is that they do not
  wrap. Sums of samples are checked 64-bit sums. \<open>overflow_count\<close>, incremented at most once
  per call, is not width-checked.
\<close>

section \<open>Collectors\<close>

record LatencyStats =
  ls_samples :: "i64 list"
  sample_count :: nat
  overflow_count :: nat
  max_per_tick :: nat

datatype LatencyError = CapacityInvalid string nat nat

definition SIZE_MAX :: int where "SIZE_MAX = 18446744073709551615"

text \<open>\<^verbatim>\<open>std::vector<int64_t>::max_size()\<close> on a 64-bit target.\<close>

definition VECTOR_MAX_SIZE :: int where "VECTOR_MAX_SIZE = 1152921504606846975"

definition latency_new :: LatencyStats where
  "latency_new = \<lparr>ls_samples = [], sample_count = 0, overflow_count = 0, max_per_tick = 0\<rparr>"

definition latency_initialize :: "string \<Rightarrow> nat \<Rightarrow> nat \<Rightarrow> LatencyError + LatencyStats" where
  "latency_initialize name tick_count max_tick =
     (if max_tick = 0 \<or> int tick_count > SIZE_MAX div int max_tick then Inl (CapacityInvalid name tick_count max_tick)
      else let capacity = tick_count * max_tick
           in if int capacity > VECTOR_MAX_SIZE then Inl (CapacityInvalid name tick_count max_tick)
              else Inr \<lparr>ls_samples = replicate capacity 0, sample_count = 0, overflow_count = 0,
                     max_per_tick = max_tick\<rparr>)"

definition latency_record :: "LatencyStats \<Rightarrow> i64 \<Rightarrow> bool \<times> LatencyStats" where
  "latency_record ls latency_ns =
     (if sample_count ls = length (ls_samples ls)
      then (False, ls\<lparr>overflow_count := overflow_count ls + 1\<rparr>)
      else (True, ls\<lparr>ls_samples := (ls_samples ls)[sample_count ls := latency_ns],
                     sample_count := sample_count ls + 1\<rparr>))"

definition latency_samples :: "LatencyStats \<Rightarrow> i64 list" where
  "latency_samples ls = take (sample_count ls) (ls_samples ls)"

section \<open>Ranks\<close>

definition percentile_index_permille :: "64 word \<Rightarrow> 64 word \<Rightarrow> 64 word" where
  "percentile_index_permille n permille =
     (if n = 0 then 0
      else let rank = (n div 1000) * permille + (((n mod 1000) * permille + 999) div 1000)
           in if rank = 0 then 0 else rank - 1)"

definition tail_count_for_top_percent :: "64 word \<Rightarrow> 64 word \<Rightarrow> 64 word" where
  "tail_count_for_top_percent n percent =
     (if n = 0 then 0
      else let tail_count = (n div 100) * percent + (((n mod 100) * percent + 99) div 100)
           in if tail_count = 0 then 1 else tail_count)"

section \<open>Summaries\<close>

record LatencySummary =
  sum_count :: nat
  sum_min_ns :: i64
  sum_mean_ns :: i64
  sum_p50_ns :: i64
  sum_p99_ns :: i64
  sum_p99_9_ns :: i64
  sum_has_p99 :: bool
  sum_has_p99_9 :: bool
  sum_tail_mean_99_ns :: i64
  sum_has_tail_mean_99 :: bool
  sum_max_ns :: i64

fun sum64 :: "i64 \<Rightarrow> i64 list \<Rightarrow> i64 option" where
  "sum64 acc [] = Some acc"
| "sum64 acc (x # xs) = do { t \<leftarrow> add64 acc x; sum64 t xs }"

definition p99_min_samples :: nat where "p99_min_samples = 100"
definition p99_9_min_samples :: nat where "p99_9_min_samples = 1000"

definition rank_of :: "i64 list \<Rightarrow> nat \<Rightarrow> i64" where
  "rank_of xs permille = xs ! unat (percentile_index_permille (word_of_nat (length xs)) (word_of_nat permille))"

definition summarize :: "LatencyStats \<Rightarrow> LatencySummary option" where
  "summarize ls =
     (if sample_count ls = 0
      then Some \<lparr>sum_count = 0, sum_min_ns = 0, sum_mean_ns = 0, sum_p50_ns = 0, sum_p99_ns = 0, sum_p99_9_ns = 0,
             sum_has_p99 = False, sum_has_p99_9 = False, sum_tail_mean_99_ns = 0, sum_has_tail_mean_99 = False,
             sum_max_ns = 0\<rparr>
      else do {
        let sorted = sort (latency_samples ls);
        total_ns \<leftarrow> sum64 0 sorted;
        let has_p99 = length sorted \<ge> p99_min_samples;
        let has_p99_9 = length sorted \<ge> p99_9_min_samples;
        let tail_count = (if has_p99 then unat (tail_count_for_top_percent (word_of_nat (length sorted)) 1) else 0);
        tail_total_ns \<leftarrow> sum64 0 (drop (length sorted - tail_count) sorted);
        mean \<leftarrow> div64 total_ns (int (length sorted));
        tail_mean \<leftarrow> (if has_p99 then div64 tail_total_ns (int tail_count) else Some 0);
        Some \<lparr>sum_count = length sorted, sum_min_ns = hd sorted, sum_mean_ns = mean,
          sum_p50_ns = rank_of sorted 500,
          sum_p99_ns = (if has_p99 then rank_of sorted 990 else 0),
          sum_p99_9_ns = (if has_p99_9 then rank_of sorted 999 else 0),
          sum_has_p99 = has_p99, sum_has_p99_9 = has_p99_9,
          sum_tail_mean_99_ns = tail_mean, sum_has_tail_mean_99 = has_p99,
          sum_max_ns = last sorted\<rparr>
      })"

definition latency_summary_text :: "LatencyStats \<Rightarrow> string \<Rightarrow> string option" where
  "latency_summary_text ls name = do {
     summary \<leftarrow> summarize ls;
     Some (''latency['' @ name @ ''] count='' @ show_nat (sum_count summary) @
       '' overflow='' @ show_nat (overflow_count ls) @ '' capacity='' @ show_nat (length (ls_samples ls)) @
       '' max_per_tick='' @ show_nat (max_per_tick ls) @ '' estimator=nearest_rank'' @
       '' min_ns='' @ show_int (sum_min_ns summary) @ '' mean_ns='' @ show_int (sum_mean_ns summary) @
       '' p50_ns='' @ show_int (sum_p50_ns summary) @
       '' p99_ns='' @ (if sum_has_p99 summary then show_int (sum_p99_ns summary) else ''n/a'') @
       '' p99_9_ns='' @ (if sum_has_p99_9 summary then show_int (sum_p99_9_ns summary) else ''n/a'') @
       '' tail_mean_99_ns='' @ (if sum_has_tail_mean_99 summary then show_int (sum_tail_mean_99_ns summary) else ''n/a'') @
       '' max_ns='' @ show_int (sum_max_ns summary) @ [CHR 0x0A])
   }"

section \<open>Recording\<close>

definition latency_inv :: "LatencyStats \<Rightarrow> bool" where
  "latency_inv ls \<longleftrightarrow> sample_count ls \<le> length (ls_samples ls) \<and>
     (0 < overflow_count ls \<longrightarrow> sample_count ls = length (ls_samples ls))"

fun record_all :: "LatencyStats \<Rightarrow> i64 list \<Rightarrow> LatencyStats" where
  "record_all ls [] = ls"
| "record_all ls (x # xs) = record_all (snd (latency_record ls x)) xs"

lemma latency_record_inv: "latency_inv ls \<Longrightarrow> latency_inv (snd (latency_record ls x))"
  by (auto simp: latency_inv_def latency_record_def)

lemma latency_record_room:
  assumes "sample_count ls < length (ls_samples ls)"
  shows "latency_samples (snd (latency_record ls x)) = latency_samples ls @ [x]"
  using assms by (simp add: latency_record_def latency_samples_def take_Suc_conv_app_nth)

lemma record_all_spec:
  assumes "latency_inv ls"
  defines "room \<equiv> length (ls_samples ls) - sample_count ls"
  shows "latency_samples (record_all ls xs) = latency_samples ls @ take room xs \<and>
    overflow_count (record_all ls xs) = overflow_count ls + (length xs - room) \<and>
    latency_inv (record_all ls xs) \<and> length (ls_samples (record_all ls xs)) = length (ls_samples ls) \<and>
    sample_count (record_all ls xs) = sample_count ls + min room (length xs)"
  using assms(1) unfolding room_def
proof (induction xs arbitrary: ls)
  case Nil
  then show ?case by simp
next
  case (Cons x xs)
  let ?l = "snd (latency_record ls x)"
  have inv: "latency_inv ?l" using Cons.prems by (rule latency_record_inv)
  have le: "sample_count ls \<le> length (ls_samples ls)" using Cons.prems by (simp add: latency_inv_def)
  show ?case
  proof (cases "sample_count ls = length (ls_samples ls)")
    case True
    then have "?l = ls\<lparr>overflow_count := overflow_count ls + 1\<rparr>" by (simp add: latency_record_def)
    moreover have "latency_samples (ls\<lparr>overflow_count := k\<rparr>) = latency_samples ls" for k by (simp add: latency_samples_def)
    ultimately show ?thesis using Cons.IH [OF inv] True by simp
  next
    case False
    with le have lt: "sample_count ls < length (ls_samples ls)" by simp
    then have "sample_count ?l = Suc (sample_count ls)" "length (ls_samples ?l) = length (ls_samples ls)"
        "overflow_count ?l = overflow_count ls"
      by (simp_all add: latency_record_def)
    moreover have "length (ls_samples ls) - sample_count ls = Suc (length (ls_samples ls) - Suc (sample_count ls))"
      using lt by simp
    ultimately show ?thesis
      using Cons.IH [OF inv] latency_record_room [OF lt, of x] by simp
  qed
qed

section \<open>Ranks without wrap-around\<close>

lemma split_ceil:
  fixes n p m k :: nat
  assumes "0 < m"
  shows "(n div m) * p + ((n mod m) * p + k) div m = (n * p + k) div m"
proof -
  have "n * p = (n mod m) * p + m * ((n div m) * p)"
    by (metis add.commute add_mult_distrib mult.assoc div_mult_mod_eq mult.commute)
  then have "n * p + k = ((n mod m) * p + k) + m * ((n div m) * p)" by simp
  then show ?thesis using assms by (simp only: div_mult_self2)
qed

lemma ceil_le:
  fixes n p m k :: nat
  assumes "p \<le> m" "k < m"
  shows "(n * p + k) div m \<le> n"
proof -
  have "n * p + k < Suc n * m" using assms(2) mult_le_mono2 [OF assms(1), of n] by (simp only: mult_Suc)
  then show ?thesis by (meson less_mult_imp_div_less less_Suc_eq_le)
qed

text \<open>One rank computation on 64-bit words: quotient and remainder are scaled separately.\<close>

lemma word_ceil:
  fixes n p m k :: "64 word"
  assumes p: "unat p \<le> unat m" and k: "unat k < unat m" and m: "unat m \<le> 1000"
  shows "unat ((n div m) * p + (((n mod m) * p + k) div m)) = (unat n * unat p + unat k) div unat m"
proof -
  let ?n = "unat n" and ?p = "unat p" and ?m = "unat m" and ?k = "unat k"
  have m0: "0 < ?m" using k by simp
  have "?n mod ?m \<le> 1000" using m m0 mod_less_divisor [OF m0, of ?n] by linarith
  then have "(?n mod ?m) * ?p \<le> 1000 * 1000" using p m by (intro mult_le_mono) simp_all
  then have small: "(?n mod ?m) * ?p < 2 ^ 64" "(?n mod ?m) * ?p + ?k < 2 ^ 64" using k m by simp_all
  have lo: "unat ((n mod m) * p) = (?n mod ?m) * ?p"
    using unat_mult_lem [of "n mod m" p] small(1) by (simp add: unat_mod)
  have lo': "unat ((n mod m) * p + k) = (?n mod ?m) * ?p + ?k"
    using unat_add_lem [of "(n mod m) * p" k] small(2) by (simp add: lo)
  have n: "?n < 2 ^ 64" using unsigned_less [of n] by simp
  have sum: "(?n div ?m) * ?p + ((?n mod ?m) * ?p + ?k) div ?m < 2 ^ 64"
    using split_ceil [OF m0, of ?n ?p ?k] ceil_le [OF p k, of ?n] n by simp
  then have hi: "unat ((n div m) * p) = (?n div ?m) * ?p"
    using unat_mult_lem [of "n div m" p] by (simp add: unat_div)
  show ?thesis
    using sum unat_add_lem [of "(n div m) * p" "((n mod m) * p + k) div m"] split_ceil [OF m0, of ?n ?p ?k]
    by (simp add: hi unat_div lo')
qed

lemma percentile_index_exact:
  assumes "0 < unat n" "unat p \<le> 1000"
  shows "unat (percentile_index_permille n p) = (unat n * unat p + 999) div 1000 - 1"
proof -
  have n: "n \<noteq> 0" using assms(1) by auto
  let ?rank = "(n div 1000) * p + (((n mod 1000) * p + 999) div 1000)"
  have r: "unat ?rank = (unat n * unat p + 999) div 1000"
    using word_ceil [of p 1000 999 n] assms(2) by simp
  show ?thesis
  proof (cases "?rank = 0")
    case True
    then show ?thesis using n r by (simp add: percentile_index_permille_def)
  next
    case False
    then have "1 \<le> ?rank" by (simp add: word_le_nat_alt) (metis unat_eq_zero Suc_leI gr_zeroI)
    then have "unat (?rank - 1) = unat ?rank - 1" by (simp add: unat_sub)
    then show ?thesis using n r False by (simp add: percentile_index_permille_def Let_def)
  qed
qed

lemma tail_count_exact:
  assumes "0 < unat n" "unat p \<le> 100" "0 < unat p"
  shows "unat (tail_count_for_top_percent n p) = (unat n * unat p + 99) div 100"
proof -
  have n: "n \<noteq> 0" using assms(1) by auto
  let ?t = "(n div 100) * p + (((n mod 100) * p + 99) div 100)"
  have r: "unat ?t = (unat n * unat p + 99) div 100"
    using word_ceil [of p 100 99 n] assms(2) by simp
  have "1 \<le> unat n * unat p" using assms by (metis One_nat_def Suc_leI nat_0_less_mult_iff)
  then have "0 < (unat n * unat p + 99) div 100" by (simp add: div_greater_zero_iff)
  then have "?t \<noteq> 0" using r by (metis unat_0 less_irrefl)
  then show ?thesis using n r by (simp add: tail_count_for_top_percent_def Let_def)
qed

section \<open>Percentiles\<close>

text \<open>
  The nearest-rank percentile of a sample: the smallest recorded value such that at least
  the given share of the samples is no larger.
\<close>

definition nearest_rank :: "int list \<Rightarrow> nat \<Rightarrow> int \<Rightarrow> bool" where
  "nearest_rank xs permille v \<longleftrightarrow> v \<in> set xs \<and>
     permille * length xs \<le> 1000 * length (filter (\<lambda>x. x \<le> v) xs) \<and>
     1000 * length (filter (\<lambda>x. x < v) xs) < permille * length xs"

lemma sorted_counts:
  fixes xs :: "int list"
  assumes "sorted xs" "i < length xs"
  shows "i < length (filter (\<lambda>x. x \<le> xs ! i) xs)" "length (filter (\<lambda>x. x < xs ! i) xs) \<le> i"
proof -
  have split: "xs = take (Suc i) xs @ drop (Suc i) xs" by simp
  have "filter (\<lambda>x. x \<le> xs ! i) (take (Suc i) xs) = take (Suc i) xs"
    using assms by (auto simp: filter_id_conv in_set_conv_nth intro!: sorted_nth_mono)
  then have "length (take (Suc i) xs) \<le> length (filter (\<lambda>x. x \<le> xs ! i) xs)"
    by (subst (2) split) (simp only: filter_append length_append)
  then show "i < length (filter (\<lambda>x. x \<le> xs ! i) xs)" using assms(2) by simp
  have "filter (\<lambda>x. x < xs ! i) (drop i xs) = []"
    using assms by (auto simp: filter_empty_conv in_set_conv_nth not_less intro!: sorted_nth_mono)
  then have "filter (\<lambda>x. x < xs ! i) xs = filter (\<lambda>x. x < xs ! i) (take i xs)"
    by (metis append_Nil2 append_take_drop_id filter_append)
  then show "length (filter (\<lambda>x. x < xs ! i) xs) \<le> i"
    by (metis length_filter_le length_take min.boundedE order_trans)
qed

lemma sorted_hd_last:
  fixes ys :: "int list"
  assumes "sorted ys" "ys \<noteq> []"
  shows "hd ys = Min (set ys)" "last ys = Max (set ys)"
proof -
  have "hd ys \<le> y" "y \<le> last ys" if "y \<in> set ys" for y
    using that assms by (auto simp: hd_conv_nth last_conv_nth in_set_conv_nth intro!: sorted_nth_mono)
  with assms(2) show "hd ys = Min (set ys)" "last ys = Max (set ys)"
    by (auto intro!: Min_eqI [symmetric] Max_eqI [symmetric])
qed

lemma sum64_eq: "sum64 a xs = Some t \<Longrightarrow> t = a + sum_list xs"
proof (induction xs arbitrary: a)
  case (Cons x xs)
  then have "sum64 (a + x) xs = Some t" by (simp add: Option.bind_eq_Some_conv checked_defs)
  from Cons.IH [OF this] show ?case by simp
qed simp

lemma sum_list_sort: "sum_list (sort xs) = sum_list xs" for xs :: "int list"
  by (metis mset_sort sum_mset_sum_list)

lemma rank_of_nearest:
  assumes "sorted xs" "xs \<noteq> []" "length xs < 2 ^ 64" "0 < p" "p \<le> 1000"
  shows "nearest_rank xs p (rank_of xs p)"
proof -
  let ?n = "length xs" and ?i = "(length xs * p + 999) div 1000 - 1"
  have n: "unat (word_of_nat ?n :: 64 word) = ?n" using assms(3) by (simp add: unsigned_of_nat take_bit_eq_mod)
  have pp: "unat (word_of_nat p :: 64 word) = p" using assms(5) by (simp add: unsigned_of_nat take_bit_eq_mod)
  have v: "rank_of xs p = xs ! ?i"
    using percentile_index_exact [of "word_of_nat ?n" "word_of_nat p"] assms(2,5) n pp by (simp add: rank_of_def)
  have "1 \<le> ?n * p" using assms(2,4) by (cases xs) auto
  then have r: "1 \<le> (?n * p + 999) div 1000" by (simp add: div_greater_zero_iff Suc_le_eq)
  have le: "(?n * p + 999) div 1000 \<le> ?n" using ceil_le [of p 1000 999 ?n] assms(5) by simp
  then have i: "?i < ?n" using r by simp
  let ?m = "?n * p + 999"
  have "1000 * (?m div 1000) + ?m mod 1000 = ?m" by (rule mult_div_mod_eq)
  moreover have "?m mod 1000 < 1000" by simp
  ultimately have up: "?n * p \<le> 1000 * ((?n * p + 999) div 1000)" "1000 * ((?n * p + 999) div 1000) < ?n * p + 1000"
    by linarith+
  note c = sorted_counts [OF assms(1) i]
  have "p * ?n \<le> 1000 * length (filter (\<lambda>x. x \<le> xs ! ?i) xs)"
    using up(1) c(1) r by (simp add: mult.commute [of p])
  moreover have "1000 * length (filter (\<lambda>x. x < xs ! ?i) xs) < p * ?n"
    using up(2) c(2) r by (simp add: mult.commute [of p])
  ultimately show ?thesis using i by (simp add: nearest_rank_def v)
qed

lemma nearest_rank_sort [simp]: "nearest_rank (sort xs) p v = nearest_rank xs p v"
  by (simp add: nearest_rank_def filter_sort [symmetric] del: filter_sort) (metis filter_sort length_sort)

section \<open>Properties\<close>

text \<open>
  A collector is bounded: after initialisation for a number of ticks with so many
  samples each, it keeps exactly the first samples up to that capacity, counts every
  further one as overflow, and its storage never changes size.
\<close>

theorem latency_collector_bounded:
  assumes "latency_initialize name ticks per_tick = Inr ls"
  shows "latency_samples (record_all ls xs) = take (ticks * per_tick) xs \<and>
    overflow_count (record_all ls xs) = length xs - ticks * per_tick \<and>
    length (ls_samples (record_all ls xs)) = ticks * per_tick"
proof -
  have "latency_inv ls" "length (ls_samples ls) = ticks * per_tick" "sample_count ls = 0" "overflow_count ls = 0"
    using assms by (auto simp: latency_initialize_def Let_def latency_inv_def split: if_splits)
  moreover from this have "latency_samples ls = []" by (simp add: latency_samples_def)
  ultimately show ?thesis using record_all_spec [of ls xs] by simp
qed

theorem latency_collector_bounded_witness:
  "\<exists>ls. latency_initialize ''risk'' 2 1 = Inr ls \<and> latency_samples (record_all ls [5, 7, 9]) = [5, 7] \<and>
     overflow_count (record_all ls [5, 7, 9]) = 1"
proof -
  let ?ls = "\<lparr>ls_samples = [0, 0], sample_count = 0, overflow_count = 0, max_per_tick = 1\<rparr>"
  have e: "latency_initialize ''risk'' 2 1 = Inr ?ls" by code_simp
  show ?thesis using latency_collector_bounded [OF e, of "[5, 7, 9]"] e by auto
qed

text \<open>
  C28. The summary is right: minimum and maximum are those of the samples, the mean is the
  truncated quotient of the sum, the percentiles shown are nearest-rank percentiles of the
  samples, computed without wrap-around or access out of range.
\<close>

theorem latency_summary_exact:
  assumes "summarize ls = Some sm" and "0 < sample_count ls" and "latency_inv ls"
    and "length (ls_samples ls) < 2 ^ 64"
  shows "let xs = latency_samples ls in
    sum_count sm = sample_count ls \<and> sum_min_ns sm = Min (set xs) \<and> sum_max_ns sm = Max (set xs) \<and>
    sum_mean_ns sm = sum_list xs sdiv int (length xs) \<and> nearest_rank xs 500 (sum_p50_ns sm) \<and>
    sum_has_p99 sm = (100 \<le> length xs) \<and> (sum_has_p99 sm \<longrightarrow> nearest_rank xs 990 (sum_p99_ns sm)) \<and>
    sum_has_p99_9 sm = (1000 \<le> length xs) \<and> (sum_has_p99_9 sm \<longrightarrow> nearest_rank xs 999 (sum_p99_9_ns sm))"
proof -
  let ?xs = "latency_samples ls" and ?s = "sort (latency_samples ls)"
  have len: "length ?xs = sample_count ls" using assms(3) by (simp add: latency_samples_def latency_inv_def)
  then have "?s \<noteq> []" using assms(2) by (metis length_sort less_numeral_extra(3) list.size(3))
  note ne = this
  have lt: "length ?s < 2 ^ 64" using assms(3,4) len by (simp add: latency_inv_def)
  have "hd ?s = Min (set ?xs)" "last ?s = Max (set ?xs)" using sorted_hd_last [OF sorted_sort ne] by simp_all
  moreover have "nearest_rank ?xs p (rank_of ?s p)" if "0 < p" "p \<le> 1000" for p
    using rank_of_nearest [OF sorted_sort ne lt that] by simp
  moreover have "t = sum_list ?xs" if "sum64 0 ?s = Some t" for t
    using sum64_eq [OF that] by (simp add: sum_list_sort)
  ultimately show ?thesis
    using assms(1,2) len
    by (auto simp: summarize_def Let_def Option.bind_eq_Some_conv p99_min_samples_def p99_9_min_samples_def checked_defs
        split: if_splits)
qed


theorem latency_summary_exact_witness:
  "\<exists>sm. summarize (record_all \<lparr>ls_samples = [0, 0, 0, 0], sample_count = 0, overflow_count = 0, max_per_tick = 1\<rparr> [40, 10, 30]) = Some sm \<and>
     sum_min_ns sm = Min {40, 10, 30} \<and> sum_max_ns sm = Max {40, 10, 30} \<and> nearest_rank [40, 10, 30] 500 (sum_p50_ns sm)"
proof -
  let ?ls = "record_all \<lparr>ls_samples = [0, 0, 0, 0], sample_count = 0, overflow_count = 0, max_per_tick = 1\<rparr> [40, 10, 30]"
  have "ok (summarize ?ls) (\<lambda>_. True)" by code_simp
  then obtain sm where e: "summarize ?ls = Some sm" by (auto simp: ok_iff)
  have f: "0 < sample_count ?ls" "latency_inv ?ls" "latency_samples ?ls = [40, 10, 30]" by code_simp+
  have "length (ls_samples ?ls) = 4" by code_simp
  then have l: "length (ls_samples ?ls) < 2 ^ 64" by simp
  from latency_summary_exact [OF e f(1,2) l] show ?thesis using e f(3) by (auto simp: Let_def)
qed

end
