(* ===== verification/Fill_Logger.thy ===== *)
theory Fill_Logger
  imports Order_Manager Text_Format
begin

text \<open>
  The side-channel payload and its two renderings, \<^verbatim>\<open>include/fill_logger.h\<close> and
  \<^verbatim>\<open>src/fill_logger.cpp\<close>: the readable log line and the comma-separated journal record.
  The output stream is a parameter: \<open>write\<close> puts text on it, \<open>good\<close> is its state after.
\<close>

section \<open>Events\<close>

datatype EventKind = KFill | KRiskReject | KOmsTransition | KVenueReject

record TradeEvent =
  te_ts_ns :: TimestampNs
  te_price :: Price
  te_quantity :: i32
  te_kind :: EventKind
  te_side :: Side
  te_reject_reason :: RejectReason

definition reject_reason_name :: "RejectReason \<Rightarrow> string" where
  "reject_reason_name reason = (case reason of
     NoReject \<Rightarrow> ''NONE'' | MaxPosition \<Rightarrow> ''MAX_POSITION''
   | NewRejectedByVenue \<Rightarrow> ''NEW_REJECTED_BY_VENUE'' | CancelRejectedByVenue \<Rightarrow> ''CANCEL_REJECTED_BY_VENUE''
   | RejInvalidQuantity \<Rightarrow> ''INVALID_QUANTITY'')"

definition side_name :: "Side \<Rightarrow> string" where
  "side_name side = (if side = Buy then ''BUY'' else ''SELL'')"

text \<open>
  The cast of an integer to \<^verbatim>\<open>OrderState\<close>, whose underlying type has eight bits, and the
  name looked up for the result; a value that is no enumerator has the name of the
  fall-through.
\<close>

definition state_of_code :: "int \<Rightarrow> OrderState option" where
  "state_of_code i =
     (let c = i mod 256 in
      if c < 9 then Some ([Idle, PendingNewAck, Acked, PartiallyFilled, PendingCancel, Filled, Canceled, Rejected, Expired] ! nat c)
      else None)"

definition cast_state_name :: "int \<Rightarrow> string" where
  "cast_state_name i = (case state_of_code i of Some st \<Rightarrow> order_state_name st | None \<Rightarrow> ''Unknown'')"

section \<open>The log line\<close>

definition trade_event_log :: "TradeEvent \<Rightarrow> string" where
  "trade_event_log event =
     (if te_kind event = KFill
      then ''fill ts_ns='' @ show_int (te_ts_ns event) @ '' side='' @ side_name (te_side event) @
           '' price='' @ show_int (te_price event) @ '' qty='' @ show_int (te_quantity event) @ [CHR 0x0A]
      else if te_kind event = KOmsTransition
      then ''oms_transition ts_ns='' @ show_int (te_ts_ns event) @ '' from='' @ cast_state_name (te_price event) @
           '' to='' @ cast_state_name (te_quantity event) @ [CHR 0x0A]
      else if te_kind event = KVenueReject
      then ''venue_reject ts_ns='' @ show_int (te_ts_ns event) @ '' side='' @ side_name (te_side event) @
           '' qty='' @ show_int (te_quantity event) @ '' reason='' @ reject_reason_name (te_reject_reason event) @ [CHR 0x0A]
      else ''reject ts_ns='' @ show_int (te_ts_ns event) @ '' side='' @ side_name (te_side event) @
           '' qty='' @ show_int (te_quantity event) @ '' reason='' @ reject_reason_name (te_reject_reason event) @ [CHR 0x0A])"

definition write_trade_event_log :: "('o \<Rightarrow> string \<Rightarrow> 'o) \<Rightarrow> 'o \<Rightarrow> TradeEvent \<Rightarrow> 'o" where
  "write_trade_event_log write out event = write out (trade_event_log event)"

section \<open>The journal record\<close>

definition kind_name :: "EventKind \<Rightarrow> string" where
  "kind_name kind = (if kind = KFill then ''FILL'' else if kind = KRiskReject then ''RISK_REJECT''
     else if kind = KOmsTransition then ''OMS_TRANSITION'' else ''VENUE_REJECT'')"

definition journal_record :: "TradeEvent \<Rightarrow> string" where
  "journal_record event =
     kind_name (te_kind event) @ '','' @ show_int (te_ts_ns event) @ '','' @ side_name (te_side event) @ '','' @
     show_int (te_price event) @ '','' @ show_int (te_quantity event) @ '','' @
     reject_reason_name (te_reject_reason event) @ [CHR 0x0A]"

definition write_trade_event_persistence ::
  "('o \<Rightarrow> string \<Rightarrow> 'o) \<Rightarrow> ('o \<Rightarrow> bool) \<Rightarrow> 'o \<Rightarrow> TradeEvent \<Rightarrow> bool \<times> 'o" where
  "write_trade_event_persistence write good out event =
     (let out = write out (journal_record event) in (good out, out))"

section \<open>Reading a journal record\<close>

fun find_name :: "('a \<Rightarrow> string) \<Rightarrow> 'a list \<Rightarrow> string \<Rightarrow> 'a option" where
  "find_name f [] s = None"
| "find_name f (x # xs) s = (if f x = s then Some x else find_name f xs s)"

definition read_journal_record :: "string \<Rightarrow> TradeEvent option" where
  "read_journal_record line = (case split_commas (butlast line) of
     [k, ts, sd, px, q, rr] \<Rightarrow> do {
       kind \<leftarrow> find_name kind_name [KFill, KRiskReject, KOmsTransition, KVenueReject] k;
       t \<leftarrow> read_int ts;
       side \<leftarrow> find_name side_name [Buy, Sell] sd;
       price \<leftarrow> read_int px;
       qty \<leftarrow> read_int q;
       reason \<leftarrow> find_name reject_reason_name
         [NoReject, MaxPosition, NewRejectedByVenue, CancelRejectedByVenue, RejInvalidQuantity] rr;
       Some \<lparr>te_ts_ns = t, te_price = price, te_quantity = qty, te_kind = kind, te_side = side, te_reject_reason = reason\<rparr>
     }
   | _ \<Rightarrow> None)"

lemma kind_name_facts [simp]:
  "CHR '','' \<notin> set (kind_name k)"
  "find_name kind_name [KFill, KRiskReject, KOmsTransition, KVenueReject] (kind_name k) = Some k"
  by (cases k; simp add: kind_name_def)+

lemma side_name_facts [simp]:
  "CHR '','' \<notin> set (side_name sd)" "find_name side_name [Buy, Sell] (side_name sd) = Some sd"
  by (cases sd; simp add: side_name_def)+

lemma reject_reason_name_facts [simp]:
  "CHR '','' \<notin> set (reject_reason_name r)"
  "find_name reject_reason_name [NoReject, MaxPosition, NewRejectedByVenue, CancelRejectedByVenue, RejInvalidQuantity]
     (reject_reason_name r) = Some r"
  by (cases r; simp add: reject_reason_name_def)+

lemma journal_fields:
  "split_commas (butlast (journal_record e)) = [kind_name (te_kind e), show_int (te_ts_ns e), side_name (te_side e),
     show_int (te_price e), show_int (te_quantity e), reject_reason_name (te_reject_reason e)]"
  by (simp add: journal_record_def split_commas_Cons split_commas_field butlast_append)

lemma state_of_order_state_code [simp]: "state_of_code (order_state_code st) = Some st"
  by (cases st) (simp_all add: state_of_code_def order_state_code_def)

section \<open>Properties\<close>

text \<open>
  C27. The journal record determines the event: reading a written record gives the event
  back, so no two different events have the same record.
\<close>

theorem journal_record_roundtrip: "read_journal_record (journal_record e) = Some e"
  by (simp add: read_journal_record_def journal_fields del: find_name.simps)

text \<open>
  The log line of a transition event names the two states it was emitted for, although
  the event carries them as the numbers stored in its price and quantity.
\<close>

theorem transition_log_names:
  "trade_event_log \<lparr>te_ts_ns = ts, te_price = order_state_code from_st, te_quantity = order_state_code to_st,
     te_kind = KOmsTransition, te_side = sd, te_reject_reason = NoReject\<rparr> =
   ''oms_transition ts_ns='' @ show_int ts @ '' from='' @ order_state_name from_st @ '' to='' @
   order_state_name to_st @ [CHR 0x0A]"
  by (simp add: trade_event_log_def cast_state_name_def)

end
