(* ===== verification/Replay_Runner.thy ===== *)
theory Replay_Runner
  imports Accounting_Engine Trading_Signals Mock_Venue_Gateway Spsc_Ring_Buffer Latency_Stats Fill_Logger
begin

text \<open>
  The replay loop of \<^verbatim>\<open>include/replay_runner.h\<close> and \<^verbatim>\<open>src/replay_runner.cpp\<close>: one pass over the
  ticks that drives accounting, gateway, order manager, strategy and risk check, and feeds
  a side channel of trade events and latency samples.

  The local variables of \<^verbatim>\<open>run_replay\<close> are split into the business state \<open>ReplayCore\<close> and
  the \<open>SideChannel\<close> (sink, queue, latency collectors, clock); \<^verbatim>\<open>dropped_events\<close> and
  \<^verbatim>\<open>persisted_events\<close> are counted in the side channel and put into the result's counters at
  the end. \<open>core_journal\<close> is a history of the events handed to \<^verbatim>\<open>emit_event\<close>; no code reads
  it. Three things the code does not determine are parameters, in \<open>ReplayEnv\<close>: the sink's
  \<^verbatim>\<open>consume\<close>, the readings of the steady clock, and the scheduling of the sink thread, as the
  number of iterations of its loop before each push (its other actions touch nothing the
  replay thread reads). Counters, client order ids and clock differences are not
  width-checked; every other addition, subtraction and product is.
\<close>

section \<open>Data\<close>

datatype ReplaySinkMode = SinkSync | SinkAsync

record ReplayConfig =
  sink_mode :: ReplaySinkMode
  execution_style :: ExecutionStyle
  passive_cancel_after_ns :: TimestampNs

record ReplayCounters =
  strategy_signals :: i64
  local_submissions :: i64
  gateway_submissions :: i64
  risk_rejects :: i64
  venue_rejects :: i64
  invalid_venue_events :: i64
  fills :: i64
  accepted_events :: i64
  persisted_events :: i64
  dropped_events :: i64
  venue_batch_overflows :: i64
  wrong_state_events :: i64
  wrong_order_events :: i64
  invalid_quantity_events :: i64
  invalid_venue_order_id_events :: i64
  accounting_rejected_fills :: i64

record ReplayLatencies =
  lat_strategy :: LatencyStats
  lat_risk :: LatencyStats
  lat_execution :: LatencyStats
  lat_accounting :: LatencyStats
  lat_event_sink :: LatencyStats
  lat_end_to_end :: LatencyStats

record ReplayResult =
  res_counters :: ReplayCounters
  res_position :: PositionState
  res_pnl :: PnlState
  res_order :: ManagedOrder
  res_execution_stats :: ExecutionStats
  res_latencies :: ReplayLatencies
  res_sink_failed :: bool
  res_latency_overflow :: bool

datatype ReplayError = EmptyReplay | MultipleSymbols | LatencyCapacity LatencyError

record 'k ReplayEnv =
  env_consume :: "'k \<Rightarrow> TradeEvent \<Rightarrow> bool \<times> 'k"
  env_clock :: "nat \<Rightarrow> i64"
  env_schedule :: "nat \<Rightarrow> nat"

record ReplayCore =
  core_accounting :: AccountingEngine
  core_gateway :: MockVenueGateway
  core_order :: ManagedOrder
  core_client_order_id :: i64
  core_passive_submit_ts :: TimestampNs
  core_counters :: ReplayCounters
  core_journal :: "TradeEvent list"

record 'k SideChannel =
  side_sink :: 'k
  side_queue :: "TradeEvent SpscRingBuffer"
  side_pushes :: nat
  side_dropped :: i64
  side_persisted :: i64
  side_sink_failed :: bool
  side_latencies :: ReplayLatencies
  side_clock_reads :: nat

record 'k RunState =
  core :: ReplayCore
  channel :: "'k SideChannel"

definition zero_counters :: ReplayCounters where
  "zero_counters = \<lparr>strategy_signals = 0, local_submissions = 0, gateway_submissions = 0, risk_rejects = 0,
     venue_rejects = 0, invalid_venue_events = 0, fills = 0, accepted_events = 0, persisted_events = 0,
     dropped_events = 0, venue_batch_overflows = 0, wrong_state_events = 0, wrong_order_events = 0,
     invalid_quantity_events = 0, invalid_venue_order_id_events = 0, accounting_rejected_fills = 0\<rparr>"

definition replay_risk :: RiskEngine where "replay_risk = \<lparr>max_abs_position = 200\<rparr>"

definition replay_strategy :: Strategy where
  "replay_strategy = \<lparr>buy_below = 100000, sell_above = 120000, order_qty = 50\<rparr>"

definition core_init :: ReplayCore where
  "core_init = \<lparr>core_accounting = accounting_init, core_gateway = gateway_default, core_order = idle_order,
     core_client_order_id = 1, core_passive_submit_ts = -1, core_counters = zero_counters, core_journal = []\<rparr>"

definition blank_event :: TradeEvent where
  "blank_event = \<lparr>te_ts_ns = 0, te_price = 0, te_quantity = 0, te_kind = KFill, te_side = Buy, te_reject_reason = NoReject\<rparr>"

definition transition_event :: "TimestampNs \<Rightarrow> OrderState \<Rightarrow> OrderState \<Rightarrow> Side \<Rightarrow> TradeEvent" where
  "transition_event ts from_st to_st side = \<lparr>te_ts_ns = ts, te_price = order_state_code from_st,
     te_quantity = order_state_code to_st, te_kind = KOmsTransition, te_side = side, te_reject_reason = NoReject\<rparr>"

definition fill_event :: "Fill \<Rightarrow> TradeEvent" where
  "fill_event fill = \<lparr>te_ts_ns = f_ts_ns fill, te_price = f_price fill, te_quantity = f_quantity fill,
     te_kind = KFill, te_side = f_side fill, te_reject_reason = NoReject\<rparr>"

definition venue_reject_event :: "TimestampNs \<Rightarrow> i32 \<Rightarrow> Side \<Rightarrow> RejectReason \<Rightarrow> TradeEvent" where
  "venue_reject_event ts qty side reason = \<lparr>te_ts_ns = ts, te_price = 0, te_quantity = qty,
     te_kind = KVenueReject, te_side = side, te_reject_reason = reason\<rparr>"

definition risk_reject_event :: "TimestampNs \<Rightarrow> OrderRequest \<Rightarrow> RejectReason \<Rightarrow> TradeEvent" where
  "risk_reject_event ts order reason = \<lparr>te_ts_ns = ts, te_price = 0, te_quantity = req_quantity order,
     te_kind = KRiskReject, te_side = req_side order, te_reject_reason = reason\<rparr>"

definition count :: "(ReplayCounters \<Rightarrow> ReplayCounters) \<Rightarrow> 'k RunState \<Rightarrow> 'k RunState" where
  "count f st = st\<lparr>core := (core st)\<lparr>core_counters := f (core_counters (core st))\<rparr>\<rparr>"

section \<open>The side channel\<close>

definition clock_now :: "'k ReplayEnv \<Rightarrow> 'k RunState \<Rightarrow> i64 \<times> 'k RunState" where
  "clock_now env st = (env_clock env (side_clock_reads (channel st)),
     st\<lparr>channel := (channel st)\<lparr>side_clock_reads := side_clock_reads (channel st) + 1\<rparr>\<rparr>)"

datatype Collector = ColStrategy | ColRisk | ColExecution | ColAccounting | ColEventSink | ColEndToEnd

definition record_in :: "Collector \<Rightarrow> i64 \<Rightarrow> ReplayLatencies \<Rightarrow> ReplayLatencies" where
  "record_in c ns lat = (case c of
     ColStrategy \<Rightarrow> lat\<lparr>lat_strategy := snd (latency_record (lat_strategy lat) ns)\<rparr>
   | ColRisk \<Rightarrow> lat\<lparr>lat_risk := snd (latency_record (lat_risk lat) ns)\<rparr>
   | ColExecution \<Rightarrow> lat\<lparr>lat_execution := snd (latency_record (lat_execution lat) ns)\<rparr>
   | ColAccounting \<Rightarrow> lat\<lparr>lat_accounting := snd (latency_record (lat_accounting lat) ns)\<rparr>
   | ColEventSink \<Rightarrow> lat\<lparr>lat_event_sink := snd (latency_record (lat_event_sink lat) ns)\<rparr>
   | ColEndToEnd \<Rightarrow> lat\<lparr>lat_end_to_end := snd (latency_record (lat_end_to_end lat) ns)\<rparr>)"

text \<open>Read the clock and record the time since \<open>start\<close>.\<close>

definition record_since :: "'k ReplayEnv \<Rightarrow> Collector \<Rightarrow> i64 \<Rightarrow> 'k RunState \<Rightarrow> 'k RunState" where
  "record_since env c start st =
     (case clock_now env st of (stop, st) \<Rightarrow>
        st\<lparr>channel := (channel st)\<lparr>side_latencies := record_in c (stop - start) (side_latencies (channel st))\<rparr>\<rparr>)"

definition deliver_event :: "'k ReplayEnv \<Rightarrow> 'k SideChannel \<Rightarrow> TradeEvent \<Rightarrow> 'k SideChannel" where
  "deliver_event env sd event =
     (case env_consume env (side_sink sd) event of (consumed, sink) \<Rightarrow>
        if consumed then sd\<lparr>side_sink := sink, side_persisted := side_persisted sd + 1\<rparr>
        else sd\<lparr>side_sink := sink, side_sink_failed := True\<rparr>)"

text \<open>One iteration of the sink thread's loop: a failed pop only yields.\<close>

definition sink_iteration :: "'k ReplayEnv \<Rightarrow> 'k SideChannel \<Rightarrow> 'k SideChannel" where
  "sink_iteration env sd =
     (case try_pop (side_queue sd) of
        (None, _) \<Rightarrow> sd
      | (Some event, queue) \<Rightarrow> deliver_event env (sd\<lparr>side_queue := queue\<rparr>) event)"

primrec sink_turns :: "'k ReplayEnv \<Rightarrow> nat \<Rightarrow> 'k SideChannel \<Rightarrow> 'k SideChannel" where
  "sink_turns env 0 sd = sd"
| "sink_turns env (Suc n) sd = sink_turns env n (sink_iteration env sd)"

text \<open>
  The end of the run: \<^verbatim>\<open>sink_done\<close> is set and the thread joined, so its loop runs until it
  finds the queue empty.
\<close>

partial_function (option) sink_drain :: "'k ReplayEnv \<Rightarrow> 'k SideChannel \<Rightarrow> 'k SideChannel option" where
  "sink_drain env sd = (if ring_empty (side_queue sd) then Some sd else sink_drain env (sink_iteration env sd))"

declare sink_drain.simps [code]

definition push_side :: "'k ReplayEnv \<Rightarrow> 'k SideChannel \<Rightarrow> TradeEvent \<Rightarrow> 'k SideChannel" where
  "push_side env sd event =
     (let sd = sink_turns env (env_schedule env (side_pushes sd)) sd
      in case try_push (side_queue sd) event of (pushed, queue) \<Rightarrow>
           (if pushed then sd\<lparr>side_queue := queue, side_pushes := side_pushes sd + 1\<rparr>
            else sd\<lparr>side_queue := queue, side_pushes := side_pushes sd + 1, side_dropped := side_dropped sd + 1\<rparr>))"

definition emit_event :: "'k ReplayEnv \<Rightarrow> ReplayConfig \<Rightarrow> 'k RunState \<Rightarrow> TradeEvent \<Rightarrow> 'k RunState" where
  "emit_event env config st event =
     (let st = count (accepted_events_update (\<lambda>n. n + 1)) st;
          st = st\<lparr>core := (core st)\<lparr>core_journal := core_journal (core st) @ [event]\<rparr>\<rparr>
      in case clock_now env st of (start, st) \<Rightarrow>
           (let st = (if sink_mode config = SinkSync
                      then st\<lparr>channel := deliver_event env (channel st) event\<rparr>
                      else st\<lparr>channel := push_side env (channel st) event\<rparr>)
            in record_since env ColEventSink start st))"

definition emit_transition ::
  "'k ReplayEnv \<Rightarrow> ReplayConfig \<Rightarrow> 'k RunState \<Rightarrow> TimestampNs \<Rightarrow> OrderState \<Rightarrow> OrderState \<Rightarrow> Side \<Rightarrow> 'k RunState" where
  "emit_transition env config st ts from_st to_st side =
     (if from_st \<noteq> to_st then emit_event env config st (transition_event ts from_st to_st side) else st)"

section \<open>Venue events\<close>

definition mid_price :: "MarketTick \<Rightarrow> Price option" where
  "mid_price tick = do { total \<leftarrow> add64 (bid_price tick) (ask_price tick); div64 total 2 }"

definition set_accounting :: "AccountingEngine \<Rightarrow> 'k RunState \<Rightarrow> 'k RunState" where
  "set_accounting a st = st\<lparr>core := (core st)\<lparr>core_accounting := a\<rparr>\<rparr>"

definition set_gateway :: "MockVenueGateway \<Rightarrow> 'k RunState \<Rightarrow> 'k RunState" where
  "set_gateway g st = st\<lparr>core := (core st)\<lparr>core_gateway := g\<rparr>\<rparr>"

definition set_order :: "ManagedOrder \<Rightarrow> 'k RunState \<Rightarrow> 'k RunState" where
  "set_order od st = st\<lparr>core := (core st)\<lparr>core_order := od\<rparr>\<rparr>"

definition set_passive_submit_ts :: "TimestampNs \<Rightarrow> 'k RunState \<Rightarrow> 'k RunState" where
  "set_passive_submit_ts ts st = st\<lparr>core := (core st)\<lparr>core_passive_submit_ts := ts\<rparr>\<rparr>"

definition handle_fill :: "'k ReplayEnv \<Rightarrow> ReplayConfig \<Rightarrow> 'k RunState \<Rightarrow> Fill \<Rightarrow> MarketTick \<Rightarrow> 'k RunState option" where
  "handle_fill env config st fill tick =
     (if f_quantity fill \<le> 0 then Some st
      else case clock_now env st of (start, st) \<Rightarrow> do {
        (booked, a) \<leftarrow> apply_fill (core_accounting (core st)) fill;
        (if \<not> booked then Some (count (accounting_rejected_fills_update (\<lambda>n. n + 1)) (set_accounting a st))
         else do {
           mid \<leftarrow> mid_price tick;
           a \<leftarrow> mark_to_market a mid;
           let st = record_since env ColAccounting start (set_accounting a st);
           Some (count (fills_update (\<lambda>n. n + 1)) (emit_event env config st (fill_event fill)))
         })
      })"

definition count_invalid :: "VenueEventOutcome \<Rightarrow> 'k RunState \<Rightarrow> 'k RunState" where
  "count_invalid outcome st =
     (let st = count (invalid_venue_events_update (\<lambda>n. n + 1)) st
      in case outcome of
           WrongState \<Rightarrow> count (wrong_state_events_update (\<lambda>n. n + 1)) st
         | WrongOrder \<Rightarrow> count (wrong_order_events_update (\<lambda>n. n + 1)) st
         | InvalidQuantity \<Rightarrow> count (invalid_quantity_events_update (\<lambda>n. n + 1)) st
         | InvalidVenueOrderId \<Rightarrow> count (invalid_venue_order_id_events_update (\<lambda>n. n + 1)) st
         | Applied \<Rightarrow> st)"

definition emit_venue_reject ::
  "'k ReplayEnv \<Rightarrow> ReplayConfig \<Rightarrow> 'k RunState \<Rightarrow> TimestampNs \<Rightarrow> i32 \<Rightarrow> Side \<Rightarrow> RejectReason \<Rightarrow> 'k RunState" where
  "emit_venue_reject env config st ts qty side reason =
     emit_event env config (count (venue_rejects_update (\<lambda>n. n + 1)) st) (venue_reject_event ts qty side reason)"

definition handle_venue_event ::
  "'k ReplayEnv \<Rightarrow> ReplayConfig \<Rightarrow> 'k RunState \<Rightarrow> VenueEvent \<Rightarrow> Side \<Rightarrow> MarketTick \<Rightarrow> 'k RunState option" where
  "handle_venue_event env config st event fallback_side tick =
     (let from_st = o_state (core_order (core st));
          side = (if from_st = Idle then fallback_side else o_side (core_order (core st)))
      in do {
        (outcome, fill, od) \<leftarrow> on_venue_event (core_order (core st)) event;
        let st = set_order od st;
        (if outcome = Applied
         then do {
           st \<leftarrow> handle_fill env config (emit_transition env config st (ev_ts_ns event) from_st (o_state od) side) fill tick;
           Some (if ev_type event = EvNewReject
                 then emit_venue_reject env config st (ev_ts_ns event) (o_order_qty od) side NewRejectedByVenue
                 else if ev_type event = EvCancelReject
                 then emit_venue_reject env config st (ev_ts_ns event) (o_leaves_qty od) side CancelRejectedByVenue
                 else st)
         }
         else Some (count_invalid outcome st))
      })"

fun handle_venue_events ::
  "'k ReplayEnv \<Rightarrow> ReplayConfig \<Rightarrow> 'k RunState \<Rightarrow> VenueEvent list \<Rightarrow> MarketTick \<Rightarrow> 'k RunState option" where
  "handle_venue_events env config st [] tick = Some st"
| "handle_venue_events env config st (event # events) tick = do {
     st \<leftarrow> handle_venue_event env config st event (o_side (core_order (core st))) tick;
     handle_venue_events env config st events tick
   }"

section \<open>One tick\<close>

text \<open>The mark, the gateway's batch and the manager's reaction to it.\<close>

definition venue_phase :: "'k ReplayEnv \<Rightarrow> ReplayConfig \<Rightarrow> 'k RunState \<Rightarrow> MarketTick \<Rightarrow> 'k RunState option" where
  "venue_phase env config st tick = do {
     mid \<leftarrow> mid_price tick;
     a \<leftarrow> mark_to_market (core_accounting (core st)) mid;
     case clock_now env (set_accounting a st) of (resting_start, st) \<Rightarrow> do {
       (batch, g) \<leftarrow> gateway_on_tick (core_gateway (core st)) tick;
       let st = count (venue_batch_overflows_update (\<lambda>n. n + int (batch_overflow_count batch))) (set_gateway g st);
       let st = record_since env ColExecution resting_start st;
       handle_venue_events env config st (batch_events batch) tick
     }
   }"

text \<open>The passive-order bookkeeping: forget a finished order, cancel one that is too old.\<close>

definition forget_finished :: "ReplayCore \<Rightarrow> ReplayCore" where
  "forget_finished c =
     (if o_state (core_order c) = Filled \<or> o_state (core_order c) = Canceled \<or> o_state (core_order c) = Expired
      then c\<lparr>core_passive_submit_ts := -1\<rparr> else c)"

definition passive_cancel_due :: "ExecutionStyle \<Rightarrow> TimestampNs \<Rightarrow> ReplayCore \<Rightarrow> MarketTick \<Rightarrow> bool option" where
  "passive_cancel_due style cancel_after c tick =
     (if style = Passive \<and> (o_state (core_order c) = Acked \<or> o_state (core_order c) = PartiallyFilled) \<and>
         core_passive_submit_ts c \<ge> 0
      then do {
        age \<leftarrow> sub64 (receive_ts_ns tick) (core_passive_submit_ts c);
        Some (age \<ge> cancel_after)
      }
      else Some False)"

definition cancel_phase :: "'k ReplayEnv \<Rightarrow> ReplayConfig \<Rightarrow> 'k RunState \<Rightarrow> MarketTick \<Rightarrow> 'k RunState option" where
  "cancel_phase env config st tick =
     (let st = st\<lparr>core := forget_finished (core st)\<rparr>
      in do {
        due \<leftarrow> passive_cancel_due (execution_style config) (passive_cancel_after_ns config) (core st) tick;
        (if \<not> due then Some st
         else do {
           let from_st = o_state (core_order (core st));
           let side = o_side (core_order (core st));
           (requested, g, od) \<leftarrow> submit_cancel_request (core_gateway (core st)) (core_order (core st)) (receive_ts_ns tick);
           let st = set_order od (set_gateway g st);
           Some (if requested then emit_transition env config st (receive_ts_ns tick) from_st PendingCancel side else st)
         })
      })"

text \<open>
  An accepted order: its price in passive mode, the local submission, and for a local
  success the gateway's answer (\<open>send_phase\<close>), a refusal of which is handled as a reject.
\<close>

definition passive_price :: "ExecutionStyle \<Rightarrow> MarketTick \<Rightarrow> OrderRequest \<Rightarrow> OrderRequest" where
  "passive_price style tick order = (if style = Passive
     then order\<lparr>req_limit_price := (if req_side order = Buy then bid_price tick else ask_price tick)\<rparr> else order)"

definition gateway_request :: "ExecutionStyle \<Rightarrow> MarketTick \<Rightarrow> i64 \<Rightarrow> OrderRequest \<Rightarrow> GatewayNewOrder" where
  "gateway_request style tick client_id request =
     \<lparr>gn_client_order_id = client_id, gn_side = req_side request, gn_quantity = req_quantity request,
      gn_limit_price = req_limit_price request, gn_style = style, gn_submit_ts_ns = receive_ts_ns tick\<rparr>"

definition send_phase ::
  "'k ReplayEnv \<Rightarrow> ReplayConfig \<Rightarrow> 'k RunState \<Rightarrow> MarketTick \<Rightarrow> i64 \<Rightarrow> OrderRequest \<Rightarrow> (bool \<times> 'k RunState) option" where
  "send_phase env config st tick client_id request =
     (let st = count (local_submissions_update (\<lambda>n. n + 1)) st;
          st = emit_transition env config st (receive_ts_ns tick) Idle PendingNewAck (req_side request);
          st = count (gateway_submissions_update (\<lambda>n. n + 1)) st
      in do {
        (acc, g) \<leftarrow> send_new (core_gateway (core st)) (gateway_request (execution_style config) tick client_id request);
        let st = set_gateway g st;
        st \<leftarrow> (if acc then Some st
              else handle_venue_event env config st (venue_event EvNewReject (receive_ts_ns tick) 0 0 0) (req_side request) tick);
        Some (acc, st)
      })"

definition submit_phase ::
  "'k ReplayEnv \<Rightarrow> ReplayConfig \<Rightarrow> 'k RunState \<Rightarrow> MarketTick \<Rightarrow> OrderRequest \<Rightarrow> 'k RunState option" where
  "submit_phase env config st tick order =
     (case clock_now env st of (execution_start, st) \<Rightarrow>
      let request = passive_price (execution_style config) tick order;
          client_id = core_client_order_id (core st);
          st = st\<lparr>core := (core st)\<lparr>core_client_order_id := client_id + 1\<rparr>\<rparr>
      in case submit_new (core_order (core st)) client_id (req_side request) (req_limit_price request)
           (req_quantity request) of (submitted, od) \<Rightarrow> do {
             let st = set_order od st;
             (gateway_accepted, st) \<leftarrow>
               (if submitted then send_phase env config st tick client_id request else Some (False, st));
             let st = record_since env ColExecution execution_start st;
             Some (if execution_style config = Passive \<and> gateway_accepted
                   then set_passive_submit_ts (receive_ts_ns tick) st else st)
           })"

text \<open>The strategy's decision, the risk check and the submission.\<close>

definition order_phase :: "'k ReplayEnv \<Rightarrow> ReplayConfig \<Rightarrow> 'k RunState \<Rightarrow> MarketTick \<Rightarrow> 'k RunState option" where
  "order_phase env config st tick =
     (case clock_now env st of (strategy_start, st) \<Rightarrow>
      let decision = strategy_on_tick replay_strategy tick;
          st = record_since env ColStrategy strategy_start st
      in if \<not> has_order decision then Some st
         else case clock_now env (count (strategy_signals_update (\<lambda>n. n + 1)) st) of (risk_start, st) \<Rightarrow> do {
           risk_decision \<leftarrow> evaluate replay_risk (position_state (core_accounting (core st))) (decision_order decision);
           let st = record_since env ColRisk risk_start st;
           (if \<not> accepted risk_decision
            then Some (emit_event env config (count (risk_rejects_update (\<lambda>n. n + 1)) st)
              (risk_reject_event (receive_ts_ns tick) (decision_order decision) (reject_reason risk_decision)))
            else submit_phase env config st tick (decision_order decision))
         })"

definition process_tick :: "'k ReplayEnv \<Rightarrow> ReplayConfig \<Rightarrow> 'k RunState \<Rightarrow> MarketTick \<Rightarrow> 'k RunState option" where
  "process_tick env config st tick =
     (case clock_now env st of (loop_start, st) \<Rightarrow> do {
        st \<leftarrow> venue_phase env config st tick;
        st \<leftarrow> cancel_phase env config st tick;
        st \<leftarrow> order_phase env config st tick;
        Some (record_since env ColEndToEnd loop_start st)
      })"

section \<open>The run\<close>

text \<open>The loop; \<^term>\<open>False\<close> in the result is the exception for a second symbol.\<close>

fun process_ticks ::
  "'k ReplayEnv \<Rightarrow> ReplayConfig \<Rightarrow> u32 \<Rightarrow> 'k RunState \<Rightarrow> MarketTick list \<Rightarrow> (bool \<times> 'k RunState) option" where
  "process_ticks env config symbol st [] = Some (True, st)"
| "process_ticks env config symbol st (tick # ticks) =
     (if symbol_id tick \<noteq> symbol then Some (False, st)
      else do { st \<leftarrow> process_tick env config st tick; process_ticks env config symbol st ticks })"

definition initialize_latencies :: "nat \<Rightarrow> LatencyError + ReplayLatencies" where
  "initialize_latencies n =
     (case latency_initialize ''strategy'' n 1 of Inl e \<Rightarrow> Inl e | Inr l1 \<Rightarrow>
      case latency_initialize ''risk'' n 1 of Inl e \<Rightarrow> Inl e | Inr l2 \<Rightarrow>
      case latency_initialize ''execution'' n 2 of Inl e \<Rightarrow> Inl e | Inr l3 \<Rightarrow>
      case latency_initialize ''accounting'' n 1 of Inl e \<Rightarrow> Inl e | Inr l4 \<Rightarrow>
      case latency_initialize ''event_sink'' n 4 of Inl e \<Rightarrow> Inl e | Inr l5 \<Rightarrow>
      case latency_initialize ''end_to_end'' n 1 of Inl e \<Rightarrow> Inl e | Inr l6 \<Rightarrow>
      Inr \<lparr>lat_strategy = l1, lat_risk = l2, lat_execution = l3, lat_accounting = l4,
           lat_event_sink = l5, lat_end_to_end = l6\<rparr>)"

definition side_init :: "'k \<Rightarrow> ReplayLatencies \<Rightarrow> 'k SideChannel" where
  "side_init sink latencies = \<lparr>side_sink = sink, side_queue = ring_init blank_event 1024, side_pushes = 0,
     side_dropped = 0, side_persisted = 0, side_sink_failed = False, side_latencies = latencies, side_clock_reads = 0\<rparr>"

definition any_overflow :: "ReplayLatencies \<Rightarrow> bool" where
  "any_overflow lat = list_ex (\<lambda>ls. overflow_count ls \<noteq> 0)
     [lat_strategy lat, lat_risk lat, lat_execution lat, lat_accounting lat, lat_event_sink lat, lat_end_to_end lat]"

definition replay_result :: "'k RunState \<Rightarrow> ReplayResult" where
  "replay_result st =
     \<lparr>res_counters = (core_counters (core st))\<lparr>persisted_events := side_persisted (channel st),
        dropped_events := side_dropped (channel st)\<rparr>,
      res_position = position_state (core_accounting (core st)),
      res_pnl = pnl_state (core_accounting (core st)),
      res_order = core_order (core st),
      res_execution_stats = stats (execution (core_gateway (core st))),
      res_latencies = side_latencies (channel st),
      res_sink_failed = side_sink_failed (channel st),
      res_latency_overflow = any_overflow (side_latencies (channel st))\<rparr>"

text \<open>
  \<^verbatim>\<open>run_replay\<close>: the exception or the result, and the sink as the run leaves it. Joining the
  sink thread drains the queue on both exits; without a thread the queue was never used.
\<close>

definition run_replay ::
  "'k ReplayEnv \<Rightarrow> MarketTick list \<Rightarrow> ReplayConfig \<Rightarrow> 'k \<Rightarrow> ((ReplayError + ReplayResult) \<times> 'k) option" where
  "run_replay env ticks config sink =
     (if ticks = [] then Some (Inl EmptyReplay, sink)
      else case initialize_latencies (length ticks) of
        Inl e \<Rightarrow> Some (Inl (LatencyCapacity e), sink)
      | Inr latencies \<Rightarrow> do {
          (one_symbol, st) \<leftarrow> process_ticks env config (symbol_id (hd ticks))
             \<lparr>core = core_init, channel = side_init sink latencies\<rparr> ticks;
          sd \<leftarrow> (if sink_mode config = SinkAsync then sink_drain env (channel st) else Some (channel st));
          let st = st\<lparr>channel := sd\<rparr>;
          Some (if one_symbol then Inr (replay_result st) else Inl MultipleSymbols, side_sink (channel st))
        })"

end
