(* ===== verification/Replay_Kernel.thy ===== *)
theory Replay_Kernel
  imports Replay_Runner
begin

text \<open>
  The replay loop without its side channel: the same steps on the business state alone,
  with no sink, queue, clock or thread schedule in sight. Each operation of the loop
  refines its kernel operation (the business state after the operation is the kernel
  operation on the business state before it), so the business outcome of a run is a
  function of the ticks, the execution style and the cancel delay.
\<close>

section \<open>Kernel operations\<close>

definition k_count :: "(ReplayCounters \<Rightarrow> ReplayCounters) \<Rightarrow> ReplayCore \<Rightarrow> ReplayCore" where
  "k_count f c = c\<lparr>core_counters := f (core_counters c)\<rparr>"

definition k_emit :: "ReplayCore \<Rightarrow> TradeEvent \<Rightarrow> ReplayCore" where
  "k_emit c e = (k_count (accepted_events_update (\<lambda>n. n + 1)) c)\<lparr>core_journal := core_journal c @ [e]\<rparr>"

definition k_transition :: "ReplayCore \<Rightarrow> TimestampNs \<Rightarrow> OrderState \<Rightarrow> OrderState \<Rightarrow> Side \<Rightarrow> ReplayCore" where
  "k_transition c ts a b s = (if a \<noteq> b then k_emit c (transition_event ts a b s) else c)"

definition k_fill :: "ReplayCore \<Rightarrow> Fill \<Rightarrow> MarketTick \<Rightarrow> ReplayCore option" where
  "k_fill c fill tick =
     (if f_quantity fill \<le> 0 then Some c
      else do {
        (booked, a) \<leftarrow> apply_fill (core_accounting c) fill;
        (if \<not> booked then Some (k_count (accounting_rejected_fills_update (\<lambda>n. n + 1)) (c\<lparr>core_accounting := a\<rparr>))
         else do {
           mid \<leftarrow> mid_price tick;
           a \<leftarrow> mark_to_market a mid;
           Some (k_count (fills_update (\<lambda>n. n + 1)) (k_emit (c\<lparr>core_accounting := a\<rparr>) (fill_event fill)))
         })
      })"

definition k_invalid :: "VenueEventOutcome \<Rightarrow> ReplayCore \<Rightarrow> ReplayCore" where
  "k_invalid outcome c =
     (let c = k_count (invalid_venue_events_update (\<lambda>n. n + 1)) c
      in case outcome of
           WrongState \<Rightarrow> k_count (wrong_state_events_update (\<lambda>n. n + 1)) c
         | WrongOrder \<Rightarrow> k_count (wrong_order_events_update (\<lambda>n. n + 1)) c
         | InvalidQuantity \<Rightarrow> k_count (invalid_quantity_events_update (\<lambda>n. n + 1)) c
         | InvalidVenueOrderId \<Rightarrow> k_count (invalid_venue_order_id_events_update (\<lambda>n. n + 1)) c
         | Applied \<Rightarrow> c)"

definition k_reject :: "ReplayCore \<Rightarrow> VenueEvent \<Rightarrow> ManagedOrder \<Rightarrow> Side \<Rightarrow> ReplayCore" where
  "k_reject c event od s =
     (if ev_type event = EvNewReject
      then k_emit (k_count (venue_rejects_update (\<lambda>n. n + 1)) c)
             (venue_reject_event (ev_ts_ns event) (o_order_qty od) s NewRejectedByVenue)
      else if ev_type event = EvCancelReject
      then k_emit (k_count (venue_rejects_update (\<lambda>n. n + 1)) c)
             (venue_reject_event (ev_ts_ns event) (o_leaves_qty od) s CancelRejectedByVenue)
      else c)"

definition k_event :: "ReplayCore \<Rightarrow> VenueEvent \<Rightarrow> Side \<Rightarrow> MarketTick \<Rightarrow> ReplayCore option" where
  "k_event c event fallback_side tick =
     (let from_st = o_state (core_order c);
          s = (if from_st = Idle then fallback_side else o_side (core_order c))
      in do {
        (outcome, fill, od) \<leftarrow> on_venue_event (core_order c) event;
        let c = c\<lparr>core_order := od\<rparr>;
        (if outcome = Applied
         then do {
           c \<leftarrow> k_fill (k_transition c (ev_ts_ns event) from_st (o_state od) s) fill tick;
           Some (k_reject c event od s)
         }
         else Some (k_invalid outcome c))
      })"

fun k_events :: "ReplayCore \<Rightarrow> VenueEvent list \<Rightarrow> MarketTick \<Rightarrow> ReplayCore option" where
  "k_events c [] tick = Some c"
| "k_events c (event # events) tick = do {
     c \<leftarrow> k_event c event (o_side (core_order c)) tick;
     k_events c events tick
   }"

definition k_venue :: "ReplayCore \<Rightarrow> MarketTick \<Rightarrow> ReplayCore option" where
  "k_venue c tick = do {
     mid \<leftarrow> mid_price tick;
     a \<leftarrow> mark_to_market (core_accounting c) mid;
     (batch, g) \<leftarrow> gateway_on_tick (core_gateway c) tick;
     k_events (k_count (venue_batch_overflows_update (\<lambda>n. n + int (batch_overflow_count batch)))
       (c\<lparr>core_accounting := a, core_gateway := g\<rparr>)) (batch_events batch) tick
   }"

definition k_cancel :: "ExecutionStyle \<Rightarrow> TimestampNs \<Rightarrow> ReplayCore \<Rightarrow> MarketTick \<Rightarrow> ReplayCore option" where
  "k_cancel style cancel_after c tick =
     (let c = forget_finished c
      in do {
        due \<leftarrow> passive_cancel_due style cancel_after c tick;
        (if \<not> due then Some c
         else do {
           (requested, g, od) \<leftarrow> submit_cancel_request (core_gateway c) (core_order c) (receive_ts_ns tick);
           let d = c\<lparr>core_gateway := g, core_order := od\<rparr>;
           Some (if requested
                 then k_transition d (receive_ts_ns tick) (o_state (core_order c)) PendingCancel (o_side (core_order c))
                 else d)
         })
      })"

definition k_send :: "ExecutionStyle \<Rightarrow> ReplayCore \<Rightarrow> MarketTick \<Rightarrow> i64 \<Rightarrow> OrderRequest \<Rightarrow> (bool \<times> ReplayCore) option" where
  "k_send style c tick client_id request =
     (let c = k_count (local_submissions_update (\<lambda>n. n + 1)) c;
          c = k_transition c (receive_ts_ns tick) Idle PendingNewAck (req_side request);
          c = k_count (gateway_submissions_update (\<lambda>n. n + 1)) c
      in do {
        (acc, g) \<leftarrow> send_new (core_gateway c) (gateway_request style tick client_id request);
        let c = c\<lparr>core_gateway := g\<rparr>;
        c \<leftarrow> (if acc then Some c
             else k_event c (venue_event EvNewReject (receive_ts_ns tick) 0 0 0) (req_side request) tick);
        Some (acc, c)
      })"

definition k_submit :: "ExecutionStyle \<Rightarrow> ReplayCore \<Rightarrow> MarketTick \<Rightarrow> OrderRequest \<Rightarrow> ReplayCore option" where
  "k_submit style c tick order =
     (let request = passive_price style tick order;
          client_id = core_client_order_id c;
          c = c\<lparr>core_client_order_id := client_id + 1\<rparr>
      in case submit_new (core_order c) client_id (req_side request) (req_limit_price request) (req_quantity request) of
           (submitted, od) \<Rightarrow> do {
             let c = c\<lparr>core_order := od\<rparr>;
             (acc, c) \<leftarrow> (if submitted then k_send style c tick client_id request else Some (False, c));
             Some (if style = Passive \<and> acc then c\<lparr>core_passive_submit_ts := receive_ts_ns tick\<rparr> else c)
           })"

definition k_order :: "ExecutionStyle \<Rightarrow> ReplayCore \<Rightarrow> MarketTick \<Rightarrow> ReplayCore option" where
  "k_order style c tick =
     (let decision = strategy_on_tick replay_strategy tick
      in if \<not> has_order decision then Some c
         else do {
           let c = k_count (strategy_signals_update (\<lambda>n. n + 1)) c;
           risk \<leftarrow> evaluate replay_risk (position_state (core_accounting c)) (decision_order decision);
           (if \<not> accepted risk
            then Some (k_emit (k_count (risk_rejects_update (\<lambda>n. n + 1)) c)
              (risk_reject_event (receive_ts_ns tick) (decision_order decision) (reject_reason risk)))
            else k_submit style c tick (decision_order decision))
         })"

definition k_tick :: "ExecutionStyle \<Rightarrow> TimestampNs \<Rightarrow> ReplayCore \<Rightarrow> MarketTick \<Rightarrow> ReplayCore option" where
  "k_tick style cancel_after c tick = do {
     c \<leftarrow> k_venue c tick;
     c \<leftarrow> k_cancel style cancel_after c tick;
     k_order style c tick
   }"

fun k_run :: "ExecutionStyle \<Rightarrow> TimestampNs \<Rightarrow> ReplayCore \<Rightarrow> MarketTick list \<Rightarrow> ReplayCore option" where
  "k_run style cancel_after c [] = Some c"
| "k_run style cancel_after c (tick # ticks) = do {
     c \<leftarrow> k_tick style cancel_after c tick;
     k_run style cancel_after c ticks
   }"

section \<open>Refinement\<close>

named_theorems core_of

lemma core_count [core_of]: "core (count f st) = k_count f (core st)"
  by (simp add: count_def k_count_def)

lemma core_clock [core_of]: "core (snd (clock_now env st)) = core st"
  by (simp add: clock_now_def)

lemma core_record_since [core_of]: "core (record_since env c start st) = core st"
  by (simp add: record_since_def clock_now_def)

lemma core_emit [core_of]: "core (emit_event env config st e) = k_emit (core st) e"
  by (simp add: emit_event_def clock_now_def count_def k_count_def k_emit_def core_record_since Let_def)

lemma core_transition [core_of]: "core (emit_transition env config st ts a b s) = k_transition (core st) ts a b s"
  by (simp add: emit_transition_def k_transition_def core_emit)

lemma core_set [core_of]:
  "core (set_accounting a st) = (core st)\<lparr>core_accounting := a\<rparr>"
  "core (set_gateway g st) = (core st)\<lparr>core_gateway := g\<rparr>"
  "core (set_order od st) = (core st)\<lparr>core_order := od\<rparr>"
  "core (set_passive_submit_ts ts st) = (core st)\<lparr>core_passive_submit_ts := ts\<rparr>"
  by (simp_all add: set_accounting_def set_gateway_def set_order_def set_passive_submit_ts_def)

lemma core_reject [core_of]:
  "core (emit_venue_reject env config st ts q s r) =
     k_emit (k_count (venue_rejects_update (\<lambda>n. n + 1)) (core st)) (venue_reject_event ts q s r)"
  by (simp add: emit_venue_reject_def core_of)

lemma core_invalid [core_of]: "core (count_invalid r st) = k_invalid r (core st)"
  by (cases r) (simp_all add: count_invalid_def k_invalid_def core_of Let_def)

lemma clock_now_split: "(case clock_now env st of (t, st') \<Rightarrow> f t st') = f (fst (clock_now env st)) (snd (clock_now env st))"
  by (simp add: split_beta)

text \<open>Kernel refinement is closed under sequencing.\<close>

lemma map_bind_refines:
  assumes "map_option g m = m'" "\<And>x. m = Some x \<Longrightarrow> map_option h (f x) = f' (g x)"
  shows "map_option h (Option.bind m f) = Option.bind m' f'"
  using assms by (cases m) auto

lemma map_bind_same:
  assumes "\<And>x. m = Some x \<Longrightarrow> map_option h (f x) = f' x"
  shows "map_option h (Option.bind m f) = Option.bind m f'"
  using assms by (cases m) auto

lemma handle_fill_refines: "map_option core (handle_fill env config st fill tick) = k_fill (core st) fill tick"
  unfolding handle_fill_def k_fill_def clock_now_split
  by (auto simp: core_of Let_def intro!: map_bind_same)

lemma handle_venue_event_refines:
  "map_option core (handle_venue_event env config st ev fb tick) = k_event (core st) ev fb tick"
  unfolding handle_venue_event_def k_event_def Let_def
  by (rule map_bind_same)
    (auto simp: core_of k_reject_def handle_fill_refines intro!: map_bind_refines [where g = core and h = core])

lemma handle_venue_events_refines:
  "map_option core (handle_venue_events env config st evs tick) = k_events (core st) evs tick"
proof (induction evs arbitrary: st)
  case (Cons ev evs)
  then show ?case
    by (auto simp: handle_venue_event_refines intro!: map_bind_refines [where g = core and h = core])
qed simp

lemma venue_phase_refines: "map_option core (venue_phase env config st tick) = k_venue (core st) tick"
  unfolding venue_phase_def k_venue_def clock_now_split Let_def
  by (intro map_bind_same) (auto simp: core_of handle_venue_events_refines intro!: map_bind_same)

lemma cancel_phase_refines:
  "map_option core (cancel_phase env config st tick) =
     k_cancel (execution_style config) (passive_cancel_after_ns config) (core st) tick"
  unfolding cancel_phase_def k_cancel_def Let_def
  by (auto simp: core_of intro!: map_bind_same)

lemma send_phase_refines:
  "map_option (map_prod id core) (send_phase env config st tick cid r) = k_send (execution_style config) (core st) tick cid r"
  unfolding send_phase_def k_send_def Let_def core_of
  by (rule map_bind_same)
    (auto simp: core_of handle_venue_event_refines intro!: map_bind_refines [where g = core and h = "map_prod id core"])

lemma submit_phase_refines:
  "map_option core (submit_phase env config st tick order) = k_submit (execution_style config) (core st) tick order"
  unfolding submit_phase_def k_submit_def Let_def clock_now_split
  by (auto simp: core_of send_phase_refines split: prod.split
      intro!: map_bind_refines [where g = "map_prod id core" and h = core])

lemma order_phase_refines:
  "map_option core (order_phase env config st tick) = k_order (execution_style config) (core st) tick"
  unfolding order_phase_def k_order_def Let_def clock_now_split
  by (auto simp: core_of submit_phase_refines intro!: map_bind_same)

lemma process_tick_refines:
  "map_option core (process_tick env config st tick) =
     k_tick (execution_style config) (passive_cancel_after_ns config) (core st) tick"
proof -
  have fin: "map_option core (Option.bind (order_phase env config s tick) (\<lambda>s. Some (record_since env c t s))) =
      k_order (execution_style config) (core s) tick" for s c t
    using order_phase_refines [of env config s tick] by (cases "order_phase env config s tick") (auto simp: core_of)
  show ?thesis
    unfolding process_tick_def k_tick_def clock_now_split
    by (intro map_bind_refines [where g = core and h = core])
      (simp_all add: venue_phase_refines cancel_phase_refines fin core_of)
qed

lemma process_ticks_refines:
  "map_option (map_prod id core) (process_ticks env config symbol st ticks) =
     map_option (Pair (list_all (\<lambda>t. symbol_id t = symbol) ticks))
       (k_run (execution_style config) (passive_cancel_after_ns config) (core st) (takeWhile (\<lambda>t. symbol_id t = symbol) ticks))"
proof (induction ticks arbitrary: st)
  case (Cons tick ticks)
  show ?case
  proof (cases "symbol_id tick = symbol")
    case True
    let ?k = "k_tick (execution_style config) (passive_cancel_after_ns config) (core st) tick"
    show ?thesis
    proof (cases "process_tick env config st tick")
      case None
      then have "?k = None" using process_tick_refines [of env config st tick] by simp
      with None True show ?thesis by simp
    next
      case (Some s)
      then have "?k = Some (core s)" using process_tick_refines [of env config st tick] by simp
      with Some True Cons.IH [of s] show ?thesis by simp
    qed
  qed simp
qed simp

end
