(* ===== verification/Replay_Relation.thy ===== *)
theory Replay_Relation
  imports Replay_Kernel
begin

text \<open>
  Proof principle for the replay loop. A graded relation \<open>R m st st'\<close> relates the states
  before and after a piece of the loop that has taken the latency samples \<open>m\<close>. When the
  primitive steps satisfy it and it composes, so does every operation of the loop. The
  interpretations are the delivery of the journal to the sink and the fill level of the
  latency collectors.
\<close>

section \<open>The contract of the primitive steps\<close>

text \<open>
  A change of the business state is quiet when it leaves the journal and the two counters
  that mirror it alone.
\<close>

definition quiet :: "ReplayCore \<Rightarrow> ReplayCore \<Rightarrow> bool" where
  "quiet c d \<longleftrightarrow> core_journal d = core_journal c \<and>
     accepted_events (core_counters d) = accepted_events (core_counters c) \<and>
     fills (core_counters d) = fills (core_counters c)"

definition free_collector :: "Collector \<Rightarrow> bool" where
  "free_collector c \<longleftrightarrow> c \<noteq> ColEventSink \<and> c \<noteq> ColAccounting"

text \<open>The samples of one tick: what the strategy did decides which of them are taken.\<close>

definition tick_samples :: "Collector list set" where
  "tick_samples = {[ColExecution, ColStrategy] @ xs @ [ColEndToEnd] | xs. xs \<in> {[], [ColRisk], [ColRisk, ColExecution]}}"

locale loop_relation =
  fixes env :: "'k ReplayEnv" and config :: ReplayConfig
    and R :: "Collector list \<Rightarrow> 'k RunState \<Rightarrow> 'k RunState \<Rightarrow> bool"
  assumes skip_step: "R [] st st"
    and seq: "R m st st1 \<Longrightarrow> R n st1 st2 \<Longrightarrow> R (m @ n) st st2"
    and core_step: "quiet (core st) c \<Longrightarrow> R [] st (st\<lparr>core := c\<rparr>)"
    and clock_step: "R [] st (snd (clock_now env st))"
    and sample_step: "free_collector col \<Longrightarrow> t \<in> range (env_clock env) \<Longrightarrow> R [col] st (record_since env col t st)"
    and emit_step: "R [] st (emit_event env config st e)"
    and booked_step: "t \<in> range (env_clock env) \<Longrightarrow>
       R [] st (count (fills_update (\<lambda>n. n + 1)) (emit_event env config (record_since env ColAccounting t st) e))"
begin

lemma clock_reading [simp]: "fst (clock_now env st) \<in> range (env_clock env)"
  by (simp add: clock_now_def)

lemma seq0: "R [] st st1 \<Longrightarrow> R m st1 st2 \<Longrightarrow> R m st st2"
  using seq [of "[]"] by simp

lemma post_seq:
  assumes "R m st st1" "post x (R n st1)"
  shows "post x (R (m @ n) st)"
  using assms(2) by (rule post_mono) (rule seq [OF assms(1)])

lemma post_seq0: "R [] st st1 \<Longrightarrow> post x (R m st1) \<Longrightarrow> post x (R m st)"
  using post_seq [of "[]"] by simp

lemma set_steps:
  "R [] st (set_accounting a st)" "R [] st (set_gateway g st)" "R [] st (set_order od st)"
  "R [] st (set_passive_submit_ts ts st)"
  unfolding set_accounting_def set_gateway_def set_order_def set_passive_submit_ts_def
  by (rule core_step, simp add: quiet_def)+

lemma count_step: "quiet (core st) (k_count f (core st)) \<Longrightarrow> R [] st (count f st)"
  using core_step [of st] by (simp add: count_def k_count_def)

lemma emit_transition_step: "R [] st (emit_transition env config st ts a b s)"
  by (simp add: emit_transition_def skip_step emit_step)

lemma emit_venue_reject_step: "R [] st (emit_venue_reject env config st ts q s r)"
  unfolding emit_venue_reject_def
  by (rule seq0 [OF count_step emit_step]) (simp add: quiet_def k_count_def)

lemma count_invalid_step: "R [] st (count_invalid r st)"
  unfolding count_invalid_def Let_def
  by (rule seq0 [OF count_step [of _ "invalid_venue_events_update (\<lambda>n. n + 1)"]], simp add: quiet_def k_count_def)
    (cases r; simp add: skip_step; rule count_step; simp add: quiet_def k_count_def)

lemma handle_fill_step: "post (handle_fill env config st fill tick) (R [] st)"
proof -
  let ?s = "snd (clock_now env st)"
  have rej: "R [] st (count (accounting_rejected_fills_update (\<lambda>n. n + 1)) (set_accounting a ?s))" for a
    by (rule seq0 [OF clock_step seq0 [OF set_steps(1) count_step]]) (simp add: quiet_def k_count_def)
  have acc: "R [] st (count (fills_update (\<lambda>n. n + 1)) (emit_event env config
      (record_since env ColAccounting (fst (clock_now env st)) (set_accounting a ?s)) e))" for a e
    by (rule seq0 [OF clock_step seq0 [OF set_steps(1) booked_step]]) simp
  show ?thesis
    unfolding handle_fill_def clock_now_split
    by (auto simp: skip_step rej acc Let_def Option.bind_eq_Some_conv intro!: postI split: if_splits)
qed

lemma handle_venue_event_step: "post (handle_venue_event env config st ev fb tick) (R [] st)"
proof (rule postI)
  fix st' assume r: "handle_venue_event env config st ev fb tick = Some st'"
  then obtain oc f od where o: "on_venue_event (core_order (core st)) ev = Some (oc, f, od)"
    by (auto simp: handle_venue_event_def Let_def Option.bind_eq_Some_conv)
  define st1 where "st1 = set_order od st"
  have s1: "R [] st st1" unfolding st1_def by (rule set_steps(3))
  show "R [] st st'"
  proof (cases "oc = Applied")
    case False
    then show ?thesis
      using r o seq0 [OF s1 count_invalid_step [of _ oc]] by (auto simp: handle_venue_event_def Let_def st1_def)
  next
    case True
    define s where "s = (if o_state (core_order (core st)) = Idle then fb else o_side (core_order (core st)))"
    define st2 where "st2 = emit_transition env config st1 (ev_ts_ns ev) (o_state (core_order (core st))) (o_state od) s"
    obtain st3 where st3: "handle_fill env config st2 f tick = Some st3"
        "st' = st3 \<or> (\<exists>q rr. st' = emit_venue_reject env config st3 (ev_ts_ns ev) q s rr)"
      using r o True
      by (auto simp: handle_venue_event_def Let_def st2_def st1_def s_def Option.bind_eq_Some_conv split: if_splits)
    have "R [] st1 st2" unfolding st2_def by (rule emit_transition_step)
    from seq0 [OF s1 seq0 [OF this postD [OF handle_fill_step st3(1)]]] have "R [] st st3" .
    then show ?thesis using st3(2) seq0 [OF _ emit_venue_reject_step] by auto
  qed
qed

lemma handle_venue_events_step: "post (handle_venue_events env config st evs tick) (R [] st)"
proof (induction evs arbitrary: st)
  case (Cons ev evs)
  then show ?case
    by (auto simp: post_bind intro!: post_mono [OF handle_venue_event_step] intro: post_seq0)
qed (simp add: skip_step)

lemma venue_phase_step: "post (venue_phase env config st tick) (R [ColExecution] st)"
proof (rule postI)
  fix st' assume "venue_phase env config st tick = Some st'"
  then obtain a and b :: VenueEventBatch and g where r: "handle_venue_events env config (record_since env ColExecution
        (fst (clock_now env (set_accounting a st)))
        (count (venue_batch_overflows_update (\<lambda>n. n + int (batch_overflow_count b)))
          (set_gateway g (snd (clock_now env (set_accounting a st)))))) (batch_events b) tick = Some st'"
    by (auto simp: venue_phase_def clock_now_split Let_def Option.bind_eq_Some_conv split_beta)
  let ?s = "set_gateway g (snd (clock_now env (set_accounting a st)))"
  let ?c = "count (venue_batch_overflows_update (\<lambda>n. n + int (batch_overflow_count b))) ?s"
  have "R [] st ?s" by (rule seq0 [OF set_steps(1) seq0 [OF clock_step set_steps(2)]])
  moreover have "R [] ?s ?c" by (rule count_step) (simp add: quiet_def k_count_def)
  ultimately have "R [ColExecution] st (record_since env ColExecution (fst (clock_now env (set_accounting a st))) ?c)"
    by (intro seq0 [OF _ seq0 [OF _ sample_step]]) (auto simp: free_collector_def)
  from seq [OF this postD [OF handle_venue_events_step r]] show "R [ColExecution] st st'" by simp
qed

lemma cancel_phase_step: "post (cancel_phase env config st tick) (R [] st)"
proof -
  define s where "s = st\<lparr>core := forget_finished (core st)\<rparr>"
  have s: "R [] st s" unfolding s_def by (rule core_step) (simp add: quiet_def forget_finished_def)
  have "R [] st (set_order od (set_gateway g s))" for od g by (rule seq0 [OF s seq0 [OF set_steps(2,3)]])
  moreover from this have "R [] st (emit_transition env config (set_order od (set_gateway g s)) ts a b x)" for od g ts a b x
    by (rule seq0 [OF _ emit_transition_step])
  ultimately show ?thesis
    unfolding cancel_phase_def Let_def s_def [symmetric]
    by (auto simp: s Option.bind_eq_Some_conv intro!: postI split: if_splits)
qed

lemma send_phase_step: "post (send_phase env config st tick cid r) (\<lambda>(acc, st'). R [] st st')"
proof (rule postI, clarify)
  fix acc st' assume e: "send_phase env config st tick cid r = Some (acc, st')"
  define s where "s = count (gateway_submissions_update (\<lambda>n. n + 1)) (emit_transition env config
     (count (local_submissions_update (\<lambda>n. n + 1)) st) (receive_ts_ns tick) Idle PendingNewAck (req_side r))"
  have s: "R [] st s"
    unfolding s_def
    by (rule seq0 [OF count_step seq0 [OF emit_transition_step count_step]]) (simp_all add: quiet_def k_count_def)
  obtain g where g: "st' = set_gateway g s \<or>
      handle_venue_event env config (set_gateway g s) (venue_event EvNewReject (receive_ts_ns tick) 0 0 0) (req_side r) tick = Some st'"
    using e by (auto simp: send_phase_def Let_def s_def [symmetric] Option.bind_eq_Some_conv split: if_splits)
  have "R [] st (set_gateway g s)" by (rule seq0 [OF s set_steps(2)])
  then show "R [] st st'" using g postD [OF handle_venue_event_step] seq0 by blast
qed

lemma submit_phase_step: "post (submit_phase env config st tick ord) (R [ColExecution] st)"
proof (rule postI)
  fix st' assume e: "submit_phase env config st tick ord = Some st'"
  define t where "t = fst (clock_now env st)"
  define s where "s = snd (clock_now env st)"
  define r where "r = passive_price (execution_style config) tick ord"
  define cid where "cid = core_client_order_id (core s)"
  obtain b od where sn: "submit_new (core_order (core s)) cid (req_side r) (req_limit_price r) (req_quantity r) = (b, od)"
    by fastforce
  define s1 where "s1 = set_order od (s\<lparr>core := (core s)\<lparr>core_client_order_id := cid + 1\<rparr>\<rparr>)"
  have c: "R [] s (s\<lparr>core := (core s)\<lparr>core_client_order_id := cid + 1\<rparr>\<rparr>)" by (rule core_step) (simp add: quiet_def)
  have s1: "R [] st s1"
    unfolding s1_def by (rule seq0 [OF _ seq0 [OF c set_steps(3)]]) (simp add: s_def clock_step)
  have e': "Option.bind (if b then send_phase env config s1 tick cid r else Some (False, s1))
      (\<lambda>(acc, s2). Some (if execution_style config = Passive \<and> acc
         then set_passive_submit_ts (receive_ts_ns tick) (record_since env ColExecution t s2)
         else record_since env ColExecution t s2)) = Some st'"
    using e sn unfolding submit_phase_def clock_now_split Let_def s_def t_def r_def cid_def s1_def
    by (simp split del: if_split)
  obtain acc s2 where s2: "(if b then send_phase env config s1 tick cid r else Some (False, s1)) = Some (acc, s2)"
      "st' = (if execution_style config = Passive \<and> acc
         then set_passive_submit_ts (receive_ts_ns tick) (record_since env ColExecution t s2)
         else record_since env ColExecution t s2)"
    using e' by (cases "if b then send_phase env config s1 tick cid r else Some (False, s1)")
      (auto split del: if_split)
  have "R [] s1 s2"
  proof (cases b)
    case True
    with s2(1) postD [OF send_phase_step] show ?thesis by fastforce
  qed (use s2(1) skip_step in auto)
  then have "R [ColExecution] st (record_since env ColExecution t s2)"
    using seq0 [OF s1 seq0 [OF _ sample_step]] by (simp add: free_collector_def t_def)
  moreover have "R [ColExecution] st (set_passive_submit_ts ts st2)" if "R [ColExecution] st st2" for ts st2
    using seq [OF that set_steps(4)] by simp
  ultimately show "R [ColExecution] st st'" using s2(2) by auto
qed

lemma order_phase_step:
  "post (order_phase env config st tick) (\<lambda>st'. \<exists>m. R (ColStrategy # m) st st' \<and> m \<in> {[], [ColRisk], [ColRisk, ColExecution]})"
proof (rule postI)
  fix st' assume e: "order_phase env config st tick = Some st'"
  define s where "s = record_since env ColStrategy (fst (clock_now env st)) (snd (clock_now env st))"
  define s1 where "s1 = snd (clock_now env (count (strategy_signals_update (\<lambda>n. n + 1)) s))"
  have s: "R [ColStrategy] st s"
    unfolding s_def by (rule seq0 [OF clock_step sample_step]) (simp_all add: free_collector_def)
  have "R [] s s1"
    unfolding s1_def by (rule seq0 [OF count_step clock_step]) (simp add: quiet_def k_count_def)
  then have rs: "R [ColStrategy, ColRisk] st (record_since env ColRisk t s1)" if "t \<in> range (env_clock env)" for t
    using seq [OF s seq0 [OF _ sample_step]] that by (simp add: free_collector_def)
  define d where "d = strategy_on_tick replay_strategy tick"
  define t where "t = fst (clock_now env (count (strategy_signals_update (\<lambda>n. n + 1)) s))"
  define s2 where "s2 = record_since env ColRisk t s1"
  have rs2: "R [ColStrategy, ColRisk] st s2" unfolding s2_def by (rule rs) (simp add: t_def)
  have e': "(if \<not> has_order d then Some s else Option.bind (evaluate replay_risk (position_state (core_accounting (core s1))) (decision_order d))
      (\<lambda>x. if \<not> accepted x then Some (emit_event env config (count (risk_rejects_update (\<lambda>n. n + 1)) s2)
        (risk_reject_event (receive_ts_ns tick) (decision_order d) (reject_reason x)))
       else submit_phase env config s2 tick (decision_order d))) = Some st'"
    using e unfolding order_phase_def clock_now_split Let_def s2_def s1_def t_def s_def d_def .
  consider (none) "st' = s"
    | (rejected) rr where "st' = emit_event env config (count (risk_rejects_update (\<lambda>n. n + 1)) s2)
        (risk_reject_event (receive_ts_ns tick) (decision_order d) rr)"
    | (submitted) "submit_phase env config s2 tick (decision_order d) = Some st'"
    using e' by (fastforce simp: Option.bind_eq_Some_conv split: if_split_asm)
  then show "\<exists>m. R (ColStrategy # m) st st' \<and> m \<in> {[], [ColRisk], [ColRisk, ColExecution]}"
  proof cases
    case none
    then show ?thesis using s by auto
  next
    case rejected
    have "R [] s2 st'"
      unfolding rejected by (rule seq0 [OF count_step emit_step]) (simp add: quiet_def k_count_def)
    from seq [OF rs2 this] show ?thesis by auto
  next
    case submitted
    from seq [OF rs2 postD [OF submit_phase_step submitted]] show ?thesis by auto
  qed
qed

lemma process_tick_step: "post (process_tick env config st tick) (\<lambda>st'. \<exists>m \<in> tick_samples. R m st st')"
proof (rule postI)
  fix st' assume "process_tick env config st tick = Some st'"
  then obtain s1 s2 s3 where r: "venue_phase env config (snd (clock_now env st)) tick = Some s1"
      "cancel_phase env config s1 tick = Some s2" "order_phase env config s2 tick = Some s3"
      "st' = record_since env ColEndToEnd (fst (clock_now env st)) s3"
    by (auto simp: process_tick_def clock_now_split Option.bind_eq_Some_conv)
  obtain m where m: "R (ColStrategy # m) s2 s3" "m \<in> {[], [ColRisk], [ColRisk, ColExecution]}"
    using postD [OF order_phase_step r(3)] by auto
  have "R [ColExecution] st s2"
    using seq [OF seq0 [OF clock_step postD [OF venue_phase_step r(1)]] postD [OF cancel_phase_step r(2)]] by simp
  from seq [OF seq [OF this m(1)] sample_step [of ColEndToEnd "fst (clock_now env st)"]]
  have "R ([ColExecution, ColStrategy] @ m @ [ColEndToEnd]) st st'"
    by (simp add: r(4) free_collector_def)
  then show "\<exists>m \<in> tick_samples. R m st st'" using m(2) unfolding tick_samples_def by blast
qed

text \<open>A run over one symbol takes the samples of as many ticks as there are.\<close>

lemma process_ticks_step:
  "post (process_ticks env config symbol st ticks) (\<lambda>(single, st').
     \<exists>ms. R (concat ms) st st' \<and> set ms \<subseteq> tick_samples \<and> length ms \<le> length ticks \<and>
       (single \<longrightarrow> length ms = length ticks))"
proof (induction ticks arbitrary: st)
  case Nil
  show ?case by (auto intro!: exI [of _ "[]"] simp: skip_step)
next
  case (Cons tick ticks)
  have "post (process_ticks env config symbol s ticks) (\<lambda>(single, st').
     \<exists>ms. R (concat ms) st st' \<and> set ms \<subseteq> tick_samples \<and> length ms \<le> Suc (length ticks) \<and>
       (single \<longrightarrow> length ms = Suc (length ticks)))" if "R m st s" "m \<in> tick_samples" for m s
    using Cons.IH [of s]
  proof (rule post_mono, clarify)
    fix b s' ms assume "R (concat ms) s s'" "set ms \<subseteq> tick_samples" "length ms \<le> length ticks"
      "b \<longrightarrow> length ms = length ticks"
    then show "\<exists>ms. R (concat ms) st s' \<and> set ms \<subseteq> tick_samples \<and> length ms \<le> Suc (length ticks) \<and>
       (b \<longrightarrow> length ms = Suc (length ticks))"
      using that by (intro exI [of _ "m # ms"]) (auto intro: seq)
  qed
  then show ?case
    by (auto simp: post_bind skip_step intro!: post_mono [OF process_tick_step] exI [of _ "[]"])
qed

end

end
