(* ===== verification/Replay_Safety.thy ===== *)
theory Replay_Safety
  imports Replay_Kernel
begin

text \<open>
  Invariants of the replay loop, on its kernel: the ledger agrees with the journal, the
  position limit holds under every partial execution, order manager and gateway stay
  linked, and the counters that would report an internal inconsistency stay zero.
\<close>

section \<open>The invariant\<close>

text \<open>What the journal says about position and cash.\<close>

definition event_qty :: "TradeEvent \<Rightarrow> int" where
  "event_qty e = (if te_kind e = KFill then side_sign (te_side e) * te_quantity e else 0)"

definition journal_net :: "TradeEvent list \<Rightarrow> int" where
  "journal_net j = sum_list (map event_qty j)"

definition journal_spent :: "TradeEvent list \<Rightarrow> int" where
  "journal_spent j = sum_list (map (\<lambda>e. event_qty e * te_price e) j)"

definition journal_fills :: "TradeEvent list \<Rightarrow> nat" where
  "journal_fills j = length (filter (\<lambda>e. te_kind e = KFill) j)"

definition books :: "ReplayCore \<Rightarrow> bool" where
  "books c \<longleftrightarrow> (let a = core_accounting c; j = core_journal c; n = core_counters c in
     acct_inv a \<and> net_of a = journal_net j \<and> cash_of a = - journal_spent j \<and>
     accepted_events n = int (length j) \<and> fills n = int (journal_fills j) \<and> accounting_rejected_fills n = 0)"

text \<open>The quantity an order may still add to the position.\<close>

definition exposure :: "ManagedOrder \<Rightarrow> int" where
  "exposure od = (if live_state (o_state od) then side_sign (o_side od) * o_leaves_qty od else 0)"

definition within_limit :: "ReplayCore \<Rightarrow> bool" where
  "within_limit c \<longleftrightarrow> \<bar>net_of (core_accounting c)\<bar> \<le> 200 \<and>
     \<bar>net_of (core_accounting c) + exposure (core_order c)\<bar> \<le> 200"

definition consistent :: "ExecutionStyle \<Rightarrow> venue_view \<Rightarrow> ReplayCore \<Rightarrow> bool" where
  "consistent style v c \<longleftrightarrow> (let n = core_counters c; od = core_order c in
     oms_inv od \<and> linked style v od \<and>
     wrong_order_events n = 0 \<and> invalid_quantity_events n = 0 \<and> invalid_venue_order_id_events n = 0 \<and>
     venue_batch_overflows n = 0 \<and> invalid_venue_events n = wrong_state_events n \<and> 0 \<le> wrong_state_events n \<and>
     gateway_submissions n = local_submissions n \<and>
     (wrong_state_events n = 0 \<longrightarrow> agree v od) \<and> (style = Aggressive \<longrightarrow> wrong_state_events n = 0))"

definition kernel_inv :: "ExecutionStyle \<Rightarrow> ReplayCore \<Rightarrow> bool" where
  "kernel_inv style c \<longleftrightarrow> gw_inv (core_gateway c) \<and> gw_style style (core_gateway c) \<and>
     books c \<and> within_limit c \<and> consistent style (gw_view (core_gateway c)) c"

lemma kernel_inv_init: "kernel_inv style core_init"
  by (auto simp: kernel_inv_def core_init_def books_def within_limit_def consistent_def zero_counters_def
      journal_net_def journal_spent_def journal_fills_def accounting_init_def acct_inv_def exposure_def
      linked_def agree_def idle_order_def live_state_def oms_inv_def)

section \<open>Primitive updates\<close>

lemma k_count_sel [simp]:
  "core_accounting (k_count f c) = core_accounting c" "core_gateway (k_count f c) = core_gateway c"
  "core_order (k_count f c) = core_order c" "core_client_order_id (k_count f c) = core_client_order_id c"
  "core_passive_submit_ts (k_count f c) = core_passive_submit_ts c"
  "core_counters (k_count f c) = f (core_counters c)" "core_journal (k_count f c) = core_journal c"
  by (simp_all add: k_count_def)

lemma k_emit_sel [simp]:
  "core_accounting (k_emit c e) = core_accounting c" "core_gateway (k_emit c e) = core_gateway c"
  "core_order (k_emit c e) = core_order c" "core_client_order_id (k_emit c e) = core_client_order_id c"
  "core_passive_submit_ts (k_emit c e) = core_passive_submit_ts c"
  "core_counters (k_emit c e) = accepted_events_update (\<lambda>n. n + 1) (core_counters c)"
  "core_journal (k_emit c e) = core_journal c @ [e]"
  by (simp_all add: k_emit_def)

lemma k_transition_sel [simp]:
  "core_accounting (k_transition c ts a b s) = core_accounting c" "core_gateway (k_transition c ts a b s) = core_gateway c"
  "core_order (k_transition c ts a b s) = core_order c"
  "core_client_order_id (k_transition c ts a b s) = core_client_order_id c"
  "core_passive_submit_ts (k_transition c ts a b s) = core_passive_submit_ts c"
  by (simp_all add: k_transition_def)

lemma event_qty_simps [simp]:
  "event_qty (transition_event ts a b s) = 0" "event_qty (venue_reject_event ts q s r) = 0"
  "event_qty (risk_reject_event ts od r) = 0" "event_qty (fill_event f) = signed_qty f"
  by (simp_all add: event_qty_def transition_event_def venue_reject_event_def risk_reject_event_def fill_event_def
      signed_qty_def)

lemma event_kind_simps [simp]:
  "te_kind (transition_event ts a b s) = KOmsTransition" "te_kind (venue_reject_event ts q s r) = KVenueReject"
  "te_kind (risk_reject_event ts od r) = KRiskReject" "te_kind (fill_event f) = KFill"
  "te_price (fill_event f) = f_price f"
  by (simp_all add: transition_event_def venue_reject_event_def risk_reject_event_def fill_event_def)

lemma books_emit: "te_kind e \<noteq> KFill \<Longrightarrow> books (k_emit c e) = books c"
  by (simp add: books_def Let_def journal_net_def journal_spent_def journal_fills_def event_qty_def)

lemma within_limit_frame [simp]:
  "within_limit (k_emit c e) = within_limit c" "within_limit (k_count f c) = within_limit c"
  "within_limit (k_transition c ts a b s) = within_limit c"
  by (simp_all add: within_limit_def)

lemma consistent_emit [simp]: "consistent style v (k_emit c e) = consistent style v c"
  by (simp add: consistent_def Let_def)

lemma books_transition [simp]: "books (k_transition c ts a b s) = books c"
  by (simp add: k_transition_def books_emit)

lemma consistent_transition [simp]: "consistent style v (k_transition c ts a b s) = consistent style v c"
  by (simp add: k_transition_def)

lemma books_order [simp]: "books (c\<lparr>core_order := od\<rparr>) = books c" "books (c\<lparr>core_gateway := g\<rparr>) = books c"
  "books (c\<lparr>core_passive_submit_ts := ts\<rparr>) = books c" "books (c\<lparr>core_client_order_id := i\<rparr>) = books c"
  by (simp_all add: books_def)

lemma journal_transition: "length (core_journal (k_transition c ts a b s)) \<le> length (core_journal c) + 1"
  by (simp add: k_transition_def)

lemma fills_transition [simp]: "fills (core_counters (k_transition c ts a b s)) = fills (core_counters c)"
  by (simp add: k_transition_def)

section \<open>Venue events\<close>

lemma k_fill_post:
  assumes "books c" "0 < f_quantity f"
  shows "post (k_fill c f tick) (\<lambda>d. books d \<and> (\<exists>a. d = k_count (fills_update (\<lambda>n. n + 1)) (k_emit (c\<lparr>core_accounting := a\<rparr>) (fill_event f)) \<and>
    net_of a = net_of (core_accounting c) + signed_qty f))"
proof (rule postI)
  fix d assume "k_fill c f tick = Some d"
  then obtain b a m a' where r: "apply_fill (core_accounting c) f = Some (b, a)" "b \<longrightarrow> mark_to_market a m = Some a'"
      "d = (if b then k_count (fills_update (\<lambda>n. n + 1)) (k_emit (c\<lparr>core_accounting := a'\<rparr>) (fill_event f))
            else k_count (accounting_rejected_fills_update (\<lambda>n. n + 1)) (c\<lparr>core_accounting := a\<rparr>))"
    using assms(2) by (auto simp: k_fill_def Option.bind_eq_Some_conv split: if_splits)
  have a: b "acct_inv a" "net_of a = net_of (core_accounting c) + signed_qty f"
      "cash_of a = cash_of (core_accounting c) - notional f"
    using postD [OF apply_fill_post [OF assms(2)] r(1)] by simp_all
  have a': "acct_inv a'" "net_of a' = net_of a" "cash_of a' = cash_of a"
    using postD [OF mark_to_market_post] r(2) a(1) by blast+
  have "books d"
    using assms(1) a a'
    by (simp add: r(3) books_def Let_def journal_net_def journal_spent_def journal_fills_def notional_def)
  then show "books d \<and> (\<exists>a. d = k_count (fills_update (\<lambda>n. n + 1)) (k_emit (c\<lparr>core_accounting := a\<rparr>) (fill_event f)) \<and>
      net_of a = net_of (core_accounting c) + signed_qty f)"
    using a a' r(3) by auto
qed

lemma exposure_step:
  assumes "on_venue_event od ev = Some (r, f, od')" "oms_inv od" "\<bar>n\<bar> \<le> 200" "\<bar>n + exposure od\<bar> \<le> 200"
  shows "\<bar>n + signed_qty f\<bar> \<le> 200 \<and> \<bar>n + signed_qty f + exposure od'\<bar> \<le> 200"
proof (cases "f_quantity f = 0")
  case True
  then have "signed_qty f = 0" by (simp add: signed_qty_def)
  moreover have "exposure od' = exposure od \<or> exposure od' = 0"
    using assms(1) True
    by (auto simp: on_venue_event_def exposure_def state_class_defs Option.bind_eq_Some_conv checked_defs
        split: VenueEventType.splits if_splits)
  ultimately show ?thesis using assms(3,4) by auto
next
  case False
  note fill = on_venue_event_fill [OF assms(1)]
  from False fill have app: "r = Applied" "ev_type ev = EvFill" by auto
  from False fill have q: "0 < f_quantity f" "f_quantity f \<le> o_leaves_qty od" "f_side f = o_side od"
      "o_leaves_qty od' = o_leaves_qty od - f_quantity f" by auto
  have op: "open_state (o_state od)" "o_state od' = (if o_leaves_qty od' = 0 then Filled else PartiallyFilled)"
    using assms(1) app
    by (auto simp: on_venue_event_def open_state_def Option.bind_eq_Some_conv split: if_split_asm
        dest: arg_cong [where f = o_state])
  have side: "o_side od' = o_side od" using on_venue_event_frame [OF assms(1)] by simp
  have e: "exposure od = side_sign (o_side od) * o_leaves_qty od" using op(1) by (auto simp: exposure_def state_class_defs)
  have e': "exposure od' = side_sign (o_side od) * (o_leaves_qty od - f_quantity f)"
    using op(2) q(4) by (simp add: exposure_def state_class_defs side)
  show ?thesis
    using assms(3,4) q side_sign_cases [of "o_side od"] unfolding signed_qty_def e e' by auto
qed

lemma k_reject_facts:
  "books (k_reject c ev od s) = books c" "within_limit (k_reject c ev od s) = within_limit c"
  "consistent style v (k_reject c ev od s) = consistent style v c"
  "core_gateway (k_reject c ev od s) = core_gateway c" "core_accounting (k_reject c ev od s) = core_accounting c" "core_order (k_reject c ev od s) = core_order c"
  "core_client_order_id (k_reject c ev od s) = core_client_order_id c"
  "core_passive_submit_ts (k_reject c ev od s) = core_passive_submit_ts c"
  "fills (core_counters (k_reject c ev od s)) = fills (core_counters c)"
  "length (core_journal (k_reject c ev od s)) = length (core_journal c) +
     (if ev_type ev \<in> {EvNewReject, EvCancelReject} then 1 else 0)"
  by (simp_all add: k_reject_def books_emit) (simp_all add: books_def consistent_def Let_def)

lemma k_invalid_facts:
  "books (k_invalid r c) = books c" "within_limit (k_invalid r c) = within_limit c"
  "core_gateway (k_invalid r c) = core_gateway c" "core_client_order_id (k_invalid r c) = core_client_order_id c"
  "core_passive_submit_ts (k_invalid r c) = core_passive_submit_ts c" "core_journal (k_invalid r c) = core_journal c"
  "fills (core_counters (k_invalid r c)) = fills (core_counters c)" "core_order (k_invalid r c) = core_order c"
  by (cases r; simp add: k_invalid_def books_def Let_def)+

text \<open>The part of the effect of an applied event that does not depend on its kind.\<close>

definition event_effect :: "ReplayCore \<Rightarrow> VenueEvent \<Rightarrow> ReplayCore \<Rightarrow> bool" where
  "event_effect c ev d \<longleftrightarrow> core_gateway d = core_gateway c \<and> core_client_order_id d = core_client_order_id c \<and>
     core_passive_submit_ts d = core_passive_submit_ts c \<and>
     length (core_journal d) \<le> length (core_journal c) + event_cost ev \<and>
     fills (core_counters d) \<le> fills (core_counters c) + (if is_fill ev then 1 else 0)"

definition same_checks :: "ReplayCounters \<Rightarrow> ReplayCounters \<Rightarrow> bool" where
  "same_checks n n' \<longleftrightarrow> wrong_order_events n' = wrong_order_events n \<and> invalid_quantity_events n' = invalid_quantity_events n \<and>
     invalid_venue_order_id_events n' = invalid_venue_order_id_events n \<and>
     venue_batch_overflows n' = venue_batch_overflows n \<and> invalid_venue_events n' = invalid_venue_events n \<and>
     wrong_state_events n' = wrong_state_events n \<and> gateway_submissions n' = gateway_submissions n \<and>
     local_submissions n' = local_submissions n"

lemma k_event_applied:
  assumes b: "books c" and l: "within_limit c" and i: "oms_inv (core_order c)"
    and e: "on_venue_event (core_order c) ev = Some (Applied, f, od)" and d: "k_event c ev fb tick = Some d"
  shows "books d \<and> within_limit d \<and> event_effect c ev d \<and> core_order d = od \<and>
    same_checks (core_counters c) (core_counters d)"
proof -
  define s where "s = (if o_state (core_order c) = Idle then fb else o_side (core_order c))"
  define t where "t = k_transition (c\<lparr>core_order := od\<rparr>) (ev_ts_ns ev) (o_state (core_order c)) (o_state od) s"
  obtain x where x: "k_fill t f tick = Some x" "d = k_reject x ev od s"
    using d e by (auto simp: k_event_def Let_def t_def s_def Option.bind_eq_Some_conv)
  note fill = on_venue_event_fill [OF e]
  have bt: "books t" using b by (simp add: t_def)
  have lim: "\<bar>net_of (core_accounting c) + signed_qty f\<bar> \<le> 200"
      "\<bar>net_of (core_accounting c) + signed_qty f + exposure od\<bar> \<le> 200"
    using exposure_step [OF e i] l by (simp_all add: within_limit_def)
  have jt: "length (core_journal t) \<le> length (core_journal c) + 1"
    using journal_transition [of "c\<lparr>core_order := od\<rparr>"] by (simp add: t_def)
  show ?thesis
  proof (cases "0 < f_quantity f")
    case True
    then have k: "ev_type ev = EvFill" using fill by auto
    obtain a where a: "x = k_count (fills_update (\<lambda>n. n + 1)) (k_emit (t\<lparr>core_accounting := a\<rparr>) (fill_event f))"
        "net_of a = net_of (core_accounting t) + signed_qty f" "books x"
      using postD [OF k_fill_post [OF bt True] x(1)] by auto
    have "within_limit d" using lim a by (simp add: x(2) k_reject_facts within_limit_def t_def)
    moreover have "event_effect c ev d"
      using jt k by (simp add: event_effect_def x(2) k_reject_facts a(1) event_cost_def is_fill_def) (simp add: t_def)
    moreover have "same_checks (core_counters c) (core_counters d)"
      by (simp add: same_checks_def x(2) k_reject_def a(1)) (simp add: t_def k_transition_def)
    moreover have "books d" "core_order d = od" using a(3) by (simp_all add: x(2) k_reject_facts) (simp add: a(1) t_def)
    ultimately show ?thesis by blast
  next
    case False
    then have z: "x = t" "signed_qty f = 0" using x(1) fill by (auto simp: k_fill_def signed_qty_def)
    have nf: "ev_type ev \<noteq> EvFill" using fill False by auto
    have "within_limit d" using lim z by (simp add: x(2) k_reject_facts within_limit_def t_def)
    moreover have "event_effect c ev d"
      using jt nf by (simp add: event_effect_def x(2) k_reject_facts z(1) event_cost_def is_fill_def) (simp add: t_def)
    moreover have "same_checks (core_counters c) (core_counters d)"
      by (simp add: same_checks_def x(2) k_reject_def z(1)) (simp add: t_def k_transition_def)
    moreover have "books d" "core_order d = od" using bt by (simp_all add: x(2) k_reject_facts z(1)) (simp add: t_def)
    ultimately show ?thesis by blast
  qed
qed

lemma consistent_facts:
  assumes "consistent style v c"
  shows "oms_inv (core_order c)" "linked style v (core_order c)"
  using assms by (simp_all add: consistent_def Let_def)

lemma k_event_post:
  assumes b: "books c" and l: "within_limit c" and k: "consistent style v c" and s: "view_step style v ev v'"
  shows "post (k_event c ev fb tick) (\<lambda>d. books d \<and> within_limit d \<and> consistent style v' d \<and> event_effect c ev d)"
proof (rule postI)
  fix d assume d: "k_event c ev fb tick = Some d"
  obtain r f od where e: "on_venue_event (core_order c) ev = Some (r, f, od)"
    and link: "oms_inv od" "linked style v' od" "benign ev r" "agree v (core_order c) \<and> r = Applied \<longrightarrow> agree v' od"
      "style = Aggressive \<longrightarrow> r = Applied"
    using link_step [OF consistent_facts [OF k] s] by (auto simp: ok_iff)
  show "books d \<and> within_limit d \<and> consistent style v' d \<and> event_effect c ev d"
  proof (cases "r = Applied")
    case True
    note a = k_event_applied [OF b l consistent_facts(1) [OF k] e [unfolded True] d]
    then have "consistent style v' d"
      using k link True by (simp add: consistent_def same_checks_def Let_def)
    with a show ?thesis by blast
  next
    case False
    have "od = core_order c" using on_venue_event_rejected [OF e False] by simp
    moreover have "r = WrongState" using link(3) False by (auto simp: benign_def)
    moreover have "style \<noteq> Aggressive" using link(5) False by blast
    ultimately have d': "d = k_invalid WrongState c" using d e by (auto simp: k_event_def)
    have "consistent style v' d"
      using k link \<open>od = _\<close> \<open>style \<noteq> _\<close> by (auto simp: d' consistent_def k_invalid_def Let_def)
    then show ?thesis using b l by (simp add: d' k_invalid_facts event_effect_def)
  qed
qed

lemma k_events_post:
  assumes "view_steps style v evs v'" "books c" "within_limit c" "consistent style v c"
  shows "post (k_events c evs tick) (\<lambda>d. books d \<and> within_limit d \<and> consistent style v' d \<and>
    core_gateway d = core_gateway c \<and> core_client_order_id d = core_client_order_id c \<and>
    core_passive_submit_ts d = core_passive_submit_ts c \<and>
    length (core_journal d) \<le> length (core_journal c) + sum_list (map event_cost evs) \<and>
    fills (core_counters d) \<le> fills (core_counters c) + int (length (filter is_fill evs)))"
  using assms
proof (induction arbitrary: c rule: view_steps.induct)
  case (cons style v ev v' evs v'')
  show ?case
    unfolding k_events.simps post_bind
  proof (rule post_mono [OF k_event_post [OF cons.prems cons.hyps(1)]], elim conjE)
    fix d assume d: "books d" "within_limit d" "consistent style v' d" "event_effect c ev d"
    show "post (k_events d evs tick) (\<lambda>x. books x \<and> within_limit x \<and> consistent style v'' x \<and>
        core_gateway x = core_gateway c \<and> core_client_order_id x = core_client_order_id c \<and>
        core_passive_submit_ts x = core_passive_submit_ts c \<and>
        length (core_journal x) \<le> length (core_journal c) + sum_list (map event_cost (ev # evs)) \<and>
        fills (core_counters x) \<le> fills (core_counters c) + int (length (filter is_fill (ev # evs))))"
      by (rule post_mono [OF cons.IH [OF d(1-3)]]) (use d(4) in \<open>auto simp: event_effect_def split: if_splits\<close>)
  qed
qed simp

section \<open>The phases of a tick\<close>

lemma k_venue_post:
  assumes inv: "kernel_inv style c"
  shows "post (k_venue c tick) (\<lambda>d. kernel_inv style d \<and> core_client_order_id d = core_client_order_id c \<and>
    core_passive_submit_ts d = core_passive_submit_ts c \<and>
    length (core_journal d) \<le> length (core_journal c) + (if style = Aggressive then 4 else 3) \<and>
    fills (core_counters d) \<le> fills (core_counters c) + 1)"
proof (rule postI)
  fix d assume "k_venue c tick = Some d"
  then obtain m a b g where r: "mark_to_market (core_accounting c) m = Some a"
      "gateway_on_tick (core_gateway c) tick = Some (b, g)"
      "k_events (k_count (venue_batch_overflows_update (\<lambda>n. n + int (batch_overflow_count b)))
         (c\<lparr>core_accounting := a, core_gateway := g\<rparr>)) (batch_events b) tick = Some d"
    by (auto simp: k_venue_def Option.bind_eq_Some_conv)
  have i: "gw_inv (core_gateway c)" "gw_style style (core_gateway c)" "books c" "within_limit c"
      "consistent style (gw_view (core_gateway c)) c"
    using inv by (simp_all add: kernel_inv_def)
  have t: "tick_result style (gw_view (core_gateway c)) tick b g"
    using postD [OF gateway_on_tick_post [OF i(1,2)] r(2)] by simp
  have a: "acct_inv a" "net_of a = net_of (core_accounting c)" "cash_of a = cash_of (core_accounting c)"
    using postD [OF mark_to_market_post r(1)] by simp_all
  let ?c = "k_count (venue_batch_overflows_update (\<lambda>n. n + int (batch_overflow_count b)))
         (c\<lparr>core_accounting := a, core_gateway := g\<rparr>)"
  have "books ?c" using i(3) a by (simp add: books_def Let_def)
  moreover have "within_limit ?c" using i(4) a(2) by (simp add: within_limit_def)
  moreover have "consistent style (gw_view (core_gateway c)) ?c"
    using i(5) t by (simp add: consistent_def Let_def tick_result_def)
  moreover have "view_steps style (gw_view (core_gateway c)) (batch_events b) (gw_view g)"
    using t by (simp add: tick_result_def)
  ultimately have "books d \<and> within_limit d \<and> consistent style (gw_view g) d \<and> core_gateway d = g \<and>
      core_client_order_id d = core_client_order_id c \<and> core_passive_submit_ts d = core_passive_submit_ts c \<and>
      length (core_journal d) \<le> length (core_journal c) + sum_list (map event_cost (batch_events b)) \<and>
      fills (core_counters d) \<le> fills (core_counters c) + int (length (filter is_fill (batch_events b)))"
    using postD [OF k_events_post r(3)] by simp
  then show "kernel_inv style d \<and> core_client_order_id d = core_client_order_id c \<and>
      core_passive_submit_ts d = core_passive_submit_ts c \<and>
      length (core_journal d) \<le> length (core_journal c) + (if style = Aggressive then 4 else 3) \<and>
      fills (core_counters d) \<le> fills (core_counters c) + 1"
    using t by (auto simp: kernel_inv_def tick_result_def)
qed

lemma kernel_inv_forget: "kernel_inv style c \<Longrightarrow> kernel_inv style (forget_finished c)"
  by (simp add: forget_finished_def kernel_inv_def within_limit_def consistent_def)

lemma forget_finished_sel [simp]:
  "core_order (forget_finished c) = core_order c" "core_gateway (forget_finished c) = core_gateway c"
  "core_accounting (forget_finished c) = core_accounting c" "core_journal (forget_finished c) = core_journal c"
  "core_counters (forget_finished c) = core_counters c" "core_client_order_id (forget_finished c) = core_client_order_id c"
  by (simp_all add: forget_finished_def)

lemma submit_cancel_post:
  assumes "gw_inv g" "gw_style Passive g" "oms_inv od" "linked Passive (gw_view g) od"
  shows "post (submit_cancel_request g od ts) (\<lambda>(req, g', od'). gw_inv g' \<and> gw_style Passive g' \<and> gw_view g' = gw_view g \<and>
    oms_inv od' \<and> linked Passive (gw_view g) od' \<and> exposure od' = exposure od \<and> live_state (o_state od') = live_state (o_state od))"
proof -
  have "oms_request_cancel od = (b, od') \<Longrightarrow> oms_inv od'" for b od' using oms_inv_request_cancel [OF assms(3)] by blast
  then show ?thesis
    unfolding submit_cancel_request_def
    using assms(1,2,4)
    by (auto simp: post_if post_bind assms(3) intro!: post_mono [OF send_cancel_post [OF assms(1,2)]])
      (auto simp: oms_request_cancel_def linked_def exposure_def state_class_defs split: venue_view.splits)
qed

lemma k_cancel_post:
  assumes inv: "kernel_inv style c"
  shows "post (k_cancel style after c tick) (\<lambda>d. kernel_inv style d \<and> core_client_order_id d = core_client_order_id c \<and>
    length (core_journal d) \<le> length (core_journal c) + (if style = Aggressive then 0 else 1) \<and>
    fills (core_counters d) = fills (core_counters c))"
proof -
  let ?f = "forget_finished c"
  have fi: "kernel_inv style ?f" using inv by (rule kernel_inv_forget)
  have due: "post (passive_cancel_due style after ?f tick) (\<lambda>due. due \<longrightarrow> style = Passive)"
    by (auto simp: passive_cancel_due_def wp checked_defs)
  have sent: "kernel_inv style d \<and> length (core_journal d) \<le> length (core_journal c) + 1 \<and>
      fills (core_counters d) = fills (core_counters c) \<and> core_client_order_id d = core_client_order_id c"
    if st: "style = Passive" and r: "submit_cancel_request (core_gateway c) (core_order c) ts = Some (req, g, od)"
      and d: "d = (if req then k_transition (?f\<lparr>core_gateway := g, core_order := od\<rparr>) ts x PendingCancel y
                   else ?f\<lparr>core_gateway := g, core_order := od\<rparr>)" for ts req g od d x y
  proof -
    have "gw_inv g" "gw_style style g" "gw_view g = gw_view (core_gateway c)" "oms_inv od"
        "linked style (gw_view g) od" "exposure od = exposure (core_order c)"
        "live_state (o_state od) = live_state (o_state (core_order c))"
      using postD [OF submit_cancel_post r] inv st by (auto simp: kernel_inv_def consistent_def Let_def)
    then have "kernel_inv style (?f\<lparr>core_gateway := g, core_order := od\<rparr>)"
      using fi by (simp add: kernel_inv_def within_limit_def consistent_def agree_def Let_def)
    then show ?thesis
      using journal_transition [of "?f\<lparr>core_gateway := g, core_order := od\<rparr>"]
      by (simp add: d kernel_inv_def)
  qed
  let ?res = "\<lambda>d. kernel_inv style d \<and> core_client_order_id d = core_client_order_id c \<and>
    length (core_journal d) \<le> length (core_journal c) + (if style = Aggressive then 0 else 1) \<and>
    fills (core_counters d) = fills (core_counters c)"
  have step: "post (Option.bind (submit_cancel_request (core_gateway ?f) (core_order ?f) ts) (\<lambda>(req, g, od).
      Some (if req then k_transition (?f\<lparr>core_gateway := g, core_order := od\<rparr>) ts x PendingCancel y
            else ?f\<lparr>core_gateway := g, core_order := od\<rparr>))) ?res" if "style = Passive" for ts x y
    unfolding post_bind by (rule postI) (use sent [OF that _ refl] that in \<open>fastforce\<close>)
  have "post (if \<not> due then Some ?f else Option.bind (submit_cancel_request (core_gateway ?f) (core_order ?f) ts) (\<lambda>(req, g, od).
      Some (if req then k_transition (?f\<lparr>core_gateway := g, core_order := od\<rparr>) ts x PendingCancel y
            else ?f\<lparr>core_gateway := g, core_order := od\<rparr>))) ?res" if "due \<longrightarrow> style = Passive" for due ts x y
    using step that fi by (cases due) simp_all
  then show ?thesis
    unfolding k_cancel_def Let_def post_bind [of "passive_cancel_due style after ?f tick"]
    using due by (blast intro: post_mono)
qed

lemma submit_new_post:
  assumes "oms_inv od" "linked style v od" "0 < q" "in_i32 q" "submit_new od cid sd px q = (b, od')"
  shows "oms_inv od' \<and> (b \<longleftrightarrow> \<not> live_state (o_state od)) \<and>
    (b \<longrightarrow> v = VNone \<and> linked style (VPending cid sd q) od' \<and> exposure od' = side_sign sd * q) \<and>
    (\<not> b \<longrightarrow> od' = od)"
proof -
  have "oms_inv od'" using oms_inv_submit_new [OF assms(1,4,5)] .
  moreover have "v = VNone" if "\<not> live_state (o_state od)"
    using assms(2) that by (auto simp: linked_def state_class_defs split: venue_view.splits)
  ultimately show ?thesis
    using assms(3,5)
    by (cases "o_state od") (auto simp: submit_new_def Let_def state_class_defs linked_def exposure_def idle_order_def)
qed

lemma k_send_post:
  assumes g: "gw_inv (core_gateway c)" "gw_style style (core_gateway c)" "gw_view (core_gateway c) = VNone"
    and q: "0 < req_quantity r"
  shows "post (k_send style c tick cid r) (\<lambda>(acc, d). acc \<and> gw_inv (core_gateway d) \<and> gw_style style (core_gateway d) \<and>
    gw_view (core_gateway d) = VPending cid (req_side r) (req_quantity r) \<and>
    (\<exists>g. d = (k_count (gateway_submissions_update (\<lambda>n. n + 1))
      (k_transition (k_count (local_submissions_update (\<lambda>n. n + 1)) c) (receive_ts_ns tick) Idle PendingNewAck (req_side r)))
        \<lparr>core_gateway := g\<rparr>))"
proof -
  let ?r = "gateway_request style tick cid r"
  have "gn_style ?r = style" by (simp add: gateway_request_def)
  from send_new_post [OF g(1,2) this] have
    "post (send_new (core_gateway c) ?r) (\<lambda>(acc, h). acc \<and> gw_inv h \<and> gw_style style h \<and>
      gw_view h = VPending cid (req_side r) (req_quantity r))"
    by (rule post_mono) (use g(3) q in \<open>auto simp: gateway_request_def\<close>)
  then show ?thesis
    unfolding k_send_def Let_def post_bind by (auto elim!: post_mono)
qed

lemma submitted_inv:
  fixes c :: ReplayCore and ts i :: int
  assumes inv: "kernel_inv style c"
    and od: "oms_inv od" "linked style (VPending cid sd q) od" "exposure od = side_sign sd * q"
    and risk: "\<bar>net_of (core_accounting c) + side_sign sd * q\<bar> \<le> 200"
    and g: "gw_inv g" "gw_style style g" "gw_view g = VPending cid sd q"
  defines "d \<equiv> (k_count (gateway_submissions_update (\<lambda>n. n + 1)) (k_transition (k_count (local_submissions_update (\<lambda>n. n + 1))
      (c\<lparr>core_client_order_id := i, core_order := od\<rparr>)) ts Idle PendingNewAck sd))\<lparr>core_gateway := g\<rparr>"
  shows "kernel_inv style d \<and> length (core_journal d) = length (core_journal c) + 1 \<and>
    fills (core_counters d) = fills (core_counters c)"
proof -
  have i: "books c" "within_limit c" "consistent style (gw_view (core_gateway c)) c"
    using inv by (simp_all add: kernel_inv_def)
  have d: "core_accounting d = core_accounting c" "core_order d = od" "core_gateway d = g"
      "core_journal d = core_journal c @ [transition_event ts Idle PendingNewAck sd]"
      "core_counters d = gateway_submissions_update (\<lambda>n. n + 1) (accepted_events_update (\<lambda>n. n + 1)
         (local_submissions_update (\<lambda>n. n + 1) (core_counters c)))"
    by (simp_all add: d_def k_transition_def)
  have "books d"
    using i(1) by (simp add: books_def Let_def d journal_net_def journal_spent_def journal_fills_def)
  moreover have "within_limit d" using i(2) od(3) risk by (simp add: within_limit_def d)
  moreover have "consistent style (gw_view g) d"
    using i(3) od(1,2) by (simp add: consistent_def Let_def d g(3) agree_def)
  ultimately show ?thesis using g by (simp add: kernel_inv_def d)
qed

lemma k_submit_post:
  assumes inv: "kernel_inv style c" and q: "0 < req_quantity r" "in_i32 (req_quantity r)"
    and risk: "\<bar>net_of (core_accounting c) + side_sign (req_side r) * req_quantity r\<bar> \<le> 200"
  shows "post (k_submit style c tick r) (\<lambda>d. kernel_inv style d \<and> length (core_journal d) \<le> length (core_journal c) + 1 \<and>
    fills (core_counters d) = fills (core_counters c))"
proof -
  let ?r = "passive_price style tick r" and ?cid = "core_client_order_id c"
  let ?res = "\<lambda>d. kernel_inv style d \<and> length (core_journal d) \<le> length (core_journal c) + 1 \<and>
    fills (core_counters d) = fills (core_counters c)"
  have r: "req_side ?r = req_side r" "req_quantity ?r = req_quantity r" by (simp_all add: passive_price_def)
  have i: "gw_inv (core_gateway c)" "gw_style style (core_gateway c)"
      "oms_inv (core_order c)" "linked style (gw_view (core_gateway c)) (core_order c)"
    using inv by (simp_all add: kernel_inv_def consistent_def Let_def)
  obtain b od where sn: "submit_new (core_order c) ?cid (req_side r) (req_limit_price ?r) (req_quantity r) = (b, od)"
    by fastforce
  note p = submit_new_post [OF i(3,4) q sn]
  let ?d = "c\<lparr>core_client_order_id := ?cid + 1, core_order := od\<rparr>"
  have "post (if b then k_send style ?d tick ?cid ?r else Some (False, ?d)) (\<lambda>(acc, d). ?res d)"
  proof (cases b)
    case True
    then have v: "gw_view (core_gateway ?d) = VNone" and od: "oms_inv od" "linked style (VPending ?cid (req_side r) (req_quantity r)) od"
        "exposure od = side_sign (req_side r) * req_quantity r"
      using p by simp_all
    have "0 < req_quantity ?r" "gw_inv (core_gateway ?d)" "gw_style style (core_gateway ?d)" using q r i by simp_all
    from k_send_post [OF this(2,3) v this(1), of tick ?cid]
    have "post (k_send style ?d tick ?cid ?r) (\<lambda>(acc, d). ?res d)"
      by (rule post_mono) (use submitted_inv [OF inv od risk] in \<open>auto simp: r\<close>)
    then show ?thesis using True by simp
  next
    case False
    then show ?thesis using p inv by (simp add: kernel_inv_def within_limit_def consistent_def)
  qed
  moreover have "?res (if x then d\<lparr>core_passive_submit_ts := t\<rparr> else d)" if "?res d" for x t d
    using that by (simp add: kernel_inv_def within_limit_def consistent_def)
  ultimately have "post (Option.bind (if b then k_send style ?d tick ?cid ?r else Some (False, ?d))
      (\<lambda>(acc, d). Some (if style = Passive \<and> acc then d\<lparr>core_passive_submit_ts := receive_ts_ns tick\<rparr> else d))) ?res"
    unfolding post_bind by (elim post_mono) (auto split del: if_split)
  then show ?thesis
    by (simp add: k_submit_def Let_def r sn)
qed

lemma k_order_post:
  assumes inv: "kernel_inv style c"
  shows "post (k_order style c tick) (\<lambda>d. kernel_inv style d \<and> length (core_journal d) \<le> length (core_journal c) + 1 \<and>
    fills (core_counters d) = fills (core_counters c))"
proof -
  let ?o = "decision_order (strategy_on_tick replay_strategy tick)"
  let ?c = "k_count (strategy_signals_update (\<lambda>n. n + 1)) c"
  have ci: "kernel_inv style ?c" using inv by (simp add: kernel_inv_def books_def consistent_def Let_def)
  have q: "0 < req_quantity ?o" "in_i32 (req_quantity ?o)" if "has_order (strategy_on_tick replay_strategy tick)"
    using that by (auto simp: strategy_on_tick_def replay_strategy_def in_i32_def split: if_splits)
  have rej: "kernel_inv style (k_emit (k_count (risk_rejects_update (\<lambda>n. n + 1)) ?c) (risk_reject_event ts ord rr))" for ts ord rr
    using inv by (simp add: kernel_inv_def books_emit) (simp add: books_def consistent_def Let_def)
  have acc: "post (k_submit style ?c tick ?o) (\<lambda>d. kernel_inv style d \<and> length (core_journal d) \<le> length (core_journal c) + 1 \<and>
      fills (core_counters d) = fills (core_counters c))"
    if "has_order (strategy_on_tick replay_strategy tick)" "\<bar>projected_qty (position_state (core_accounting ?c)) ?o\<bar> \<le> 200"
    using k_submit_post [OF ci q [OF that(1)]] that(2) by (simp add: projected_qty_def)
  have "post (evaluate replay_risk (position_state (core_accounting ?c)) ?o)
      (\<lambda>x. post (if \<not> accepted x then Some (k_emit (k_count (risk_rejects_update (\<lambda>n. n + 1)) ?c)
         (risk_reject_event (receive_ts_ns tick) ?o (reject_reason x))) else k_submit style ?c tick ?o)
       (\<lambda>d. kernel_inv style d \<and> length (core_journal d) \<le> length (core_journal c) + 1 \<and>
          fills (core_counters d) = fills (core_counters c)))"
    if "has_order (strategy_on_tick replay_strategy tick)"
    by (rule post_mono [OF evaluate_post]) (use acc [OF that] rej in \<open>auto simp: replay_risk_def\<close>)
  then show ?thesis using inv by (simp add: k_order_def Let_def post_bind)
qed

lemma k_tick_post:
  assumes inv: "kernel_inv style c"
  shows "post (k_tick style after c tick) (\<lambda>d. kernel_inv style d \<and> length (core_journal d) \<le> length (core_journal c) + 5 \<and>
    fills (core_counters d) \<le> fills (core_counters c) + 1)"
  unfolding k_tick_def post_bind
proof (rule post_mono [OF k_venue_post [OF inv]], elim conjE)
  fix d assume d: "kernel_inv style d" "length (core_journal d) \<le> length (core_journal c) + (if style = Aggressive then 4 else 3)"
    "fills (core_counters d) \<le> fills (core_counters c) + 1"
  show "post (k_cancel style after d tick) (\<lambda>x. post (k_order style x tick) (\<lambda>d. kernel_inv style d \<and>
      length (core_journal d) \<le> length (core_journal c) + 5 \<and> fills (core_counters d) \<le> fills (core_counters c) + 1))"
  proof (rule post_mono [OF k_cancel_post [OF d(1)]], elim conjE)
    fix e assume e: "kernel_inv style e" "length (core_journal e) \<le> length (core_journal d) + (if style = Aggressive then 0 else 1)"
      "fills (core_counters e) = fills (core_counters d)"
    show "post (k_order style e tick) (\<lambda>d. kernel_inv style d \<and>
        length (core_journal d) \<le> length (core_journal c) + 5 \<and> fills (core_counters d) \<le> fills (core_counters c) + 1)"
      by (rule post_mono [OF k_order_post [OF e(1)]]) (use d e in \<open>auto split: if_splits\<close>)
  qed
qed

lemma k_run_post:
  "kernel_inv style c \<Longrightarrow> post (k_run style after c ticks) (\<lambda>d. kernel_inv style d \<and>
     length (core_journal d) \<le> length (core_journal c) + 5 * length ticks \<and>
     fills (core_counters d) \<le> fills (core_counters c) + int (length ticks))"
proof (induction ticks arbitrary: c)
  case (Cons tick ticks)
  show ?case
    unfolding k_run.simps post_bind
    by (rule post_mono [OF k_tick_post [OF Cons.prems]], elim conjE, rule post_mono [OF Cons.IH]) auto
qed simp

end
