(* ===== verification/Replay_Side_Channel.thy ===== *)
theory Replay_Side_Channel
  imports Replay_Relation Replay_Safety "HOL-Library.Sublist"
begin

text \<open>
  The side channel of the replay loop: what the sink has consumed, what waits in the queue
  and what was dropped, in both sink modes and under every scheduling of the sink thread,
  and that the sink thread ends once the loop has set \<^verbatim>\<open>sink_done\<close>.
\<close>

section \<open>Consumption\<close>

text \<open>A sink fed with a list of events: how many it accepted, and its final state.\<close>

fun feed :: "('k \<Rightarrow> TradeEvent \<Rightarrow> bool \<times> 'k) \<Rightarrow> 'k \<Rightarrow> TradeEvent list \<Rightarrow> nat \<times> 'k" where
  "feed consume k [] = (0, k)"
| "feed consume k (e # es) =
     (let (b, k') = consume k e; (n, k'') = feed consume k' es in (if b then Suc n else n, k''))"

lemma feed_le: "fst (feed consume k es) \<le> length es"
  by (induction es arbitrary: k) (auto simp: split_beta le_SucI)

lemma feed_snoc:
  "feed consume k (es @ [e]) = (case feed consume k es of (n, k') \<Rightarrow>
     case consume k' e of (b, k'') \<Rightarrow> (if b then Suc n else n, k''))"
  by (induction es arbitrary: k) (auto simp: split_beta)

lemma feed_accepts:
  "feed consume k (e # es) = (Suc (length es), k'') \<Longrightarrow>
    \<exists>k'. consume k e = (True, k') \<and> feed consume k' es = (length es, k'')"
  using feed_le [of consume "snd (consume k e)" es] by (auto simp: split_beta prod_eq_iff Let_def split: if_splits)

text \<open>
  The contract of an event sink, the interface \<^verbatim>\<open>IEventSink\<close>: what it has recorded, \<open>rel k v\<close>,
  grows by \<open>add\<close> with each event it reports as persisted. A sink that has accepted all it was
  fed has recorded all of it, in the order it was fed.
\<close>

locale event_sink =
  fixes consume :: "'k \<Rightarrow> TradeEvent \<Rightarrow> bool \<times> 'k" and rel :: "'k \<Rightarrow> 'v \<Rightarrow> bool"
    and add :: "'v \<Rightarrow> TradeEvent \<Rightarrow> 'v"
  assumes accepts: "\<lbrakk>rel k v; consume k e = (True, k')\<rbrakk> \<Longrightarrow> rel k' (add v e)"
begin

lemma feed_records: "\<lbrakk>rel k v; feed consume k es = (length es, k')\<rbrakk> \<Longrightarrow> rel k' (foldl add v es)"
proof (induction es arbitrary: k v)
  case (Cons e es)
  from Cons.prems(2) obtain k1 where c: "consume k e = (True, k1)" and f: "feed consume k1 es = (length es, k')"
    using feed_accepts [of consume k e es k'] by auto
  from Cons.IH [OF accepts [OF Cons.prems(1) c] f] show ?case by simp
qed simp

end

text \<open>
  \<open>out\<close> has been consumed, the queue holds what is to be consumed next, and together they
  are the journal without the dropped events.
\<close>

definition delivered :: "'k ReplayEnv \<Rightarrow> 'k \<Rightarrow> 'k SideChannel \<Rightarrow> TradeEvent list \<Rightarrow> bool" where
  "delivered env k sd out \<longleftrightarrow> feed (env_consume env) k out = (nat (side_persisted sd), side_sink sd) \<and>
     0 \<le> side_persisted sd \<and> side_sink_failed sd = (side_persisted sd < int (length out))"

definition side_inv :: "'k ReplayEnv \<Rightarrow> ReplayConfig \<Rightarrow> 'k \<Rightarrow> 'k SideChannel \<Rightarrow> TradeEvent list \<Rightarrow> bool" where
  "side_inv env config k sd j \<longleftrightarrow> ring_inv (side_queue sd) \<and> ring_usable (side_queue sd) = 1024 \<and>
     0 \<le> side_dropped sd \<and> (0 < side_dropped sd \<longrightarrow> 1024 < length j) \<and>
     (sink_mode config = SinkSync \<longrightarrow> ring_contents (side_queue sd) = [] \<and> side_dropped sd = 0) \<and>
     (\<exists>out. delivered env k sd out \<and> subseq (out @ ring_contents (side_queue sd)) j \<and>
        int (length out + ring_size (side_queue sd)) + side_dropped sd = int (length j))"

lemma deliver_event_delivered:
  assumes "delivered env k sd out"
  shows "delivered env k (deliver_event env sd e) (out @ [e])"
proof -
  have "nat (side_persisted sd) \<le> length out" using feed_le [of "env_consume env" k out] assms by (simp add: delivered_def)
  then show ?thesis
    using assms by (auto simp: delivered_def deliver_event_def feed_snoc nat_add_distrib split: prod.splits)
qed

lemma deliver_event_sel [simp]:
  "side_queue (deliver_event env sd e) = side_queue sd" "side_dropped (deliver_event env sd e) = side_dropped sd"
  "side_pushes (deliver_event env sd e) = side_pushes sd"
  by (simp_all add: deliver_event_def split: prod.splits)

lemma delivered_frame [simp]:
  "delivered env k (sd\<lparr>side_queue := q\<rparr>) = delivered env k sd"
  "delivered env k (sd\<lparr>side_pushes := n\<rparr>) = delivered env k sd"
  "delivered env k (sd\<lparr>side_dropped := i\<rparr>) = delivered env k sd"
  "delivered env k (sd\<lparr>side_latencies := l\<rparr>) = delivered env k sd"
  "delivered env k (sd\<lparr>side_clock_reads := n\<rparr>) = delivered env k sd"
  by (simp_all add: delivered_def fun_eq_iff)

lemma side_inv_init: "side_inv env config k (side_init k latencies) []"
  by (auto simp: side_inv_def side_init_def delivered_def intro: exI [of _ "[]"] simp flip: length_ring_contents)

lemma side_inv_frame [simp]:
  "side_inv env config k (sd\<lparr>side_latencies := l\<rparr>) = side_inv env config k sd"
  "side_inv env config k (sd\<lparr>side_clock_reads := n\<rparr>) = side_inv env config k sd"
  by (simp_all add: side_inv_def fun_eq_iff)

section \<open>The sink thread\<close>

lemma sink_iteration_cases:
  assumes "ring_inv (side_queue sd)"
  shows "ring_inv (side_queue (sink_iteration env sd)) \<and> side_dropped (sink_iteration env sd) = side_dropped sd \<and>
    ring_usable (side_queue (sink_iteration env sd)) = ring_usable (side_queue sd) \<and>
    (case ring_contents (side_queue sd) of [] \<Rightarrow> sink_iteration env sd = sd
     | e # es \<Rightarrow> ring_contents (side_queue (sink_iteration env sd)) = es \<and>
         (\<forall>k out. delivered env k sd out \<longrightarrow> delivered env k (sink_iteration env sd) (out @ [e])))"
proof -
  obtain x q where p: "try_pop (side_queue sd) = (x, q)" by fastforce
  from pop_spec [OF assms p] p show ?thesis
    by (auto simp: sink_iteration_def deliver_event_delivered split: list.splits)
qed

lemma side_inv_iteration:
  assumes "side_inv env config k sd j"
  shows "side_inv env config k (sink_iteration env sd) j"
proof -
  from assms obtain out where o: "ring_inv (side_queue sd)" "delivered env k sd out"
      "subseq (out @ ring_contents (side_queue sd)) j"
      "int (length out + ring_size (side_queue sd)) + side_dropped sd = int (length j)"
    by (auto simp: side_inv_def)
  note c = sink_iteration_cases [OF o(1), of env]
  show ?thesis
  proof (cases "ring_contents (side_queue sd)")
    case Nil
    with c assms show ?thesis by simp
  next
    case (Cons e es)
    have "delivered env k (sink_iteration env sd) (out @ [e])" using c Cons o(2) by simp
    moreover have "(out @ [e]) @ ring_contents (side_queue (sink_iteration env sd)) = out @ ring_contents (side_queue sd)"
      using c Cons by simp
    moreover have "length (out @ [e]) + ring_size (side_queue (sink_iteration env sd)) = length out + ring_size (side_queue sd)"
      using c Cons by (simp flip: length_ring_contents)
    ultimately show ?thesis
      using assms o c Cons unfolding side_inv_def
      by (intro conjI exI [of _ "out @ [e]"]) (auto simp del: length_append)
  qed
qed

lemma side_inv_turns: "side_inv env config k sd j \<Longrightarrow> side_inv env config k (sink_turns env n sd) j"
  by (induction n arbitrary: sd) (simp_all add: side_inv_iteration)

text \<open>Joining the thread ends: every iteration on a non-empty queue removes an event.\<close>

lemma sink_drain_ok:
  assumes "side_inv env config k sd j"
  shows "ok (sink_drain env sd) (\<lambda>sd'. side_inv env config k sd' j \<and> ring_contents (side_queue sd') = [])"
  using assms
proof (induction "ring_size (side_queue sd)" arbitrary: sd rule: less_induct)
  case less
  have inv: "ring_inv (side_queue sd)" using less.prems by (simp add: side_inv_def)
  show ?case
  proof (cases "ring_contents (side_queue sd)")
    case Nil
    then have "sink_drain env sd = Some sd" using ring_empty_iff [OF inv] by (subst sink_drain.simps) simp
    then show ?thesis using less.prems Nil by simp
  next
    case (Cons e es)
    let ?s = "sink_iteration env sd"
    have eq: "sink_drain env sd = sink_drain env ?s" using ring_empty_iff [OF inv] Cons by (subst sink_drain.simps) simp
    have "ring_contents (side_queue ?s) = es" using sink_iteration_cases [OF inv, of env] Cons by simp
    then have "ring_size (side_queue ?s) < ring_size (side_queue sd)"
      using Cons by (simp flip: length_ring_contents)
    from less.hyps [OF this side_inv_iteration [OF less.prems]] show ?thesis by (simp add: eq)
  qed
qed

lemma side_inv_push:
  assumes "side_inv env config k sd j" "sink_mode config = SinkAsync"
  shows "side_inv env config k (push_side env sd e) (j @ [e])"
proof -
  define s where "s = sink_turns env (env_schedule env (side_pushes sd)) sd"
  have "side_inv env config k s j" unfolding s_def by (rule side_inv_turns [OF assms(1)])
  then obtain out where o: "ring_inv (side_queue s)" "0 \<le> side_dropped s" "delivered env k s out"
      "subseq (out @ ring_contents (side_queue s)) j"
      "int (length out + ring_size (side_queue s)) + side_dropped s = int (length j)"
      "ring_usable (side_queue s) = 1024" "0 < side_dropped s \<longrightarrow> 1024 < length j"
    by (auto simp: side_inv_def)
  obtain b q where p: "try_push (side_queue s) e = (b, q)" by fastforce
  note spec = push_spec [OF o(1) p]
  have size: "ring_size q = (if b then Suc (ring_size (side_queue s)) else ring_size (side_queue s))"
    using spec by (simp flip: length_ring_contents)
  have "subseq (out @ ring_contents q) (j @ [e])"
  proof (cases b)
    case True
    then have "out @ ring_contents q = (out @ ring_contents (side_queue s)) @ [e]" using spec by simp
    with o(4) show ?thesis by (simp del: append_assoc)
  next
    case False
    with spec have "ring_contents q = ring_contents (side_queue s)" by simp
    moreover have "subseq j (j @ [e])" by (rule prefix_imp_subseq) simp
    ultimately show ?thesis using o(4) subseq_order.trans by auto
  qed
  then show ?thesis
    using spec o assms(2) size p
    by (auto simp: side_inv_def push_side_def Let_def s_def [symmetric] intro!: exI [of _ out])
qed

lemma side_inv_deliver:
  assumes "side_inv env config k sd j" "sink_mode config = SinkSync"
  shows "side_inv env config k (deliver_event env sd e) (j @ [e])"
proof -
  from assms obtain out where o: "ring_inv (side_queue sd)" "ring_contents (side_queue sd) = []" "side_dropped sd = 0"
      "ring_usable (side_queue sd) = 1024"
      "delivered env k sd out" "subseq out j" "int (length out + ring_size (side_queue sd)) = int (length j)"
    by (auto simp: side_inv_def)
  then have "subseq (out @ [e]) (j @ [e])" by simp
  then show ?thesis
    using o deliver_event_delivered [OF o(5), of e] unfolding side_inv_def
    by (intro conjI exI [of _ "out @ [e]"]) auto
qed

section \<open>The whole loop\<close>

text \<open>Every operation of the loop keeps the account of the journal.\<close>

definition delivers :: "'k ReplayEnv \<Rightarrow> ReplayConfig \<Rightarrow> 'k \<Rightarrow> Collector list \<Rightarrow> 'k RunState \<Rightarrow> 'k RunState \<Rightarrow> bool" where
  "delivers env config k m st st' \<longleftrightarrow>
     (side_inv env config k (channel st) (core_journal (core st)) \<longrightarrow>
      side_inv env config k (channel st') (core_journal (core st')))"

lemma channel_record_since [simp]:
  "side_inv env config k (channel (record_since env c t st)) = side_inv env config k (channel st)"
  by (simp add: record_since_def clock_now_def)

lemma side_inv_emit:
  assumes "side_inv env config k (channel st) (core_journal (core st))"
  shows "side_inv env config k (channel (emit_event env config st e)) (core_journal (core st) @ [e])"
proof -
  let ?sd = "(channel st)\<lparr>side_clock_reads := side_clock_reads (channel st) + 1\<rparr>"
  have "side_inv env config k ?sd (core_journal (core st))" using assms by simp
  then have "side_inv env config k (if sink_mode config = SinkSync then deliver_event env ?sd e else push_side env ?sd e)
      (core_journal (core st) @ [e])"
    by (cases "sink_mode config") (simp_all add: side_inv_deliver side_inv_push)
  then show ?thesis
    by (cases "sink_mode config") (simp_all add: emit_event_def clock_now_def count_def Let_def)
qed

lemma side_inv_booked:
  assumes "side_inv env config k (channel st) (core_journal (core st))"
  shows "side_inv env config k (channel (count f (emit_event env config (record_since env c t st) e)))
    (core_journal (core st) @ [e])"
proof -
  have "side_inv env config k (channel (record_since env c t st)) (core_journal (core (record_since env c t st)))"
    using assms by (simp add: core_of)
  from side_inv_emit [OF this, of e] show ?thesis by (simp add: count_def core_of)
qed

interpretation sink: loop_relation env config "delivers env config k" for env config k
  by unfold_locales
    (auto simp: delivers_def quiet_def clock_now_def core_of side_inv_emit side_inv_booked)

lemma run_side_inv:
  assumes "process_ticks env config symbol \<lparr>core = core_init, channel = side_init k latencies\<rparr> ticks = Some (b, st)"
  shows "side_inv env config k (channel st) (core_journal (core st))"
proof -
  from postD [OF sink.process_ticks_step assms] obtain ms where
    "delivers env config k (concat ms) \<lparr>core = core_init, channel = side_init k latencies\<rparr> st" by auto
  then show ?thesis using side_inv_init [of env config k latencies] by (simp add: delivers_def core_init_def)
qed

text \<open>The channel after the join.\<close>

definition join_sink :: "'k ReplayEnv \<Rightarrow> ReplayConfig \<Rightarrow> 'k SideChannel \<Rightarrow> 'k SideChannel option" where
  "join_sink env config sd = (if sink_mode config = SinkAsync then sink_drain env sd else Some sd)"

lemma join_sink_ok:
  assumes "side_inv env config k sd j"
  shows "ok (join_sink env config sd) (\<lambda>sd'. side_inv env config k sd' j \<and> ring_contents (side_queue sd') = [])"
  using assms sink_drain_ok [OF assms] by (cases "sink_mode config") (auto simp: join_sink_def side_inv_def)

text \<open>
  What is known of a finished channel: the events consumed are the journal in order, but
  for the dropped ones, and in synchronous mode nothing is dropped.
\<close>

lemma finished_channel:
  assumes "side_inv env config k sd j" "ring_contents (side_queue sd) = []"
  obtains out where "feed (env_consume env) k out = (nat (side_persisted sd), side_sink sd)" "subseq out j"
    "int (length out) + side_dropped sd = int (length j)" "0 \<le> side_persisted sd" "0 \<le> side_dropped sd"
    "side_persisted sd \<le> int (length out)" "side_sink_failed sd = (side_persisted sd < int (length out))"
    "sink_mode config = SinkSync \<longrightarrow> side_dropped sd = 0" "0 < side_dropped sd \<longrightarrow> 1024 < length j"
proof -
  from assms obtain out where o: "delivered env k sd out" "subseq out j"
      "int (length out + ring_size (side_queue sd)) + side_dropped sd = int (length j)" "0 \<le> side_dropped sd"
      "sink_mode config = SinkSync \<longrightarrow> side_dropped sd = 0" "0 < side_dropped sd \<longrightarrow> 1024 < length j"
    by (auto simp: side_inv_def)
  have "ring_size (side_queue sd) = 0" using assms(2) length_ring_contents [of "side_queue sd"] by simp
  moreover have "side_persisted sd \<le> int (length out)"
    using feed_le [of "env_consume env" k out] o(1) by (simp add: delivered_def)
  ultimately show ?thesis using that o by (auto simp: delivered_def)
qed

section \<open>The outcome of a run\<close>

text \<open>The part of the result that is not about the side channel, and the run that computes it.\<close>

record BusinessResult =
  biz_counters :: ReplayCounters
  biz_position :: PositionState
  biz_pnl :: PnlState
  biz_order :: ManagedOrder
  biz_execution_stats :: ExecutionStats

definition business :: "ReplayResult \<Rightarrow> BusinessResult" where
  "business r = \<lparr>biz_counters = (res_counters r)\<lparr>persisted_events := 0, dropped_events := 0\<rparr>,
     biz_position = res_position r, biz_pnl = res_pnl r, biz_order = res_order r,
     biz_execution_stats = res_execution_stats r\<rparr>"

definition core_business :: "ReplayCore \<Rightarrow> BusinessResult" where
  "core_business c = \<lparr>biz_counters = (core_counters c)\<lparr>persisted_events := 0, dropped_events := 0\<rparr>,
     biz_position = position_state (core_accounting c), biz_pnl = pnl_state (core_accounting c),
     biz_order = core_order c, biz_execution_stats = stats (execution (core_gateway c))\<rparr>"

definition replay_outcome ::
  "ExecutionStyle \<Rightarrow> TimestampNs \<Rightarrow> MarketTick list \<Rightarrow> (ReplayError + BusinessResult) option" where
  "replay_outcome style cancel_after ticks =
     (if ticks = [] then Some (Inl EmptyReplay)
      else case initialize_latencies (length ticks) of
        Inl e \<Rightarrow> Some (Inl (LatencyCapacity e))
      | Inr _ \<Rightarrow>
         (let same = (\<lambda>t. symbol_id t = symbol_id (hd ticks))
          in map_option (\<lambda>c. if list_all same ticks then Inr (core_business c) else Inl MultipleSymbols)
               (k_run style cancel_after core_init (takeWhile same ticks))))"

lemma business_replay_result: "business (replay_result (st\<lparr>channel := sd\<rparr>)) = core_business (core st)"
  by (simp add: business_def replay_result_def core_business_def)

lemma run_replay_join:
  "run_replay env ticks config sink =
     (if ticks = [] then Some (Inl EmptyReplay, sink)
      else case initialize_latencies (length ticks) of
        Inl e \<Rightarrow> Some (Inl (LatencyCapacity e), sink)
      | Inr latencies \<Rightarrow>
         Option.bind (process_ticks env config (symbol_id (hd ticks)) \<lparr>core = core_init, channel = side_init sink latencies\<rparr> ticks)
           (\<lambda>(b, st). map_option (\<lambda>sd. (if b then Inr (replay_result (st\<lparr>channel := sd\<rparr>)) else Inl MultipleSymbols, side_sink sd))
             (join_sink env config (channel st))))"
  unfolding run_replay_def join_sink_def
  by (auto split: sum.split intro!: bind_option_cong simp: map_conv_bind_option comp_def)

lemma process_ticks_kernel:
  assumes "process_ticks env config symbol st ticks = Some (b, st')"
  shows "b = list_all (\<lambda>t. symbol_id t = symbol) ticks \<and>
    k_run (execution_style config) (passive_cancel_after_ns config) (core st) (takeWhile (\<lambda>t. symbol_id t = symbol) ticks)
      = Some (core st')"
  using process_ticks_refines [of env config symbol st ticks, symmetric] assms by auto

lemma run_replay_refines:
  "map_option (map_sum id business \<circ> fst) (run_replay env ticks config sink) =
     replay_outcome (execution_style config) (passive_cancel_after_ns config) ticks"
proof (cases "ticks = [] \<or> (\<exists>e. initialize_latencies (length ticks) = Inl e)")
  case True
  then show ?thesis by (auto simp: run_replay_def replay_outcome_def)
next
  case False
  then obtain latencies where l: "initialize_latencies (length ticks) = Inr latencies" "ticks \<noteq> []"
    by (cases "initialize_latencies (length ticks)") auto
  let ?st = "\<lparr>core = core_init, channel = side_init sink latencies\<rparr>" and ?sym = "symbol_id (hd ticks)"
  note ref = process_ticks_refines [of env config ?sym ?st ticks]
  show ?thesis
  proof (cases "process_ticks env config ?sym ?st ticks")
    case None
    with ref l show ?thesis by (simp add: run_replay_join replay_outcome_def Let_def)
  next
    case (Some p)
    obtain b st where p: "p = (b, st)" by fastforce
    obtain sd where sd: "join_sink env config (channel st) = Some sd"
      using join_sink_ok [OF run_side_inv [OF Some [unfolded p]]] by (auto simp: ok_iff)
    have "k_run (execution_style config) (passive_cancel_after_ns config) core_init (takeWhile (\<lambda>t. symbol_id t = ?sym) ticks)
        = Some (core st)" "b = list_all (\<lambda>t. symbol_id t = ?sym) ticks"
      using process_ticks_kernel [OF Some [unfolded p]] by simp_all
    then show ?thesis
      using l sd Some by (simp add: run_replay_join replay_outcome_def Let_def p business_replay_result)
  qed
qed

text \<open>What a run that returns a result has gone through.\<close>

lemma run_replay_resultE:
  assumes "run_replay env ticks config sink = Some (Inr r, snk)"
  obtains latencies st sd where "ticks \<noteq> []" "initialize_latencies (length ticks) = Inr latencies"
    "process_ticks env config (symbol_id (hd ticks)) \<lparr>core = core_init, channel = side_init sink latencies\<rparr> ticks = Some (True, st)"
    "k_run (execution_style config) (passive_cancel_after_ns config) core_init ticks = Some (core st)"
    "side_inv env config sink sd (core_journal (core st))" "ring_contents (side_queue sd) = []"
    "r = replay_result (st\<lparr>channel := sd\<rparr>)" "snk = side_sink sd" "join_sink env config (channel st) = Some sd"
proof -
  from assms obtain latencies st sd where r: "ticks \<noteq> []" "initialize_latencies (length ticks) = Inr latencies"
    "process_ticks env config (symbol_id (hd ticks)) \<lparr>core = core_init, channel = side_init sink latencies\<rparr> ticks = Some (True, st)"
    "join_sink env config (channel st) = Some sd" "r = replay_result (st\<lparr>channel := sd\<rparr>)" "snk = side_sink sd"
    by (auto simp: run_replay_join Option.bind_eq_Some_conv split: if_splits sum.splits)
  have "list_all (\<lambda>t. symbol_id t = symbol_id (hd ticks)) ticks \<and>
      k_run (execution_style config) (passive_cancel_after_ns config) core_init
        (takeWhile (\<lambda>t. symbol_id t = symbol_id (hd ticks)) ticks) = Some (core st)"
    using process_ticks_kernel [OF r(3)] by simp
  moreover from this have "takeWhile (\<lambda>t. symbol_id t = symbol_id (hd ticks)) ticks = ticks"
    by (auto simp: takeWhile_eq_all_conv list_all_iff)
  ultimately have "k_run (execution_style config) (passive_cancel_after_ns config) core_init ticks = Some (core st)" by simp
  moreover have "side_inv env config sink sd (core_journal (core st)) \<and> ring_contents (side_queue sd) = []"
    using okD [OF join_sink_ok [OF run_side_inv [OF r(3)]] r(4)] .
  ultimately show ?thesis using that r by blast
qed

lemma run_of_outcome:
  assumes "replay_outcome (execution_style config) (passive_cancel_after_ns config) ticks = Some (Inr b)"
  obtains r snk where "run_replay env ticks config sink = Some (Inr r, snk)" "business r = b"
proof -
  from run_replay_refines [of env ticks config sink] assms obtain x snk where
    x: "run_replay env ticks config sink = Some (x, snk)" "map_sum id business x = Inr b" by auto
  then show ?thesis using that by (cases x) auto
qed

end
