(* ===== verification/Replay_Latency.thy ===== *)
theory Replay_Latency
  imports Replay_Relation Replay_Safety
begin

text \<open>
  The fill level of the six latency collectors during a replay: how many samples each is
  given, against the capacity \<^verbatim>\<open>run_replay\<close> reserves for it.
\<close>

section \<open>Collectors by name\<close>

definition lat_of :: "Collector \<Rightarrow> ReplayLatencies \<Rightarrow> LatencyStats" where
  "lat_of c lat = (case c of ColStrategy \<Rightarrow> lat_strategy lat | ColRisk \<Rightarrow> lat_risk lat | ColExecution \<Rightarrow> lat_execution lat
     | ColAccounting \<Rightarrow> lat_accounting lat | ColEventSink \<Rightarrow> lat_event_sink lat | ColEndToEnd \<Rightarrow> lat_end_to_end lat)"

definition lat_capacity :: "LatencyStats \<Rightarrow> nat" where
  "lat_capacity ls = length (ls_samples ls)"

definition calls :: "LatencyStats \<Rightarrow> nat" where
  "calls ls = sample_count ls + overflow_count ls"

lemma lat_of_record_in: "lat_of c (record_in d ns lat) =
   (if c = d then snd (latency_record (lat_of c lat) ns) else lat_of c lat)"
  by (cases c; cases d; simp add: lat_of_def record_in_def)

lemma record_facts [simp]:
  "calls (snd (latency_record ls ns)) = Suc (calls ls)"
  "lat_capacity (snd (latency_record ls ns)) = lat_capacity ls"
  by (simp_all add: latency_record_def calls_def lat_capacity_def)

lemma overflow_iff: "latency_inv ls \<Longrightarrow> overflow_count ls \<noteq> 0 \<longleftrightarrow> lat_capacity ls < calls ls"
  by (auto simp: latency_inv_def calls_def lat_capacity_def)

lemma any_overflow_iff: "any_overflow lat \<longleftrightarrow> (\<exists>c. overflow_count (lat_of c lat) \<noteq> 0)"
proof
  assume "any_overflow lat"
  then show "\<exists>c. overflow_count (lat_of c lat) \<noteq> 0"
    unfolding any_overflow_def lat_of_def by (auto split: Collector.splits)
next
  assume "\<exists>c. overflow_count (lat_of c lat) \<noteq> 0"
  then obtain c where "overflow_count (lat_of c lat) \<noteq> 0" ..
  then show "any_overflow lat" by (cases c) (simp_all add: any_overflow_def lat_of_def)
qed

section \<open>The relation\<close>

text \<open>
  Two collectors follow counters of the loop: one sample per event accepted for the sink,
  one per fill booked. The others follow the grading.
\<close>

definition base :: "ReplayCounters \<Rightarrow> Collector \<Rightarrow> int" where
  "base n c = (if c = ColEventSink then accepted_events n else if c = ColAccounting then fills n else 0)"

definition excess :: "'k RunState \<Rightarrow> Collector \<Rightarrow> int" where
  "excess st c = int (calls (lat_of c (side_latencies (channel st)))) - base (core_counters (core st)) c"

definition measured :: "Collector list \<Rightarrow> 'k RunState \<Rightarrow> 'k RunState \<Rightarrow> bool" where
  "measured m st st' \<longleftrightarrow> (\<forall>c.
     lat_capacity (lat_of c (side_latencies (channel st'))) = lat_capacity (lat_of c (side_latencies (channel st))) \<and>
     (latency_inv (lat_of c (side_latencies (channel st))) \<longrightarrow> latency_inv (lat_of c (side_latencies (channel st')))) \<and>
     excess st' c = excess st c + int (count_list m c))"

lemma deliver_latencies [simp]: "side_latencies (deliver_event env sd e) = side_latencies sd"
  by (simp add: deliver_event_def split: prod.splits)

lemma sink_iteration_latencies [simp]: "side_latencies (sink_iteration env sd) = side_latencies sd"
  by (simp add: sink_iteration_def split: prod.splits option.splits)

lemma sink_turns_latencies [simp]: "side_latencies (sink_turns env n sd) = side_latencies sd"
  by (induction n arbitrary: sd) simp_all

lemma push_latencies [simp]: "side_latencies (push_side env sd e) = side_latencies sd"
  by (simp add: push_side_def Let_def split: prod.splits)

lemma latencies_record_since [simp]:
  "\<exists>ns. side_latencies (channel (record_since env c t st)) = record_in c ns (side_latencies (channel st))"
  by (auto simp: record_since_def clock_now_def)

lemma latencies_emit:
  "\<exists>ns. side_latencies (channel (emit_event env config st e)) = record_in ColEventSink ns (side_latencies (channel st))"
  by (auto simp: emit_event_def clock_now_def count_def Let_def record_since_def)

lemma counters_emit:
  "core_counters (core (emit_event env config st e)) = accepted_events_update (\<lambda>n. n + 1) (core_counters (core st))"
  by (simp add: core_of k_emit_def k_count_def)

lemma measured_sample:
  assumes "free_collector col"
  shows "measured [col] st (record_since env col t st)"
proof -
  obtain ns where l: "side_latencies (channel (record_since env col t st)) = record_in col ns (side_latencies (channel st))"
    using latencies_record_since by blast
  show ?thesis
    using assms by (simp add: measured_def excess_def l lat_of_record_in core_of base_def latency_record_inv free_collector_def)
qed

lemma measured_emit: "measured [] st (emit_event env config st e)"
proof -
  obtain ns where l: "side_latencies (channel (emit_event env config st e)) = record_in ColEventSink ns (side_latencies (channel st))"
    using latencies_emit by blast
  show ?thesis
    by (simp add: measured_def excess_def l lat_of_record_in counters_emit base_def latency_record_inv)
qed

lemma measured_booked:
  "measured [] st (count (fills_update (\<lambda>n. n + 1)) (emit_event env config (record_since env ColAccounting t st) e))"
proof -
  let ?s = "record_since env ColAccounting t st"
  obtain ns where l: "side_latencies (channel ?s) = record_in ColAccounting ns (side_latencies (channel st))"
    using latencies_record_since by blast
  obtain ns' where l': "side_latencies (channel (emit_event env config ?s e)) = record_in ColEventSink ns' (side_latencies (channel ?s))"
    using latencies_emit by blast
  show ?thesis
    by (simp add: measured_def excess_def count_def l l' lat_of_record_in counters_emit base_def latency_record_inv)
      (simp add: core_of)
qed

lemma measured_seq: "measured m st st1 \<Longrightarrow> measured n st1 st2 \<Longrightarrow> measured (m @ n) st st2"
  by (auto simp: measured_def)

lemma measured_quiet:
  assumes "side_latencies (channel st') = side_latencies (channel st)" "quiet (core st) (core st')"
  shows "measured [] st st'"
  using assms by (simp add: measured_def excess_def quiet_def base_def)

interpretation meter: loop_relation env config measured for env config
  by unfold_locales
    (auto intro: measured_seq measured_quiet measured_sample measured_emit measured_booked simp: quiet_def clock_now_def)

section \<open>The samples of a run\<close>

lemma tick_samples_count:
  assumes "m \<in> tick_samples"
  shows "count_list m ColStrategy = 1" "count_list m ColEndToEnd = 1" "count_list m ColRisk \<le> 1"
    "count_list m ColExecution \<le> 2" "count_list m ColEventSink = 0" "count_list m ColAccounting = 0"
  using assms by (auto simp: tick_samples_def)

lemma count_list_concat_le:
  "(\<And>m. m \<in> set ms \<Longrightarrow> count_list m c \<le> k) \<Longrightarrow> count_list (concat ms) c \<le> length ms * k"
  by (induction ms) (simp_all add: add_mono)

lemma count_list_concat_eq:
  "(\<And>m. m \<in> set ms \<Longrightarrow> count_list m c = k) \<Longrightarrow> count_list (concat ms) c = length ms * k"
  by (induction ms) simp_all

lemma initialize_latencies_facts:
  assumes "initialize_latencies n = Inr lat"
  shows "latency_inv (lat_of c lat)" "calls (lat_of c lat) = 0"
    "lat_capacity (lat_of c lat) = n * (case c of ColExecution \<Rightarrow> 2 | ColEventSink \<Rightarrow> 4 | _ \<Rightarrow> 1)"
    "set (ls_samples (lat_of c lat)) \<subseteq> {0}"
  using assms
  by (cases c; auto simp: initialize_latencies_def latency_initialize_def Let_def lat_of_def latency_inv_def calls_def
      lat_capacity_def split: if_splits)+

text \<open>The number of samples offered to each collector by a run over \<open>n\<close> ticks.\<close>

lemma run_samples:
  assumes "initialize_latencies (length ticks) = Inr lat"
    and "process_ticks env config symbol \<lparr>core = core_init, channel = side_init k lat\<rparr> ticks = Some (True, st)"
  defines "offered \<equiv> \<lambda>c. int (calls (lat_of c (side_latencies (channel st))))"
    and "n \<equiv> int (length ticks)"
  shows "offered ColStrategy = n" "offered ColEndToEnd = n" "offered ColRisk \<le> n" "offered ColExecution \<le> 2 * n"
    "offered ColEventSink = accepted_events (core_counters (core st))"
    "offered ColAccounting = fills (core_counters (core st))"
    "\<And>c. latency_inv (lat_of c (side_latencies (channel st)))"
    "\<And>c. lat_capacity (lat_of c (side_latencies (channel st))) =
       length ticks * (case c of ColExecution \<Rightarrow> 2 | ColEventSink \<Rightarrow> 4 | _ \<Rightarrow> 1)"
proof -
  let ?st = "\<lparr>core = core_init, channel = side_init k lat\<rparr>"
  from postD [OF meter.process_ticks_step assms(2)] obtain ms where
    ms: "measured (concat ms) ?st st" "set ms \<subseteq> tick_samples" "length ms = length ticks" by auto
  note init = initialize_latencies_facts [OF assms(1)]
  have ex: "excess st c = int (count_list (concat ms) c)" for c
    using ms(1) init [of c] by (simp add: measured_def excess_def side_init_def base_def core_init_def zero_counters_def)
  have in_set: "m \<in> tick_samples" if "m \<in> set ms" for m using that ms(2) by auto
  note eq = count_list_concat_eq [of ms] and le = count_list_concat_le [of ms]
  show "offered ColStrategy = n" "offered ColEndToEnd = n"
    "offered ColEventSink = accepted_events (core_counters (core st))"
    "offered ColAccounting = fills (core_counters (core st))"
    using ex [of ColStrategy] ex [of ColEndToEnd] ex [of ColEventSink] ex [of ColAccounting] ms(3)
      eq [of ColStrategy 1] eq [of ColEndToEnd 1] eq [of ColEventSink 0] eq [of ColAccounting 0]
      tick_samples_count [OF in_set]
    by (simp_all add: excess_def base_def offered_def n_def)
  show "offered ColRisk \<le> n" "offered ColExecution \<le> 2 * n"
    using ex [of ColRisk] ex [of ColExecution] ms(3) le [of ColRisk 1] le [of ColExecution 2] tick_samples_count [OF in_set]
    by (simp_all add: excess_def base_def offered_def n_def)
  show "latency_inv (lat_of c (side_latencies (channel st)))" for c
    using ms(1) init [of c] by (simp add: measured_def side_init_def)
  show "lat_capacity (lat_of c (side_latencies (channel st))) =
       length ticks * (case c of ColExecution \<Rightarrow> 2 | ColEventSink \<Rightarrow> 4 | _ \<Rightarrow> 1)" for c
    using ms(1) init [of c] by (simp add: measured_def side_init_def)
qed

lemma run_overflow_iff:
  assumes "initialize_latencies (length ticks) = Inr lat"
    and "process_ticks env config symbol \<lparr>core = core_init, channel = side_init k lat\<rparr> ticks = Some (True, st)"
    and "fills (core_counters (core st)) \<le> int (length ticks)"
  shows "any_overflow (side_latencies (channel st)) \<longleftrightarrow> 4 * int (length ticks) < accepted_events (core_counters (core st))"
proof -
  note s = run_samples [OF assms(1,2)]
  have "overflow_count (lat_of c (side_latencies (channel st))) \<noteq> 0 \<longleftrightarrow>
      c = ColEventSink \<and> 4 * int (length ticks) < accepted_events (core_counters (core st))" for c
    unfolding overflow_iff [OF s(7)] s(8) using s(1-6) assms(3) by (cases c) auto
  then show ?thesis by (auto simp: any_overflow_iff)
qed

lemma sink_drain_latencies:
  "sink_drain env sd = Some sd' \<Longrightarrow> side_latencies sd' = side_latencies sd"
proof (rule sink_drain.raw_induct [of "\<lambda>env sd sd'. side_latencies sd' = side_latencies sd"])
  fix rest and env' :: "'a ReplayEnv" and s s'
  assume "\<And>e x y. rest e x = Some y \<Longrightarrow> side_latencies y = side_latencies x"
    and "(if ring_empty (side_queue s) then Some s else rest env' (sink_iteration env' s)) = Some s'"
  then show "side_latencies s' = side_latencies s" by (fastforce split: if_splits)
qed

section \<open>Summaries of a run\<close>

text \<open>With samples bounded by \<open>B\<close>, the sums of a summary do not overflow.\<close>

lemma sum64_ok: "\<forall>x \<in> set xs. \<bar>x\<bar> \<le> B \<Longrightarrow> \<bar>a\<bar> + B * int (length xs) \<le> INT64_MAX \<Longrightarrow> 0 \<le> B \<Longrightarrow>
   ok (sum64 a xs) (\<lambda>t. \<bar>t\<bar> \<le> \<bar>a\<bar> + B * int (length xs))"
proof (induction xs arbitrary: a)
  case (Cons x xs)
  have d: "B * int (length (x # xs)) = B + B * int (length xs)" by (simp add: algebra_simps)
  have x: "\<bar>x\<bar> \<le> B" "0 \<le> B * int (length xs)" using Cons.prems by simp_all
  have s: "\<bar>a + x\<bar> + B * int (length xs) \<le> \<bar>a\<bar> + B * int (length (x # xs))" using x unfolding d by linarith
  have "ok (sum64 (a + x) xs) (\<lambda>t. \<bar>t\<bar> \<le> \<bar>a + x\<bar> + B * int (length xs))"
    using Cons.prems s by (intro Cons.IH) auto
  then have "ok (sum64 (a + x) xs) (\<lambda>t. \<bar>t\<bar> \<le> \<bar>a\<bar> + B * int (length (x # xs)))"
    by (rule ok_mono) (use s in linarith)
  moreover have "in_i64 (a + x)" using s x Cons.prems(2) by (intro in_i64_abs_le) linarith
  ultimately show ?case by (simp add: add64_def chk64_def)
qed simp

lemma summarize_ok:
  assumes B: "0 \<le> B" "\<forall>x \<in> set (ls_samples ls). \<bar>x\<bar> \<le> B" "B * int (length (ls_samples ls)) \<le> INT64_MAX"
    and i: "latency_inv ls" "length (ls_samples ls) < 2 ^ 64"
  shows "ok (summarize ls) (\<lambda>_. True)"
proof (cases "sample_count ls = 0")
  case False
  let ?s = "sort (latency_samples ls)"
  have len: "length ?s = sample_count ls" "sample_count ls \<le> length (ls_samples ls)"
    using i(1) by (simp_all add: latency_samples_def latency_inv_def)
  have el: "\<forall>x \<in> set ?s. \<bar>x\<bar> \<le> B" using B(2) by (auto simp: latency_samples_def dest: in_set_takeD)
  have part: "ok (sum64 0 xs) (\<lambda>t. in_i64 t)" if "set xs \<subseteq> set ?s" "length xs \<le> length (ls_samples ls)" for xs
  proof -
    have "B * int (length xs) \<le> B * int (length (ls_samples ls))" using B(1) that(2) by (intro mult_left_mono) simp_all
    then have le: "\<bar>0\<bar> + B * int (length xs) \<le> INT64_MAX" using B(3) by linarith
    have "\<forall>x \<in> set xs. \<bar>x\<bar> \<le> B" using el that(1) by blast
    from sum64_ok [OF this le B(1)] show ?thesis by (rule ok_mono) (use le in \<open>auto intro: in_i64_abs_le\<close>)
  qed
  obtain t where t: "sum64 0 ?s = Some t" "in_i64 t" using part [of ?s] len by (auto simp: ok_iff)
  have "ok (sum64 0 (drop n ?s)) (\<lambda>t. in_i64 t)" for n
    by (rule part [OF set_drop_subset]) (use len in simp)
  then obtain u where u: "sum64 0 (drop n ?s) = Some (u n)" "in_i64 (u n)" for n
    unfolding ok_iff by metis
  have div: "div64 x d = Some (x sdiv d)" if "in_i64 x" "0 < d" for x d
    using in_i64_sdiv [OF that(1), of d] that by (simp add: div64_def chk64_def)
  have n: "unat (word_of_nat (length ?s) :: 64 word) = length ?s"
    using len i(2) by (simp add: unsigned_of_nat take_bit_eq_mod)
  have tail: "0 < unat (tail_count_for_top_percent (word_of_nat (length ?s)) 1)"
    using tail_count_exact [of "word_of_nat (length ?s)" 1] n False len by (simp add: div_greater_zero_iff)
  then have "0 < int (unat (tail_count_for_top_percent (word_of_nat (length ?s)) 1))" by (simp only: of_nat_0_less_iff)
  then show ?thesis
    using False len(1) t u div by (simp add: summarize_def Let_def)
qed (simp add: summarize_def)

text \<open>The samples of a run are differences of clock readings.\<close>

definition samples_within :: "int \<Rightarrow> 'k RunState \<Rightarrow> bool" where
  "samples_within B st \<longleftrightarrow> (\<forall>c. \<forall>x \<in> set (ls_samples (lat_of c (side_latencies (channel st)))). \<bar>x\<bar> \<le> B)"

definition bounded_clock :: "int \<Rightarrow> 'k ReplayEnv \<Rightarrow> bool" where
  "bounded_clock B env \<longleftrightarrow> (\<forall>i. 0 \<le> env_clock env i \<and> env_clock env i \<le> B)"

definition spans :: "int \<Rightarrow> 'k ReplayEnv \<Rightarrow> Collector list \<Rightarrow> 'k RunState \<Rightarrow> 'k RunState \<Rightarrow> bool" where
  "spans B env m st st' \<longleftrightarrow> (bounded_clock B env \<and> samples_within B st \<longrightarrow> samples_within B st')"

lemma samples_within_record:
  assumes "\<forall>x \<in> set (ls_samples ls). \<bar>x\<bar> \<le> B" "\<bar>ns\<bar> \<le> B"
  shows "\<forall>x \<in> set (ls_samples (snd (latency_record ls ns))). \<bar>x\<bar> \<le> B"
  using assms set_update_subset_insert [of "ls_samples ls" "sample_count ls" ns]
  by (auto simp: latency_record_def)

lemma spans_record:
  assumes "t \<in> range (env_clock env)"
  shows "spans B env m st (record_since env col t st)"
proof -
  have "\<bar>env_clock env i - t\<bar> \<le> B" if "bounded_clock B env" for i
  proof -
    obtain j where "t = env_clock env j" using assms by auto
    moreover have "0 \<le> env_clock env i" "env_clock env i \<le> B" "0 \<le> env_clock env j" "env_clock env j \<le> B"
      using that unfolding bounded_clock_def by blast+
    ultimately show ?thesis by linarith
  qed
  then show ?thesis
    unfolding spans_def samples_within_def
    by (simp add: record_since_def clock_now_def lat_of_record_in) (metis samples_within_record)
qed

lemma spans_emit: "spans B env m st (emit_event env config st e)"
proof -
  let ?s = "count (accepted_events_update (\<lambda>n. n + 1)) st"
  let ?c = "?s\<lparr>core := (core ?s)\<lparr>core_journal := core_journal (core ?s) @ [e]\<rparr>\<rparr>"
  define s where "s = (if sink_mode config = SinkSync
     then (snd (clock_now env ?c))\<lparr>channel := deliver_event env (channel (snd (clock_now env ?c))) e\<rparr>
     else (snd (clock_now env ?c))\<lparr>channel := push_side env (channel (snd (clock_now env ?c))) e\<rparr>)"
  have "side_latencies (channel s) = side_latencies (channel st)"
    by (simp add: s_def clock_now_def count_def)
  then have "samples_within B s = samples_within B st" by (simp add: samples_within_def)
  moreover have "emit_event env config st e = record_since env ColEventSink (fst (clock_now env ?c)) s"
    by (simp add: emit_event_def s_def Let_def clock_now_split)
  ultimately show ?thesis
    using spans_record [of "fst (clock_now env ?c)" env B m s ColEventSink] by (simp add: spans_def clock_now_def)
qed

lemma samples_within_frame [simp]:
  "samples_within B (count f st) = samples_within B st" "samples_within B (st\<lparr>core := c\<rparr>) = samples_within B st"
  "samples_within B (snd (clock_now env st)) = samples_within B st"
  unfolding samples_within_def count_def clock_now_def by simp_all

lemma spans_booked:
  assumes "t \<in> range (env_clock env)"
  shows "spans B env [] st (count f (emit_event env config (record_since env ColAccounting t st) e))"
  using spans_record [OF assms, of B "[]" st ColAccounting] spans_emit [of B env "[]" "record_since env ColAccounting t st" config e]
  unfolding spans_def samples_within_frame by blast

interpretation spans: loop_relation env config "spans B env" for env config B
  by unfold_locales (blast intro: spans_emit spans_record spans_booked | simp add: spans_def)+

lemma run_samples_within:
  assumes "initialize_latencies (length ticks) = Inr lat" "bounded_clock B env" "0 \<le> B"
    and "process_ticks env config symbol \<lparr>core = core_init, channel = side_init k lat\<rparr> ticks = Some (b, st)"
  shows "samples_within B st"
proof -
  have "samples_within B \<lparr>core = core_init, channel = side_init k lat\<rparr>"
    unfolding samples_within_def
  proof (intro allI ballI)
    fix c x
    assume "x \<in> set (ls_samples (lat_of c (side_latencies (channel \<lparr>core = core_init, channel = side_init k lat\<rparr>))))"
    then have "x \<in> {0}" using initialize_latencies_facts(4) [OF assms(1), of c] by (auto simp: side_init_def)
    then show "\<bar>x\<bar> \<le> B" using assms(3) by simp
  qed
  moreover from postD [OF spans.process_ticks_step assms(4)] obtain ms where
    "spans B env (concat ms) \<lparr>core = core_init, channel = side_init k lat\<rparr> st" by auto
  ultimately show ?thesis using assms(2) by (simp add: spans_def)
qed

end
