(* ===== verification/Replay_Definedness.thy ===== *)
theory Replay_Definedness
  imports Replay_Safety
begin

text \<open>
  When the replay loop is free of undefined behaviour: bounds on the timestamps, the prices
  and the number of ticks under which no checked operation of any component overflows, so
  that every tick is processed to the end.
\<close>

section \<open>Limits\<close>

text \<open>
  \<open>T\<close> bounds the timestamps, \<open>P\<close> the prices and \<open>n\<close> the number of ticks. The venue's
  latencies and thresholds are at most 10000; an order trades at most 400 at once since
  position and position plus open quantity stay within 200.
\<close>

definition run_limits :: "int \<Rightarrow> int \<Rightarrow> int \<Rightarrow> bool" where
  "run_limits T P n \<longleftrightarrow> 0 \<le> T \<and> 0 \<le> P \<and> 2 * T + 10000 \<le> INT64_MAX \<and> (400 * n + 40000) * P + 10000 \<le> INT64_MAX"

definition ledger_bounded :: "int \<Rightarrow> ReplayCore \<Rightarrow> bool" where
  "ledger_bounded P c \<longleftrightarrow> acct_bounded 200 P (400 * P * fills (core_counters c)) (core_accounting c)"

definition core_bounded :: "int \<Rightarrow> int \<Rightarrow> ReplayCore \<Rightarrow> bool" where
  "core_bounded T P c \<longleftrightarrow> gw_bounded T P 10000 (core_gateway c) \<and> ledger_bounded P c \<and> core_passive_submit_ts c \<le> T"

lemma run_limits_facts:
  assumes "run_limits T P n" "0 \<le> k" "k \<le> n"
  shows "0 \<le> T" "0 \<le> P" "T + 10000 \<le> INT64_MAX" "2 * T \<le> INT64_MAX" "2 * P + 10000 \<le> INT64_MAX"
    "200 * (200 * P) \<le> INT64_MAX" "2 * (200 * P) \<le> INT64_MAX" "400 * P * k + 200 * P \<le> INT64_MAX"
proof -
  have "k * P \<le> n * P" using assms by (intro mult_right_mono) (auto simp: run_limits_def)
  moreover have "0 \<le> k * P" using assms by (simp add: run_limits_def)
  moreover have "(400 * n + 40000) * P = 400 * (n * P) + 40000 * P" by (simp add: algebra_simps)
  moreover have "400 * P * k = 400 * (k * P)" by (simp add: algebra_simps)
  ultimately show "0 \<le> T" "0 \<le> P" "T + 10000 \<le> INT64_MAX" "2 * T \<le> INT64_MAX" "2 * P + 10000 \<le> INT64_MAX"
    "200 * (200 * P) \<le> INT64_MAX" "2 * (200 * P) \<le> INT64_MAX" "400 * P * k + 200 * P \<le> INT64_MAX"
    using assms(1) unfolding run_limits_def by linarith+
qed

lemma ok_conj: "ok m P \<Longrightarrow> post m Q \<Longrightarrow> ok m (\<lambda>x. P x \<and> Q x)"
  by (cases m) simp_all

lemma ledger_bounded_frame [simp]:
  "ledger_bounded P (c\<lparr>core_order := od\<rparr>) = ledger_bounded P c" "ledger_bounded P (c\<lparr>core_gateway := g\<rparr>) = ledger_bounded P c"
  "ledger_bounded P (k_transition c ts a b s) = ledger_bounded P c"
  "ledger_bounded P (k_emit c e) = ledger_bounded P c"
  "ledger_bounded P (c\<lparr>core_client_order_id := i\<rparr>) = ledger_bounded P c"
  "ledger_bounded P (c\<lparr>core_passive_submit_ts := ts\<rparr>) = ledger_bounded P c"
  by (simp_all add: ledger_bounded_def)

lemma ledger_bounded_count:
  "fills (f (core_counters c)) = fills (core_counters c) \<Longrightarrow> ledger_bounded P (k_count f c) = ledger_bounded P c"
  by (simp add: ledger_bounded_def)

lemma mid_price_ok:
  assumes "tick_bounded T P tick" "2 * P + 10000 \<le> INT64_MAX"
  shows "ok (mid_price tick) (\<lambda>m. \<bar>m\<bar> \<le> P)"
proof -
  let ?s = "bid_price tick + ask_price tick"
  have s: "0 \<le> ?s" "?s \<le> 2 * P" using assms by (simp_all add: tick_bounded_def)
  then have "?s sdiv 2 = ?s div 2" by (simp add: sdiv_nonneg_eq)
  moreover have "in_i64 ?s" "in_i64 (?s div 2)" using s assms(2) by (auto simp: in_i64_def)
  ultimately show ?thesis using s by (auto simp: mid_price_def wp checked_defs div64_def)
qed

section \<open>Venue events\<close>

lemma k_fill_ok:
  assumes b: "books c" "ledger_bounded P c" and t: "tick_bounded T P tick" and l: "run_limits T P n"
    and f: "0 < f_quantity f" "0 \<le> f_price f" "f_price f \<le> P" "\<bar>net_of (core_accounting c) + signed_qty f\<bar> \<le> 200"
    and room: "fills (core_counters c) + 1 \<le> n"
  shows "ok (k_fill c f tick) (ledger_bounded P)"
proof -
  let ?k = "fills (core_counters c)" and ?a = "core_accounting c"
  have k: "0 \<le> ?k" using b(1) by (simp add: books_def Let_def)
  note lim = run_limits_facts [OF l _ room] and lim0 = run_limits_facts [OF l k]
  have C: "400 * P * ?k + 400 * P = 400 * P * (?k + 1)" by (simp add: algebra_simps)
  have a: "acct_inv ?a" "acct_bounded 200 P (400 * P * ?k) ?a" "\<bar>net_of ?a\<bar> \<le> 200"
    using b by (simp_all add: books_def ledger_bounded_def acct_bounded_def Let_def)
  have q: "f_quantity f \<le> 400" using a(3) f(1,4) side_sign_cases [of "f_side f"] by (auto simp: signed_qty_def)
  have "ok (apply_fill ?a f) (\<lambda>(x, a'). x \<and> acct_inv a' \<and> acct_bounded 200 P (400 * P * ?k + 400 * P) a' \<and>
      net_of a' = net_of ?a + signed_qty f)"
    using lim k by (intro apply_fill_ok [OF a(1,2) f(1) q f(2,3,4)]) (simp_all add: C)
  then obtain a' where a': "apply_fill ?a f = Some (True, a')" "acct_inv a'" "acct_bounded 200 P (400 * P * (?k + 1)) a'"
    by (auto simp: ok_iff C)
  obtain m where m: "mid_price tick = Some m" "\<bar>m\<bar> \<le> P"
    using mid_price_ok [OF t] lim k by (auto simp: ok_iff)
  have "ok (mark_to_market a' m) (\<lambda>a''. acct_inv a'' \<and> acct_bounded 200 P (400 * P * (?k + 1)) a'' \<and> net_of a'' = net_of a')"
    using lim k by (intro mark_to_market_ok [OF a'(2,3) m(2)]) simp_all
  then show ?thesis using f(1) a'(1) m(1) by (auto simp: k_fill_def ok_iff ledger_bounded_def)
qed

lemma k_event_ok:
  assumes b: "books c" "within_limit c" "ledger_bounded P c" and i: "oms_inv (core_order c)"
    and t: "tick_bounded T P tick" and l: "run_limits T P n"
    and p: "0 \<le> ev_fill_price ev" "ev_fill_price ev \<le> P"
    and room: "fills (core_counters c) + (if is_fill ev then 1 else 0) \<le> n"
  shows "ok (k_event c ev fb tick) (ledger_bounded P)"
proof -
  obtain r f od where e: "on_venue_event (core_order c) ev = Some (r, f, od)"
    using oms_inv_on_venue_event_ok [OF i, of ev] by (auto simp: ok_iff)
  define s where "s = (if o_state (core_order c) = Idle then fb else o_side (core_order c))"
  define x where "x = k_transition (c\<lparr>core_order := od\<rparr>) (ev_ts_ns ev) (o_state (core_order c)) (o_state od) s"
  note fill = on_venue_event_fill [OF e]
  have lim: "\<bar>net_of (core_accounting x) + signed_qty f\<bar> \<le> 200"
    using exposure_step [OF e i] b(2) by (simp add: within_limit_def x_def)
  have "ok (k_fill x f tick) (ledger_bounded P)"
  proof (cases "0 < f_quantity f")
    case True
    then have "is_fill ev" "0 \<le> f_price f" "f_price f \<le> P" using fill p by (auto simp: is_fill_def)
    with True show ?thesis
      using b lim room by (intro k_fill_ok [OF _ _ t l]) (simp_all add: x_def)
  next
    case False
    then show ?thesis using b(3) by (simp add: k_fill_def x_def)
  qed
  moreover have "ledger_bounded P (k_reject d ev od s)" if "ledger_bounded P d" for d
    using that by (simp add: k_reject_def ledger_bounded_count)
  moreover have "ledger_bounded P (k_invalid r (c\<lparr>core_order := od\<rparr>))"
    using b(3) by (cases r) (simp_all add: k_invalid_def ledger_bounded_count Let_def)
  ultimately have "ok (if r = Applied then Option.bind (k_fill x f tick) (\<lambda>d. Some (k_reject d ev od s))
      else Some (k_invalid r (c\<lparr>core_order := od\<rparr>))) (ledger_bounded P)"
    by (auto simp: ok_iff)
  then show ?thesis
    using e unfolding k_event_def Let_def x_def s_def by (simp split del: if_split)
qed

lemma k_events_ok:
  assumes "view_steps style v evs v'" "books c" "within_limit c" "consistent style v c" "ledger_bounded P c"
    and t: "tick_bounded T P tick" and l: "run_limits T P n"
    and "\<forall>ev \<in> set evs. 0 \<le> ev_fill_price ev \<and> ev_fill_price ev \<le> P"
    and "fills (core_counters c) + int (length (filter is_fill evs)) \<le> n"
  shows "ok (k_events c evs tick) (ledger_bounded P)"
  using assms(1-5,8-)
proof (induction arbitrary: c rule: view_steps.induct)
  case (cons style v ev v' evs v'')
  let ?fb = "o_side (core_order c)"
  have "ok (k_event c ev ?fb tick) (ledger_bounded P)"
    using cons.prems by (intro k_event_ok [OF _ _ _ _ t l]) (auto dest: consistent_facts)
  from ok_conj [OF this k_event_post [OF cons.prems(1-3) cons.hyps(1)]]
  obtain d where d: "k_event c ev ?fb tick = Some d" "ledger_bounded P d" "books d" "within_limit d" "consistent style v' d"
      "event_effect c ev d"
    by (auto simp: ok_iff)
  have "fills (core_counters d) + int (length (filter is_fill evs)) \<le> n"
    using d(6) cons.prems(6) by (auto simp: event_effect_def split: if_splits)
  from cons.IH [OF d(3,4,5,2) _ this] show ?case using cons.prems(5) by (simp add: d(1))
qed simp

section \<open>Phases of a tick\<close>

lemma k_venue_ok:
  assumes inv: "kernel_inv style c" and cb: "core_bounded T P c" and t: "tick_bounded T P tick" and l: "run_limits T P n"
    and room: "fills (core_counters c) + 1 \<le> n"
  shows "ok (k_venue c tick) (core_bounded T P)"
proof -
  let ?k = "fills (core_counters c)"
  have i: "gw_inv (core_gateway c)" "gw_style style (core_gateway c)" "books c" "within_limit c"
      "consistent style (gw_view (core_gateway c)) c" and k: "0 \<le> ?k"
    using inv by (simp_all add: kernel_inv_def books_def Let_def)
  note lim = run_limits_facts [OF l k]
  have a0: "acct_inv (core_accounting c)" "acct_bounded 200 P (400 * P * ?k) (core_accounting c)"
    using i(3) cb by (simp_all add: books_def core_bounded_def ledger_bounded_def Let_def)
  obtain m where m: "mid_price tick = Some m" "\<bar>m\<bar> \<le> P"
    using mid_price_ok [OF t] lim room by (auto simp: ok_iff)
  have "ok (mark_to_market (core_accounting c) m) (\<lambda>a. acct_inv a \<and> acct_bounded 200 P (400 * P * ?k) a \<and>
      net_of a = net_of (core_accounting c))"
    using lim room by (intro mark_to_market_ok [OF a0 m(2)]) simp_all
  then obtain a where a: "mark_to_market (core_accounting c) m = Some a" "acct_bounded 200 P (400 * P * ?k) a"
    by (auto simp: ok_iff)
  have ai: "acct_inv a" "net_of a = net_of (core_accounting c)" "cash_of a = cash_of (core_accounting c)"
    using postD [OF mark_to_market_post a(1)] by simp_all
  have "ok (gateway_on_tick (core_gateway c) tick) (\<lambda>(b, g). gw_bounded T P 10000 g \<and> prices_within P b)"
    using lim room cb by (intro gateway_on_tick_ok [OF i(1,2) _ t]) (simp_all add: core_bounded_def)
  from ok_conj [OF this gateway_on_tick_post [OF i(1,2)]]
  obtain b g where g: "gateway_on_tick (core_gateway c) tick = Some (b, g)" "gw_bounded T P 10000 g" "prices_within P b"
      "tick_result style (gw_view (core_gateway c)) tick b g"
    by (auto simp: ok_iff)
  let ?c = "k_count (venue_batch_overflows_update (\<lambda>n. n + int (batch_overflow_count b)))
         (c\<lparr>core_accounting := a, core_gateway := g\<rparr>)"
  have c: "view_steps style (gw_view (core_gateway c)) (batch_events b) (gw_view g)" "books ?c" "within_limit ?c"
      "consistent style (gw_view (core_gateway c)) ?c"
    using i(3,4,5) ai g(4) by (simp_all add: books_def Let_def within_limit_def consistent_def tick_result_def)
  have "ledger_bounded P ?c" using a(2) by (simp add: ledger_bounded_def)
  moreover have "fills (core_counters ?c) + int (length (filter is_fill (batch_events b))) \<le> n"
    using g(4) room by (simp add: tick_result_def)
  ultimately have "ok (k_events ?c (batch_events b) tick) (ledger_bounded P)"
    using g(3) by (intro k_events_ok [OF c _ t l]) (auto simp: prices_within_def)
  from ok_conj [OF this k_events_post [OF c]]
  have "ok (k_events ?c (batch_events b) tick) (core_bounded T P)"
    by (rule ok_mono) (use cb g(2) in \<open>auto simp: core_bounded_def\<close>)
  then show ?thesis by (simp add: k_venue_def m(1) a(1) g(1))
qed

lemma k_cancel_ok:
  assumes cb: "core_bounded T P c" and t: "tick_bounded T P tick" and l: "run_limits T P n"
  shows "ok (k_cancel style after c tick) (core_bounded T P)"
proof -
  let ?c = "forget_finished c"
  have T: "0 \<le> T" "T + 10000 \<le> INT64_MAX" "2 * T \<le> INT64_MAX" using l by (simp_all add: run_limits_def)
  have r: "\<bar>receive_ts_ns tick\<bar> \<le> T" using t by (simp add: tick_bounded_def)
  have c: "core_bounded T P ?c" using cb T by (simp add: core_bounded_def forget_finished_def)
  have due: "ok (passive_cancel_due style after ?c tick) (\<lambda>_. True)"
    using c r T by (auto simp: passive_cancel_due_def core_bounded_def wp checked_defs in_i64_def)
  have "ok (send_cancel (core_gateway ?c) (receive_ts_ns tick)) (\<lambda>(sent, g). gw_bounded T P 10000 g)"
    using c by (intro send_cancel_ok [OF _ r T(2)]) (simp add: core_bounded_def)
  moreover have "gw_bounded T P 10000 (core_gateway ?c)" using c by (simp add: core_bounded_def)
  ultimately have "ok (submit_cancel_request (core_gateway ?c) (core_order ?c) (receive_ts_ns tick))
      (\<lambda>(req, g, od). gw_bounded T P 10000 g)"
    by (auto simp: submit_cancel_request_def ok_bind ok_if elim!: ok_mono split: prod.splits)
  then show ?thesis
    using due c by (fastforce simp: k_cancel_def Let_def ok_iff core_bounded_def)
qed

lemma k_send_ok:
  assumes g: "gw_inv (core_gateway c)" "gw_style style (core_gateway c)" "gw_view (core_gateway c) = VNone"
    and q: "0 < req_quantity r" "in_i32 (req_quantity r)" and cb: "core_bounded T P c"
    and t: "tick_bounded T P tick" and l: "run_limits T P n" and px: "0 \<le> req_limit_price r" "req_limit_price r \<le> P"
  shows "ok (k_send style c tick cid r) (\<lambda>(acc, d). core_bounded T P d)"
proof -
  let ?r = "gateway_request style tick cid r"
  have "ok (send_new (core_gateway c) ?r) (\<lambda>(acc, h). gw_bounded T P 10000 h)"
    using cb t l q px
    by (intro send_new_ok) (simp_all add: core_bounded_def gateway_request_def tick_bounded_def run_limits_def)
  from ok_conj [OF this send_new_post [OF g(1,2), of ?r]]
  obtain h where h: "send_new (core_gateway c) ?r = Some (True, h)" "gw_bounded T P 10000 h"
    using g(3) q(1) by (auto simp: ok_iff gateway_request_def)
  show ?thesis
    using cb h by (simp add: k_send_def Let_def core_bounded_def ledger_bounded_count)
qed

lemma k_submit_ok:
  assumes inv: "kernel_inv style c" and q: "0 < req_quantity r" "in_i32 (req_quantity r)" and cb: "core_bounded T P c"
    and t: "tick_bounded T P tick" and l: "run_limits T P n" and px: "0 \<le> req_limit_price r" "req_limit_price r \<le> P"
  shows "ok (k_submit style c tick r) (core_bounded T P)"
proof -
  let ?r = "passive_price style tick r" and ?cid = "core_client_order_id c"
  have r: "req_side ?r = req_side r" "req_quantity ?r = req_quantity r" "0 \<le> req_limit_price ?r" "req_limit_price ?r \<le> P"
    using px t by (simp_all add: passive_price_def tick_bounded_def)
  have i: "gw_inv (core_gateway c)" "gw_style style (core_gateway c)"
      "oms_inv (core_order c)" "linked style (gw_view (core_gateway c)) (core_order c)"
    using inv by (simp_all add: kernel_inv_def consistent_def Let_def)
  obtain b od where sn: "submit_new (core_order c) ?cid (req_side r) (req_limit_price ?r) (req_quantity r) = (b, od)"
    by fastforce
  note p = submit_new_post [OF i(3,4) q sn]
  let ?d = "c\<lparr>core_client_order_id := ?cid + 1, core_order := od\<rparr>"
  have d: "core_bounded T P ?d" using cb by (simp add: core_bounded_def)
  have "ok (if b then k_send style ?d tick ?cid ?r else Some (False, ?d)) (\<lambda>(acc, d). core_bounded T P d)"
  proof (cases b)
    case True
    then have "gw_view (core_gateway ?d) = VNone" using p by simp
    then have "ok (k_send style ?d tick ?cid ?r) (\<lambda>(acc, d). core_bounded T P d)"
      using i r q d by (intro k_send_ok [OF _ _ _ _ _ _ t l]) simp_all
    then show ?thesis using True by simp
  qed (use d in simp)
  moreover have "core_bounded T P (x\<lparr>core_passive_submit_ts := receive_ts_ns tick\<rparr>)" if "core_bounded T P x" for x
    using that t by (auto simp: core_bounded_def tick_bounded_def)
  ultimately show ?thesis
    unfolding k_submit_def Let_def r using sn by (auto simp: ok_bind r elim!: ok_mono split del: if_split split: if_splits)
qed

lemma k_order_ok:
  assumes inv: "kernel_inv style c" and cb: "core_bounded T P c"
    and t: "tick_bounded T P tick" and l: "run_limits T P n"
  shows "ok (k_order style c tick) (core_bounded T P)"
proof (cases "has_order (strategy_on_tick replay_strategy tick)")
  case False
  then show ?thesis using cb by (simp add: k_order_def)
next
  case True
  let ?o = "decision_order (strategy_on_tick replay_strategy tick)"
  let ?c = "k_count (strategy_signals_update (\<lambda>n. n + 1)) c"
  have o: "0 < req_quantity ?o" "in_i32 (req_quantity ?o)" "req_quantity ?o \<le> 50" "0 \<le> req_limit_price ?o" "req_limit_price ?o \<le> P"
    using True t by (auto simp: strategy_on_tick_def replay_strategy_def in_i32_def tick_bounded_def split: if_splits)
  have ci: "kernel_inv style ?c" using inv by (simp add: kernel_inv_def books_def consistent_def Let_def)
  have cc: "core_bounded T P ?c" using cb by (simp add: core_bounded_def ledger_bounded_count)
  have "\<bar>net_of (core_accounting ?c)\<bar> \<le> 200" using ci by (simp add: kernel_inv_def within_limit_def)
  then have "ok (evaluate replay_risk (position_state (core_accounting ?c)) ?o) (\<lambda>_. True)"
    using o(3) by (intro evaluate_defined [where n = 200 and q = 50]) (simp_all add: replay_risk_def in_i64_def)
  then obtain x where x: "evaluate replay_risk (position_state (core_accounting ?c)) ?o = Some x" by (auto simp: ok_iff)
  have sub: "ok (k_submit style ?c tick ?o) (core_bounded T P)" by (rule k_submit_ok [OF ci o(1,2) cc t l o(4,5)])
  have rej: "core_bounded T P (k_emit (k_count (risk_rejects_update (\<lambda>n. n + 1)) ?c) e)" for e
    using cb by (simp add: core_bounded_def ledger_bounded_count)
  show ?thesis using True x sub rej by (simp add: k_order_def Let_def)
qed

lemma k_tick_ok:
  assumes inv: "kernel_inv style c" and cb: "core_bounded T P c" and t: "tick_bounded T P tick" and l: "run_limits T P n"
    and room: "fills (core_counters c) + 1 \<le> n"
  shows "ok (k_tick style after c tick) (core_bounded T P)"
proof -
  obtain d where d: "k_venue c tick = Some d" "core_bounded T P d" "kernel_inv style d"
    using ok_conj [OF k_venue_ok [OF assms] k_venue_post [OF inv]] by (auto simp: ok_iff)
  obtain e where e: "k_cancel style after d tick = Some e" "core_bounded T P e" "kernel_inv style e"
    using ok_conj [OF k_cancel_ok [OF d(2) t l] k_cancel_post [OF d(3)]] by (auto simp: ok_iff)
  show ?thesis using k_order_ok [OF e(3,2) t l] by (simp add: k_tick_def d(1) e(1))
qed

lemma k_run_ok:
  "kernel_inv style c \<Longrightarrow> core_bounded T P c \<Longrightarrow> list_all (tick_bounded T P) ticks \<Longrightarrow> run_limits T P n \<Longrightarrow>
   fills (core_counters c) + int (length ticks) \<le> n \<Longrightarrow> ok (k_run style after c ticks) (core_bounded T P)"
proof (induction ticks arbitrary: c)
  case (Cons tick ticks)
  then have "ok (k_tick style after c tick) (core_bounded T P)" by (intro k_tick_ok [where n = n]) simp_all
  from ok_conj [OF this k_tick_post [OF Cons.prems(1)]]
  obtain d where d: "k_tick style after c tick = Some d" "core_bounded T P d" "kernel_inv style d"
      "fills (core_counters d) \<le> fills (core_counters c) + 1"
    by (auto simp: ok_iff)
  then show ?case using Cons.IH [OF d(3,2)] Cons.prems by simp
qed simp

lemma core_bounded_init: "run_limits T P n \<Longrightarrow> core_bounded T P core_init"
  using gw_bounded_default [of T P 10000]
  by (simp add: core_bounded_def core_init_def run_limits_def ledger_bounded_def acct_bounded_def accounting_init_def
      zero_counters_def cost_within_def PRICE_SCALE_def)

end
