(* ===== verification/Replay_Properties.thy ===== *)
theory Replay_Properties
  imports Replay_Side_Channel Replay_Latency Replay_Definedness
begin

text \<open>
  The properties of \<^verbatim>\<open>run_replay\<close> as a whole, for every sink, clock and scheduling of the sink
  thread: the position limit, the books, the counters, the account of the events, the
  independence of the business outcome from the side channel, and when a run returns.
\<close>

section \<open>Example runs\<close>

text \<open>A sink that keeps what it is given, an idle clock, and a sink thread scheduled now and then.\<close>

definition recording_env :: "nat \<Rightarrow> TradeEvent list ReplayEnv" where
  "recording_env turns = \<lparr>env_consume = (\<lambda>j e. (True, j @ [e])), env_clock = int, env_schedule = (\<lambda>_. turns)\<rparr>"

definition replay_config :: "ReplaySinkMode \<Rightarrow> ExecutionStyle \<Rightarrow> TimestampNs \<Rightarrow> ReplayConfig" where
  "replay_config mode style cancel_after =
     \<lparr>sink_mode = mode, execution_style = style, passive_cancel_after_ns = cancel_after\<rparr>"

definition example_ticks :: "MarketTick list" where
  "example_ticks = [sample_tick 1000 99900 100000 50 50, sample_tick 2000 99900 100100 50 50, sample_tick 3000 99800 99900 50 20]"

text \<open>
  The collectors are set up in the order strategy, risk, execution, accounting, event sink, end
  to end, with one, one, two, one, four and one samples per tick; the first that does not fit
  a vector is the one reported.
\<close>

definition capacity_fault :: "nat \<Rightarrow> LatencyError" where
  "capacity_fault n =
     (if VECTOR_MAX_SIZE < int n then CapacityInvalid ''strategy'' n 1
      else if VECTOR_MAX_SIZE < 2 * int n then CapacityInvalid ''execution'' n 2
      else CapacityInvalid ''event_sink'' n 4)"

lemma latency_initialize_cases:
  assumes "0 < k"
  shows "if VECTOR_MAX_SIZE < int k * int n then latency_initialize name n k = Inl (CapacityInvalid name n k)
    else \<exists>ls. latency_initialize name n k = Inr ls"
proof (cases "VECTOR_MAX_SIZE < int k * int n")
  case True
  then show ?thesis using assms by (simp add: latency_initialize_def Let_def mult.commute)
next
  case False
  then have "int n \<le> SIZE_MAX div int k"
    using assms zdiv_mono1 [of "int n * int k" SIZE_MAX "int k"] by (simp add: SIZE_MAX_def VECTOR_MAX_SIZE_def mult.commute)
  with False assms show ?thesis by (simp add: latency_initialize_def Let_def mult.commute)
qed

lemma initialize_latencies_cases:
  "if VECTOR_MAX_SIZE < 4 * int n then initialize_latencies n = Inl (capacity_fault n)
   else \<exists>lat. initialize_latencies n = Inr lat"
  using latency_initialize_cases [of 1 n "''strategy''"] latency_initialize_cases [of 1 n "''risk''"]
    latency_initialize_cases [of 2 n "''execution''"] latency_initialize_cases [of 1 n "''accounting''"]
    latency_initialize_cases [of 4 n "''event_sink''"] latency_initialize_cases [of 1 n "''end_to_end''"]
  by (auto simp: initialize_latencies_def capacity_fault_def split: if_splits)

lemma initialize_latencies_ok: "4 * int n \<le> VECTOR_MAX_SIZE \<Longrightarrow> \<exists>lat. initialize_latencies n = Inr lat"
  using initialize_latencies_cases [of n] by (simp split: if_splits)

lemma outcome_defined:
  assumes "ticks \<noteq> []" "list_all (\<lambda>t. symbol_id t = symbol_id (hd ticks)) ticks" "4 * int (length ticks) \<le> VECTOR_MAX_SIZE"
    and "list_all (tick_bounded T P) ticks" "run_limits T P (int (length ticks))"
  shows "\<exists>b. replay_outcome style after ticks = Some (Inr b)"
proof -
  obtain lat where lat: "initialize_latencies (length ticks) = Inr lat" using initialize_latencies_ok [OF assms(3)] ..
  have all: "takeWhile (\<lambda>t. symbol_id t = symbol_id (hd ticks)) ticks = ticks"
    using assms(2) by (auto simp: takeWhile_eq_all_conv list_all_iff)
  have "ok (k_run style after core_init ticks) (core_bounded T P)"
    by (rule k_run_ok [OF kernel_inv_init core_bounded_init [OF assms(5)] assms(4,5)])
      (simp add: core_init_def zero_counters_def)
  then obtain c where "k_run style after core_init ticks = Some c" by (auto simp: ok_iff)
  then show ?thesis by (simp add: replay_outcome_def lat Let_def all assms(1,2))
qed

lemma example_run:
  obtains r snk where "run_replay env example_ticks config sink = Some (Inr r, snk)"
proof -
  have "\<exists>b. replay_outcome (execution_style config) (passive_cancel_after_ns config) example_ticks = Some (Inr b)"
    by (rule outcome_defined [where T = 3000 and P = 100100])
      (simp_all add: example_ticks_def sample_tick_def VECTOR_MAX_SIZE_def tick_bounded_def run_limits_def)
  then show ?thesis using run_of_outcome that by metis
qed

section \<open>What every finished run satisfies\<close>

text \<open>
  The events of a run depend on the ticks, the style and the cancel delay only, and a sink
  that misses none of them is fed exactly these.
\<close>

definition replay_journal :: "ExecutionStyle \<Rightarrow> TimestampNs \<Rightarrow> MarketTick list \<Rightarrow> TradeEvent list" where
  "replay_journal style cancel_after ticks =
     (case k_run style cancel_after core_init ticks of Some c \<Rightarrow> core_journal c | None \<Rightarrow> [])"

lemma run_replay_inv:
  assumes "run_replay env ticks config sink = Some (Inr r, snk)"
  obtains c sd where "kernel_inv (execution_style config) c" "length (core_journal c) \<le> 5 * length ticks"
    "fills (core_counters c) \<le> int (length ticks)"
    "side_inv env config sink sd (core_journal c)" "ring_contents (side_queue sd) = []"
    "r = replay_result \<lparr>core = c, channel = sd\<rparr>" "snk = side_sink sd"
    "core_journal c = replay_journal (execution_style config) (passive_cancel_after_ns config) ticks"
proof (rule run_replay_resultE [OF assms])
  fix latencies st sd
  assume r: "k_run (execution_style config) (passive_cancel_after_ns config) core_init ticks = Some (core st)"
    "side_inv env config sink sd (core_journal (core st))" "ring_contents (side_queue sd) = []"
    "r = replay_result (st\<lparr>channel := sd\<rparr>)" "snk = side_sink sd"
  have p: "kernel_inv (execution_style config) (core st)" "length (core_journal (core st)) \<le> 5 * length ticks"
      "fills (core_counters (core st)) \<le> int (length ticks)"
    using postD [OF k_run_post [OF kernel_inv_init] r(1)] by (simp_all add: core_init_def zero_counters_def)
  have "r = replay_result \<lparr>core = core st, channel = sd\<rparr>" unfolding r(4) by (cases st) simp
  moreover have "core_journal (core st) = replay_journal (execution_style config) (passive_cancel_after_ns config) ticks"
    using r(1) by (simp add: replay_journal_def)
  ultimately show thesis by (rule that [OF p r(2,3) _ r(5)])
qed

lemma replay_result_sel [simp]:
  "res_position (replay_result \<lparr>core = c, channel = sd\<rparr>) = position_state (core_accounting c)"
  "res_pnl (replay_result \<lparr>core = c, channel = sd\<rparr>) = pnl_state (core_accounting c)"
  "res_order (replay_result \<lparr>core = c, channel = sd\<rparr>) = core_order c"
  "res_sink_failed (replay_result \<lparr>core = c, channel = sd\<rparr>) = side_sink_failed sd"
  "res_latency_overflow (replay_result \<lparr>core = c, channel = sd\<rparr>) = any_overflow (side_latencies sd)"
  "res_counters (replay_result \<lparr>core = c, channel = sd\<rparr>) =
     (core_counters c)\<lparr>persisted_events := side_persisted sd, dropped_events := side_dropped sd\<rparr>"
  by (simp_all add: replay_result_def)

lemma sync_no_drop:
  assumes "run_replay env ticks config sink = Some (Inr r, snk)" "sink_mode config = SinkSync"
  shows "dropped_events (res_counters r) = 0"
proof (rule run_replay_inv [OF assms(1)])
  fix c sd
  assume "side_inv env config sink sd (core_journal c)" "r = replay_result \<lparr>core = c, channel = sd\<rparr>"
  then show ?thesis using assms(2) by (simp add: side_inv_def)
qed

lemma small_run_no_drop:
  assumes "run_replay env ticks config sink = Some (Inr r, snk)" "5 * length ticks \<le> 1024"
  shows "dropped_events (res_counters r) = 0"
proof (rule run_replay_inv [OF assms(1)])
  fix c sd
  assume "side_inv env config sink sd (core_journal c)" "r = replay_result \<lparr>core = c, channel = sd\<rparr>"
    "length (core_journal c) \<le> 5 * length ticks"
  then show ?thesis using assms(2) by (auto simp: side_inv_def)
qed

lemma latency_overflow_iff:
  assumes "run_replay env ticks config sink = Some (Inr r, snk)"
  shows "res_latency_overflow r \<longleftrightarrow> 4 * int (length ticks) < accepted_events (res_counters r)"
proof (rule run_replay_resultE [OF assms])
  fix lat st sd
  assume r: "initialize_latencies (length ticks) = Inr lat"
    "process_ticks env config (symbol_id (hd ticks)) \<lparr>core = core_init, channel = side_init sink lat\<rparr> ticks = Some (True, st)"
    "k_run (execution_style config) (passive_cancel_after_ns config) core_init ticks = Some (core st)"
    "r = replay_result (st\<lparr>channel := sd\<rparr>)" "join_sink env config (channel st) = Some sd"
  have "fills (core_counters (core st)) \<le> int (length ticks)"
    using postD [OF k_run_post [OF kernel_inv_init] r(3)] by (simp add: core_init_def zero_counters_def)
  moreover have "side_latencies sd = side_latencies (channel st)"
    using r(5) sink_drain_latencies by (auto simp: join_sink_def split: if_splits)
  ultimately show ?thesis
    using run_overflow_iff [OF r(1,2)] by (simp add: r(4) replay_result_def)
qed

lemma run_feed:
  assumes "run_replay env ticks config sink = Some (Inr r, snk)" "dropped_events (res_counters r) = 0"
  defines "j \<equiv> replay_journal (execution_style config) (passive_cancel_after_ns config) ticks"
  shows "feed (env_consume env) sink j = (nat (persisted_events (res_counters r)), snk) \<and>
    0 \<le> persisted_events (res_counters r) \<and> res_sink_failed r = (persisted_events (res_counters r) < int (length j))"
proof (rule run_replay_resultE [OF assms(1)])
  fix st sd
  assume r: "k_run (execution_style config) (passive_cancel_after_ns config) core_init ticks = Some (core st)"
    "side_inv env config sink sd (core_journal (core st))" "ring_contents (side_queue sd) = []"
    "r = replay_result (st\<lparr>channel := sd\<rparr>)" "snk = side_sink sd"
  have j: "j = core_journal (core st)" using r(1) by (simp add: j_def replay_journal_def)
  have d: "side_dropped sd = 0" using assms(2) by (simp add: r(4) replay_result_def)
  have "feed (env_consume env) sink (core_journal (core st)) = (nat (side_persisted sd), side_sink sd) \<and>
      0 \<le> side_persisted sd \<and> side_sink_failed sd = (side_persisted sd < int (length (core_journal (core st))))"
    by (rule finished_channel [OF r(2,3)]) (use d in \<open>auto dest: subseq_same_length\<close>)
  then show ?thesis by (simp add: j r(4,5) replay_result_def)
qed

text \<open>
  The journal of a run is what a recording sink receives in a synchronous run on the same ticks,
  with the same style and cancel delay.
\<close>

lemma feed_recording:
  assumes "\<And>j e. consume j e = (True, j @ [e])"
  shows "feed consume j es = (length es, j @ es)"
  by (induction es arbitrary: j) (simp_all add: assms)

lemma synchronous_recording:
  assumes "run_replay env ticks config sink = Some (Inr r, snk)"
  defines "style \<equiv> execution_style config" and "after \<equiv> passive_cancel_after_ns config"
  shows "\<exists>r'. run_replay (recording_env turns) ticks (replay_config SinkSync style after) [] =
    Some (Inr r', replay_journal style after ticks)"
proof -
  let ?config = "replay_config SinkSync style after"
  have sel: "execution_style ?config = style" "passive_cancel_after_ns ?config = after" "sink_mode ?config = SinkSync"
    by (simp_all add: replay_config_def)
  have "replay_outcome style after ticks = Some (Inr (business r))"
    using run_replay_refines [of env ticks config sink] assms(1) by (simp add: style_def after_def)
  then obtain r' j where run: "run_replay (recording_env turns) ticks ?config [] = Some (Inr r', j)"
    by (rule run_of_outcome [of ?config ticks "business r" "recording_env turns" "[]", unfolded sel])
  have "feed (env_consume (recording_env turns)) [] (replay_journal style after ticks) = (nat (persisted_events (res_counters r')), j)"
    using run_feed [OF run sync_no_drop [OF run sel(3)]] by (simp add: sel)
  moreover have "feed (env_consume (recording_env turns)) [] es = (length es, es)" for es
    using feed_recording [of "env_consume (recording_env turns)" "[]" es] by (simp add: recording_env_def)
  ultimately show ?thesis using run by simp
qed

section \<open>Safety\<close>

text \<open>
  C3. Position limit: whatever the market does, in both execution styles, the position at
  the end of a run is within the limit of 200, and so is the position that results when
  the open order fills completely.
\<close>

theorem replay_position_limit:
  assumes "run_replay env ticks config sink = Some (Inr r, snk)"
  shows "\<bar>net_qty (res_position r)\<bar> \<le> 200 \<and> \<bar>net_qty (res_position r) + exposure (res_order r)\<bar> \<le> 200"
proof (rule run_replay_inv [OF assms])
  fix c sd
  assume "kernel_inv (execution_style config) c" "r = replay_result \<lparr>core = c, channel = sd\<rparr>"
  then show ?thesis by (simp add: kernel_inv_def within_limit_def)
qed

theorem replay_position_limit_witness:
  "\<exists>r snk. run_replay (recording_env 0) example_ticks (replay_config SinkSync Aggressive 3000) [] = Some (Inr r, snk) \<and>
     \<bar>net_qty (res_position r)\<bar> \<le> 200"
proof (rule example_run [of "recording_env 0" "replay_config SinkSync Aggressive 3000" "[]"])
  fix r snk
  assume r: "run_replay (recording_env 0) example_ticks (replay_config SinkSync Aggressive 3000) [] = Some (Inr r, snk)"
  from replay_position_limit [OF r] r show ?thesis by simp
qed

text \<open>
  C4. The books balance against the journal: with a sink that keeps every event it is given
  and no event dropped, position and cash of the result are the signed sums over the fills
  in the journal, and the counters of accepted events and fills are its lengths.
\<close>

theorem replay_books_balance:
  assumes "run_replay env ticks config [] = Some (Inr r, journal)"
    and "\<And>j e. env_consume env j e = (True, j @ [e])" and "dropped_events (res_counters r) = 0"
  shows "net_qty (res_position r) = journal_net journal \<and> cash (res_pnl r) = - journal_spent journal \<and>
    accepted_events (res_counters r) = int (length journal) \<and> fills (res_counters r) = int (journal_fills journal)"
proof (rule run_replay_inv [OF assms(1)])
  fix c sd
  assume c: "kernel_inv (execution_style config) c" "side_inv env config [] sd (core_journal c)" "ring_contents (side_queue sd) = []"
    "r = replay_result \<lparr>core = c, channel = sd\<rparr>" "journal = side_sink sd"
  from finished_channel [OF c(2,3)] obtain out where o:
    "feed (env_consume env) [] out = (nat (side_persisted sd), side_sink sd)" "subseq out (core_journal c)"
    "int (length out) + side_dropped sd = int (length (core_journal c))" by metis
  have "side_sink sd = out" using o(1) feed_recording [of "env_consume env" "[]" out, OF assms(2)] by simp
  moreover have "out = core_journal c"
    using o(2,3) assms(3) by (intro subseq_same_length) (simp_all add: c(4))
  ultimately show ?thesis using c(1) by (simp add: c(4,5) kernel_inv_def books_def Let_def)
qed

theorem replay_books_balance_witness:
  "\<exists>r j. run_replay (recording_env 0) example_ticks (replay_config SinkSync Aggressive 3000) [] = Some (Inr r, j) \<and>
     net_qty (res_position r) = journal_net j \<and> cash (res_pnl r) = - journal_spent j"
proof (rule example_run [of "recording_env 0" "replay_config SinkSync Aggressive 3000" "[]"])
  fix r j
  assume r: "run_replay (recording_env 0) example_ticks (replay_config SinkSync Aggressive 3000) [] = Some (Inr r, j)"
  have "dropped_events (res_counters r) = 0" using sync_no_drop [OF r] by (simp add: replay_config_def)
  then show ?thesis using replay_books_balance [OF r] r by (simp add: recording_env_def)
qed

text \<open>
  C29. No internal inconsistency is ever counted: no event for another order, with a bad
  quantity or a bad venue order id, no batch overflow and no refused fill; every local
  submission reaches the gateway; the only invalid events are in the wrong state, and
  with aggressive orders there are none.
\<close>

theorem replay_clean_counters:
  assumes "run_replay env ticks config sink = Some (Inr r, snk)"
  shows "wrong_order_events (res_counters r) = 0 \<and> invalid_quantity_events (res_counters r) = 0 \<and>
    invalid_venue_order_id_events (res_counters r) = 0 \<and> venue_batch_overflows (res_counters r) = 0 \<and>
    accounting_rejected_fills (res_counters r) = 0 \<and>
    gateway_submissions (res_counters r) = local_submissions (res_counters r) \<and>
    invalid_venue_events (res_counters r) = wrong_state_events (res_counters r) \<and>
    (execution_style config = Aggressive \<longrightarrow> wrong_state_events (res_counters r) = 0)"
proof (rule run_replay_inv [OF assms])
  fix c sd
  assume "kernel_inv (execution_style config) c" "r = replay_result \<lparr>core = c, channel = sd\<rparr>"
  then show ?thesis by (simp add: kernel_inv_def consistent_def books_def Let_def)
qed

theorem replay_clean_counters_witness:
  "\<exists>r snk. run_replay (recording_env 1) example_ticks (replay_config SinkAsync Aggressive 3000) [] = Some (Inr r, snk) \<and>
     venue_batch_overflows (res_counters r) = 0 \<and> wrong_state_events (res_counters r) = 0"
proof (rule example_run [of "recording_env 1" "replay_config SinkAsync Aggressive 3000" "[]"])
  fix r snk
  assume r: "run_replay (recording_env 1) example_ticks (replay_config SinkAsync Aggressive 3000) [] = Some (Inr r, snk)"
  from replay_clean_counters [OF r] r show ?thesis by (simp add: replay_config_def)
qed

text \<open>A tick makes at most five events and one fill.\<close>

theorem replay_event_budget:
  assumes "run_replay env ticks config sink = Some (Inr r, snk)"
  shows "accepted_events (res_counters r) \<le> 5 * int (length ticks) \<and> fills (res_counters r) \<le> int (length ticks) \<and>
    fills (res_counters r) \<le> accepted_events (res_counters r)"
proof (rule run_replay_inv [OF assms])
  fix c sd
  assume "kernel_inv (execution_style config) c" "length (core_journal c) \<le> 5 * length ticks"
    "fills (core_counters c) \<le> int (length ticks)" "r = replay_result \<lparr>core = c, channel = sd\<rparr>"
  then show ?thesis by (simp add: kernel_inv_def books_def Let_def journal_fills_def)
qed

theorem replay_event_budget_witness:
  "\<exists>r snk. run_replay (recording_env 0) example_ticks (replay_config SinkSync Aggressive 3000) [] = Some (Inr r, snk) \<and>
     accepted_events (res_counters r) \<le> 15"
proof (rule example_run [of "recording_env 0" "replay_config SinkSync Aggressive 3000" "[]"])
  fix r snk
  assume r: "run_replay (recording_env 0) example_ticks (replay_config SinkSync Aggressive 3000) [] = Some (Inr r, snk)"
  from replay_event_budget [OF r] r show ?thesis by (simp add: example_ticks_def)
qed

section \<open>The side channel\<close>

text \<open>
  C11. Account of the events: the accepted events are those of the business run, every one of
  them is consumed by the sink or dropped, the sink is fed a subsequence of them, in order and
  none twice, the failure flag is raised exactly when the
  sink refused one of them, and synchronous runs and runs of at most 1024 events drop none.
\<close>

theorem replay_event_conservation:
  assumes "run_replay env ticks config sink = Some (Inr r, snk)"
  shows "\<exists>consumed. feed (env_consume env) sink consumed = (nat (persisted_events (res_counters r)), snk) \<and>
    subseq consumed (replay_journal (execution_style config) (passive_cancel_after_ns config) ticks) \<and>
    int (length consumed) + dropped_events (res_counters r) = accepted_events (res_counters r) \<and>
    0 \<le> persisted_events (res_counters r) \<and> 0 \<le> dropped_events (res_counters r) \<and>
    (res_sink_failed r \<longleftrightarrow> persisted_events (res_counters r) + dropped_events (res_counters r) < accepted_events (res_counters r)) \<and>
    (sink_mode config = SinkSync \<or> accepted_events (res_counters r) \<le> 1024 \<longrightarrow> dropped_events (res_counters r) = 0)"
proof (rule run_replay_inv [OF assms])
  fix c sd
  assume c: "kernel_inv (execution_style config) c" "side_inv env config sink sd (core_journal c)"
    "ring_contents (side_queue sd) = []" "r = replay_result \<lparr>core = c, channel = sd\<rparr>" "snk = side_sink sd"
    "core_journal c = replay_journal (execution_style config) (passive_cancel_after_ns config) ticks"
  have acc: "accepted_events (core_counters c) = int (length (core_journal c))"
    using c(1) by (simp add: kernel_inv_def books_def Let_def)
  show ?thesis
  proof (rule finished_channel [OF c(2,3)])
    fix out
    assume o: "feed (env_consume env) sink out = (nat (side_persisted sd), side_sink sd)"
      "subseq out (core_journal c)"
      "int (length out) + side_dropped sd = int (length (core_journal c))" "0 \<le> side_persisted sd" "0 \<le> side_dropped sd"
      "side_sink_failed sd = (side_persisted sd < int (length out))"
      "sink_mode config = SinkSync \<longrightarrow> side_dropped sd = 0" "0 < side_dropped sd \<longrightarrow> 1024 < length (core_journal c)"
    have "side_sink_failed sd \<longleftrightarrow> side_persisted sd + side_dropped sd < int (length (core_journal c))"
      using o(3,6) by linarith
    moreover have "sink_mode config = SinkSync \<or> int (length (core_journal c)) \<le> 1024 \<longrightarrow> side_dropped sd = 0"
      using o(5,7,8) by linarith
    ultimately show ?thesis using o(1-5) acc by (intro exI [of _ out]) (simp add: c(4,5) flip: c(6))
  qed
qed

theorem replay_event_conservation_witness:
  "\<exists>r snk. run_replay (recording_env 1) example_ticks (replay_config SinkAsync Aggressive 3000) [] = Some (Inr r, snk) \<and>
     (res_sink_failed r \<longleftrightarrow> persisted_events (res_counters r) + dropped_events (res_counters r) < accepted_events (res_counters r))"
proof (rule example_run [of "recording_env 1" "replay_config SinkAsync Aggressive 3000" "[]"])
  fix r snk
  assume r: "run_replay (recording_env 1) example_ticks (replay_config SinkAsync Aggressive 3000) [] = Some (Inr r, snk)"
  from replay_event_conservation [OF r] r show ?thesis by auto
qed

text \<open>
  C8. The business outcome does not depend on the side channel: two runs over the same ticks
  with the same style and cancel delay return the same error or the same counters,
  position, profit, order and execution statistics, whatever the sink mode, the sink, the
  clock and the scheduling of the sink thread.
\<close>

theorem replay_mode_independence:
  assumes "execution_style config1 = execution_style config2"
    and "passive_cancel_after_ns config1 = passive_cancel_after_ns config2"
  shows "map_option (map_sum id business \<circ> fst) (run_replay env1 ticks config1 sink1) =
    map_option (map_sum id business \<circ> fst) (run_replay env2 ticks config2 sink2)"
  by (simp only: run_replay_refines assms)

theorem replay_mode_independence_witness:
  "map_option (map_sum id business \<circ> fst) (run_replay (recording_env 0) example_ticks (replay_config SinkSync Passive 3000) []) =
   map_option (map_sum id business \<circ> fst) (run_replay (recording_env 7) example_ticks (replay_config SinkAsync Passive 3000) [])"
  by (rule replay_mode_independence) (simp_all add: replay_config_def)

text \<open>
  A run that drops nothing leaves the sink as the synchronous run does: same final
  state, same count of persisted events, same failure flag.
\<close>

theorem replay_sync_async_agree:
  assumes "run_replay env1 ticks config1 sink = Some (Inr r1, snk1)" "sink_mode config1 = SinkSync"
    and "run_replay env2 ticks config2 sink = Some (Inr r2, snk2)" "dropped_events (res_counters r2) = 0"
    and "env_consume env1 = env_consume env2" "execution_style config1 = execution_style config2"
    and "passive_cancel_after_ns config1 = passive_cancel_after_ns config2"
  shows "snk1 = snk2 \<and> persisted_events (res_counters r1) = persisted_events (res_counters r2) \<and>
    res_sink_failed r1 = res_sink_failed r2"
proof -
  have "dropped_events (res_counters r1) = 0" by (rule sync_no_drop [OF assms(1,2)])
  from run_feed [OF assms(1) this] run_feed [OF assms(3,4)] show ?thesis using assms(5-7) by auto
qed

theorem replay_sync_async_agree_witness:
  "\<exists>r1 r2 snk. run_replay (recording_env 0) example_ticks (replay_config SinkSync Passive 3000) [] = Some (Inr r1, snk) \<and>
     run_replay (recording_env 1) example_ticks (replay_config SinkAsync Passive 3000) [] = Some (Inr r2, snk)"
proof (rule example_run [of "recording_env 0" "replay_config SinkSync Passive 3000" "[]"],
    rule example_run [of "recording_env 1" "replay_config SinkAsync Passive 3000" "[]"])
  fix r1 s1 r2 s2
  assume r: "run_replay (recording_env 0) example_ticks (replay_config SinkSync Passive 3000) [] = Some (Inr r1, s1)"
    "run_replay (recording_env 1) example_ticks (replay_config SinkAsync Passive 3000) [] = Some (Inr r2, s2)"
  have "dropped_events (res_counters r2) = 0"
    using small_run_no_drop [OF r(2)] by (simp add: example_ticks_def)
  from replay_sync_async_agree [OF r(1) _ r(2) this] r show ?thesis
    by (simp add: replay_config_def recording_env_def)
qed

section \<open>Returning\<close>

text \<open>
  C12. A run returns: for ticks of one symbol whose prices and timestamps are bounded as
  stated, no operation overflows, the loop and the sink thread end, and the result is not
  an exception, for every sink, clock, scheduling and configuration.
\<close>

theorem replay_returns:
  assumes "ticks \<noteq> []" "list_all (\<lambda>t. symbol_id t = symbol_id (hd ticks)) ticks" "4 * int (length ticks) \<le> VECTOR_MAX_SIZE"
    and "list_all (tick_bounded T P) ticks" "run_limits T P (int (length ticks))"
  shows "\<exists>r snk. run_replay env ticks config sink = Some (Inr r, snk)"
proof -
  obtain b where "replay_outcome (execution_style config) (passive_cancel_after_ns config) ticks = Some (Inr b)"
    using outcome_defined [OF assms] by blast
  then show ?thesis using run_of_outcome by metis
qed

theorem replay_returns_witness:
  "\<exists>r snk. run_replay (recording_env 3) example_ticks (replay_config SinkAsync Passive 3000) [] = Some (Inr r, snk)"
  by (rule replay_returns [where T = 3000 and P = 100100])
    (simp_all add: example_ticks_def sample_tick_def VECTOR_MAX_SIZE_def tick_bounded_def run_limits_def)

text \<open>
  C31. Errors of a run that is defined, each exactly when its cause is there and in this order:
  an empty input; more ticks than a latency collector has room for, four samples of each in the
  collector of the event sink, with the first collector that does not fit named in the error;
  and a second symbol, in any position. The first two leave the sink as it was.
\<close>

theorem replay_error_exact:
  assumes "run_replay env ticks config sink = Some (x, snk)"
  shows "(x = Inl EmptyReplay \<longleftrightarrow> ticks = []) \<and>
    (\<forall>e. x = Inl (LatencyCapacity e) \<longleftrightarrow>
       ticks \<noteq> [] \<and> VECTOR_MAX_SIZE < 4 * int (length ticks) \<and> e = capacity_fault (length ticks)) \<and>
    (x = Inl MultipleSymbols \<longleftrightarrow> ticks \<noteq> [] \<and> 4 * int (length ticks) \<le> VECTOR_MAX_SIZE \<and>
       (\<exists>t \<in> set ticks. symbol_id t \<noteq> symbol_id (hd ticks))) \<and>
    (isl x \<longleftrightarrow> ticks = [] \<or> VECTOR_MAX_SIZE < 4 * int (length ticks) \<or>
       (\<exists>t \<in> set ticks. symbol_id t \<noteq> symbol_id (hd ticks))) \<and>
    (ticks = [] \<or> VECTOR_MAX_SIZE < 4 * int (length ticks) \<longrightarrow> snk = sink)"
proof (cases "ticks = [] \<or> VECTOR_MAX_SIZE < 4 * int (length ticks)")
  case True
  show ?thesis
  proof (cases "ticks = []")
    case True
    then show ?thesis using assms by (auto simp: run_replay_def VECTOR_MAX_SIZE_def)
  next
    case nonempty: False
    with True have big: "VECTOR_MAX_SIZE < 4 * int (length ticks)" by simp
    then have "initialize_latencies (length ticks) = Inl (capacity_fault (length ticks))"
      using initialize_latencies_cases [of "length ticks"] by simp
    then have "x = Inl (LatencyCapacity (capacity_fault (length ticks)))" "snk = sink"
      using assms nonempty by (simp_all add: run_replay_def)
    then show ?thesis using nonempty big by auto
  qed
next
  case False
  then have "4 * int (length ticks) \<le> VECTOR_MAX_SIZE" by simp
  then obtain lat where lat: "initialize_latencies (length ticks) = Inr lat" using initialize_latencies_ok by blast
  from assms False lat obtain b st y where p:
    "process_ticks env config (symbol_id (hd ticks)) \<lparr>core = core_init, channel = side_init sink lat\<rparr> ticks = Some (b, st)"
    "x = (if b then Inr y else Inl MultipleSymbols)"
    by (auto simp: run_replay_join Option.bind_eq_Some_conv)
  define foreign where "foreign \<longleftrightarrow> (\<exists>t \<in> set ticks. symbol_id t \<noteq> symbol_id (hd ticks))"
  have "b = list_all (\<lambda>t. symbol_id t = symbol_id (hd ticks)) ticks" using process_ticks_kernel [OF p(1)] by simp
  then have "b = (\<not> foreign)" unfolding foreign_def list_all_iff by blast
  then show ?thesis using False p(2) unfolding foreign_def [symmetric] by auto
qed

theorem replay_error_exact_witness:
  "\<exists>x snk. run_replay (recording_env 0) example_ticks (replay_config SinkSync Aggressive 3000) [] = Some (x, snk) \<and> \<not> isl x"
proof (rule example_run [of "recording_env 0" "replay_config SinkSync Aggressive 3000" "[]"])
  fix r snk
  assume r: "run_replay (recording_env 0) example_ticks (replay_config SinkSync Aggressive 3000) [] = Some (Inr r, snk)"
  from replay_error_exact [OF r] r show ?thesis by (simp add: example_ticks_def VECTOR_MAX_SIZE_def)
qed

text \<open>
  C32. Latency overflow: of the six collectors only the one for the event sink can run out of
  capacity, and a run reports an overflow exactly when it accepted more than four events
  per tick on average.
\<close>

theorem replay_latency_overflow_exact:
  assumes "run_replay env ticks config sink = Some (Inr r, snk)"
  shows "res_latency_overflow r \<longleftrightarrow> 4 * int (length ticks) < accepted_events (res_counters r)"
  by (rule latency_overflow_iff [OF assms])

theorem replay_latency_overflow_exact_witness:
  "\<exists>r snk. run_replay (recording_env 0) example_ticks (replay_config SinkSync Aggressive 3000) [] = Some (Inr r, snk) \<and>
     (res_latency_overflow r \<longleftrightarrow> 12 < accepted_events (res_counters r))"
proof (rule example_run [of "recording_env 0" "replay_config SinkSync Aggressive 3000" "[]"])
  fix r snk
  assume r: "run_replay (recording_env 0) example_ticks (replay_config SinkSync Aggressive 3000) [] = Some (Inr r, snk)"
  from replay_latency_overflow_exact [OF r] r show ?thesis by (simp add: example_ticks_def)
qed

end
