(* ===== verification/Replay_Findings.thy ===== *)
theory Replay_Findings
  imports Replay_Properties
begin

text \<open>
  Behaviours of the replay that modelling brought to light, as theorems on concrete inputs
  or, for the stuck order, on every continuation of one: an order manager that is left
  with an open order the venue has closed, a latency collector that is too small, and a
  mid price whose sum does not fit its type.
\<close>

section \<open>An order that stays open for ever\<close>

text \<open>
  The venue has no order and the manager believes one is partially filled: nothing the
  market does changes that, so no order is ever submitted again.
\<close>

definition stranded :: "ReplayCore \<Rightarrow> bool" where
  "stranded c \<longleftrightarrow> gw_view (core_gateway c) = VNone \<and> o_state (core_order c) = PartiallyFilled"

definition same_order :: "ReplayCore \<Rightarrow> ReplayCore \<Rightarrow> bool" where
  "same_order c d \<longleftrightarrow> core_order d = core_order c \<and>
     local_submissions (core_counters d) = local_submissions (core_counters c)"

lemma stranded_venue:
  assumes "kernel_inv style c" "stranded c"
  shows "post (k_venue c tick) (\<lambda>d. stranded d \<and> same_order c d)"
proof (rule postI)
  fix d assume "k_venue c tick = Some d"
  then obtain a b g where r: "gateway_on_tick (core_gateway c) tick = Some (b, g)"
      "k_events (k_count (venue_batch_overflows_update (\<lambda>n. n + int (batch_overflow_count b)))
         (c\<lparr>core_accounting := a, core_gateway := g\<rparr>)) (batch_events b) tick = Some d"
    by (auto simp: k_venue_def Option.bind_eq_Some_conv)
  have i: "gw_inv (core_gateway c)" "gw_style style (core_gateway c)" using assms(1) by (simp_all add: kernel_inv_def)
  have "tick_result style VNone tick b g"
    using postD [OF gateway_on_tick_post [OF i] r(1)] assms(2) by (simp add: stranded_def)
  then have "view_steps style VNone (batch_events b) (gw_view g)" by (simp add: tick_result_def)
  then have "batch_events b = [] \<and> gw_view g = VNone" by (cases rule: view_steps.cases) auto
  then show "stranded d \<and> same_order c d" using r(2) assms(2) by (auto simp: stranded_def same_order_def)
qed

lemma stranded_cancel:
  assumes "kernel_inv style c" "stranded c"
  shows "post (k_cancel style after c tick) (\<lambda>d. stranded d \<and> same_order c d)"
proof (rule postI)
  fix d assume d: "k_cancel style after c tick = Some d"
  have f: "forget_finished c = c" using assms(2) by (simp add: forget_finished_def stranded_def)
  have i: "gw_inv (core_gateway c)" "gw_style style (core_gateway c)" using assms(1) by (simp_all add: kernel_inv_def)
  have "\<not> act_active (active_order (core_gateway c))"
    using assms(2) by (auto simp: stranded_def gw_view_def Let_def split: if_splits)
  then have "post (send_cancel (core_gateway c) (receive_ts_ns tick)) (\<lambda>(sent, g). \<not> sent \<and> gw_view g = VNone)"
    using assms(2) by (intro post_mono [OF send_cancel_post [OF i]]) (auto simp: stranded_def)
  then have "post (submit_cancel_request (core_gateway c) (core_order c) (receive_ts_ns tick))
      (\<lambda>(req, g, od). \<not> req \<and> gw_view g = VNone \<and> od = core_order c)"
    using assms(2) unfolding submit_cancel_request_def post_if post_bind
    by (auto simp: stranded_def elim!: post_mono)
  then show "stranded d \<and> same_order c d"
    using d assms(2) by (fastforce simp: k_cancel_def Let_def f Option.bind_eq_Some_conv stranded_def same_order_def split: if_splits)
qed

lemma stranded_order:
  assumes "stranded c"
  shows "post (k_order style c tick) (\<lambda>d. stranded d \<and> same_order c d)"
proof -
  have "submit_new (core_order c) i s p q = (False, core_order c)" for i s p q
    using assms by (simp add: submit_new_def stranded_def)
  then have "post (k_submit style (k_count (strategy_signals_update (\<lambda>n. n + 1)) c) tick r) (\<lambda>d. stranded d \<and> same_order c d)" for r
    using assms by (simp add: k_submit_def Let_def stranded_def same_order_def)
  then show ?thesis
    using assms by (auto simp: k_order_def Let_def post_bind stranded_def same_order_def intro!: postI)
qed

lemma stranded_tick:
  assumes inv: "kernel_inv style c" and s: "stranded c"
  shows "post (k_tick style after c tick) (\<lambda>d. stranded d \<and> same_order c d)"
proof (rule postI)
  fix d assume "k_tick style after c tick = Some d"
  then obtain x y where r: "k_venue c tick = Some x" "k_cancel style after x tick = Some y" "k_order style y tick = Some d"
    by (auto simp: k_tick_def Option.bind_eq_Some_conv)
  have x: "stranded x" "same_order c x" "kernel_inv style x"
    using postD [OF stranded_venue [OF assms] r(1)] postD [OF k_venue_post [OF inv] r(1)] by simp_all
  have y: "stranded y" "same_order x y" using postD [OF stranded_cancel [OF x(3,1)] r(2)] by simp_all
  show "stranded d \<and> same_order c d"
    using postD [OF stranded_order [OF y(1)] r(3)] x(2) y(2) by (simp add: same_order_def)
qed

lemma stranded_run:
  "kernel_inv style c \<Longrightarrow> stranded c \<Longrightarrow> post (k_run style after c ticks) (\<lambda>d. stranded d \<and> same_order c d)"
proof (induction ticks arbitrary: c)
  case (Cons tick ticks)
  show ?case
  proof (simp only: k_run.simps post_bind, rule postI)
    fix d assume d: "k_tick style after c tick = Some d"
    have "stranded d" "same_order c d" "kernel_inv style d"
      using postD [OF stranded_tick [OF Cons.prems] d] postD [OF k_tick_post [OF Cons.prems(1)] d] by simp_all
    then show "post (k_run style after d ticks) (\<lambda>d. stranded d \<and> same_order c d)"
      by (intro post_mono [OF Cons.IH]) (auto simp: same_order_def)
  qed
qed (simp add: same_order_def)

lemma k_run_append: "k_run style after c (xs @ ys) = Option.bind (k_run style after c xs) (\<lambda>d. k_run style after d ys)"
  by (induction xs arbitrary: c) (simp_all split: Option.bind_split)

definition divergence_ticks :: "MarketTick list" where
  "divergence_ticks = [sample_tick 1000 99900 100000 0 50, sample_tick 2000 99900 100100 0 50,
     sample_tick 2300 99900 100100 0 50, sample_tick 2400 99800 99900 0 10, sample_tick 2500 99800 99900 0 10,
     sample_tick 3400 99900 100100 0 50]"

lemma divergence_core:
  "ok (k_run Passive 1000 core_init divergence_ticks) (\<lambda>c. stranded c \<and>
     local_submissions (core_counters c) = 1 \<and> o_leaves_qty (core_order c) = 30)"
  by code_simp

text \<open>
  C33. A passive order can be lost: after six ticks in which a fill arrives while a cancel is
  under way, the venue has cancelled the order but the order manager, which refused the
  acknowledgement, keeps it partially filled with 30 to go, and whatever ticks follow, no
  further order is submitted.
\<close>

theorem replay_stranded_order:
  assumes "run_replay env (divergence_ticks @ rest) (replay_config mode Passive 1000) sink = Some (Inr r, snk)"
  shows "local_submissions (res_counters r) = 1 \<and> o_state (res_order r) = PartiallyFilled \<and> o_leaves_qty (res_order r) = 30"
proof (rule run_replay_resultE [OF assms])
  fix st sd
  assume k: "k_run (execution_style (replay_config mode Passive 1000)) (passive_cancel_after_ns (replay_config mode Passive 1000))
      core_init (divergence_ticks @ rest) = Some (core st)" and r: "r = replay_result (st\<lparr>channel := sd\<rparr>)"
  obtain c where c: "k_run Passive 1000 core_init divergence_ticks = Some c" "stranded c"
      "local_submissions (core_counters c) = 1" "o_leaves_qty (core_order c) = 30"
    using divergence_core by (auto simp: ok_iff)
  then have d: "k_run Passive 1000 c rest = Some (core st)" using k by (simp add: replay_config_def k_run_append)
  have "kernel_inv Passive c" using postD [OF k_run_post [OF kernel_inv_init] c(1)] by simp
  from postD [OF stranded_run [OF this c(2)] d] show ?thesis
    using c by (simp add: r replay_result_def same_order_def stranded_def)
qed

theorem replay_stranded_order_witness:
  "\<exists>r snk. run_replay (recording_env 0) (divergence_ticks @ [sample_tick 9000 99900 100000 50 50])
     (replay_config SinkSync Passive 1000) [] = Some (Inr r, snk) \<and> local_submissions (res_counters r) = 1"
proof -
  let ?c = "replay_config SinkSync Passive 1000" and ?t = "divergence_ticks @ [sample_tick 9000 99900 100000 50 50]"
  have "\<exists>b. replay_outcome (execution_style ?c) (passive_cancel_after_ns ?c) ?t = Some (Inr b)"
    by (rule outcome_defined [where T = 9000 and P = 100100])
      (simp_all add: divergence_ticks_def sample_tick_def VECTOR_MAX_SIZE_def tick_bounded_def run_limits_def)
  then obtain r snk where r: "run_replay (recording_env 0) ?t ?c [] = Some (Inr r, snk)" using run_of_outcome by metis
  from replay_stranded_order [OF r] r show ?thesis by simp
qed

section \<open>A collector that is too small\<close>

definition burst_ticks :: "MarketTick list" where
  "burst_ticks = map (\<lambda>i. sample_tick (1000 * int i) 99900 100000 0 20) [1..<10]"

lemma burst_core: "ok (k_run Aggressive 3000 core_init burst_ticks) (\<lambda>c. accepted_events (core_counters c) = 37)"
  by code_simp

text \<open>
  Nine ordinary ticks with aggressive orders make 37 events, one more than the event
  collector's capacity of four per tick: the run is reported as failed for a latency
  overflow, whatever the sink.
\<close>

theorem replay_latency_capacity_too_small:
  "\<exists>r snk. run_replay env burst_ticks (replay_config mode Aggressive 3000) sink = Some (Inr r, snk) \<and>
     accepted_events (res_counters r) = 37 \<and> res_latency_overflow r"
proof -
  let ?c = "replay_config mode Aggressive 3000"
  have "\<exists>b. replay_outcome (execution_style ?c) (passive_cancel_after_ns ?c) burst_ticks = Some (Inr b)"
    by (rule outcome_defined [where T = 9000 and P = 100000])
      (simp_all add: burst_ticks_def sample_tick_def VECTOR_MAX_SIZE_def tick_bounded_def run_limits_def list_all_iff upt_rec)
  then obtain r snk where r: "run_replay env burst_ticks ?c sink = Some (Inr r, snk)" using run_of_outcome by metis
  have "accepted_events (res_counters r) = 37"
    by (rule run_replay_resultE [OF r]) (use burst_core in \<open>auto simp: replay_config_def replay_result_def ok_iff\<close>)
  moreover have "length burst_ticks = 9" by (simp add: burst_ticks_def)
  ultimately show ?thesis using r latency_overflow_iff [OF r] by simp
qed

section \<open>A mid price that does not fit\<close>

text \<open>
  Prices the types allow can make the mid price overflow: when the first tick's bid and
  ask add up to more than the largest 64-bit integer, the run has undefined behaviour.
\<close>

theorem replay_mid_price_overflow:
  assumes "bid_price tick + ask_price tick > INT64_MAX" "4 * int (length (tick # ticks)) \<le> VECTOR_MAX_SIZE"
  shows "run_replay env (tick # ticks) config sink = None"
proof -
  obtain lat where "initialize_latencies (length (tick # ticks)) = Inr lat" using initialize_latencies_ok [OF assms(2)] ..
  moreover have "mid_price tick = None" using assms(1) by (simp add: mid_price_def add64_def chk64_def in_i64_def)
  ultimately show ?thesis
    by (simp add: run_replay_def process_tick_def venue_phase_def clock_now_split)
qed

theorem replay_mid_price_overflow_witness:
  "run_replay (recording_env 0) [sample_tick 1000 5000000000000000000 5000000000000000000 1 1]
     (replay_config SinkSync Aggressive 3000) [] = None"
  by (rule replay_mid_price_overflow) (simp_all add: sample_tick_def VECTOR_MAX_SIZE_def)

end
