(* ===== verification/Sink_Thread.thy ===== *)
theory Sink_Thread
  imports Replay_Properties
begin

text \<open>
  The two threads of an asynchronous run, step by step: the replay thread pushing its events
  and closing with \<^verbatim>\<open>sink_done\<close> and \<^verbatim>\<open>join\<close>, and the sink thread with the loop of
  \<^verbatim>\<open>src/replay_runner.cpp\<close>, on the concurrent ring of \<^verbatim>\<open>Spsc_Ring_Buffer\<close> with its stale loads. Every
  interleaving is one of the schedules over which the theorems about \<open>run_replay\<close> quantify.
\<close>

section \<open>The two threads\<close>

text \<open>
  Where the sink thread is: before the load of \<^verbatim>\<open>sink_done\<close>, before \<^verbatim>\<open>empty\<close>, inside \<^verbatim>\<open>try_pop\<close>,
  holding an event, or gone. The replay thread emits, has set \<^verbatim>\<open>sink_done\<close>, or has joined.
\<close>

datatype SinkPc = STest | SEmpty | SPop | SConsume TradeEvent | SGone

datatype ReplayPc = Emitting | SinkDone | Joined

record 'k AsyncRun =
  a_ring :: "TradeEvent spsc_state"
  a_pending :: "TradeEvent list"
  a_main :: ReplayPc
  a_dropped :: i64
  a_thread :: SinkPc
  a_sink :: 'k
  a_persisted :: i64
  a_failed :: bool

definition async_start :: "'k \<Rightarrow> TradeEvent list \<Rightarrow> 'k AsyncRun" where
  "async_start sink events = \<lparr>a_ring = spsc_start blank_event 1024, a_pending = events, a_main = Emitting, a_dropped = 0,
     a_thread = STest, a_sink = sink, a_persisted = 0, a_failed = False\<rparr>"

text \<open>
  The steps of the replay thread: a push goes through the accesses of \<^verbatim>\<open>try_push\<close>, and the event
  is dropped when it finds the ring full. With all events pushed it sets \<^verbatim>\<open>sink_done\<close> and joins.
\<close>

inductive replay_step :: "'k AsyncRun \<Rightarrow> 'k AsyncRun \<Rightarrow> bool" where
  push_started: "a_main s = Emitting \<Longrightarrow> a_pending s = e # es \<Longrightarrow> producer (a_ring s) = PIdle \<Longrightarrow>
    spsc_step (a_ring s) r \<Longrightarrow> producer r = PLoaded e head \<Longrightarrow>
    replay_step s (s\<lparr>a_ring := r\<rparr>)"
| push_advance: "producer (a_ring s) \<noteq> PIdle \<Longrightarrow> spsc_step (a_ring s) r \<Longrightarrow>
    producer r \<noteq> producer (a_ring s) \<Longrightarrow> producer r \<noteq> PIdle \<Longrightarrow>
    replay_step s (s\<lparr>a_ring := r\<rparr>)"
| push_dropped: "producer (a_ring s) = PLoaded e head \<Longrightarrow> spsc_step (a_ring s) r \<Longrightarrow> producer r = PIdle \<Longrightarrow>
    replay_step s (s\<lparr>a_ring := r, a_pending := tl (a_pending s), a_dropped := a_dropped s + 1\<rparr>)"
| push_accepted: "producer (a_ring s) = PWritten e head \<Longrightarrow> spsc_step (a_ring s) r \<Longrightarrow> producer r = PIdle \<Longrightarrow>
    replay_step s (s\<lparr>a_ring := r, a_pending := tl (a_pending s)\<rparr>)"
| store_done: "a_main s = Emitting \<Longrightarrow> a_pending s = [] \<Longrightarrow> producer (a_ring s) = PIdle \<Longrightarrow>
    replay_step s (s\<lparr>a_main := SinkDone\<rparr>)"
| join: "a_main s = SinkDone \<Longrightarrow> a_thread s = SGone \<Longrightarrow>
    replay_step s (s\<lparr>a_main := Joined\<rparr>)"

text \<open>
  The steps of the sink thread: a load of \<^verbatim>\<open>sink_done\<close> may be stale while it reads false; one
  that reads true has synchronised with all that the replay thread did before. \<^verbatim>\<open>empty\<close> may read
  any cursor not older than the last one seen.
\<close>

inductive sink_step :: "'k ReplayEnv \<Rightarrow> 'k AsyncRun \<Rightarrow> 'k AsyncRun \<Rightarrow> bool" for env where
  not_done: "a_thread s = STest \<Longrightarrow>
    sink_step env s (s\<lparr>a_thread := SPop\<rparr>)"
| sees_done: "a_thread s = STest \<Longrightarrow> a_main s \<noteq> Emitting \<Longrightarrow>
    sink_step env s (s\<lparr>a_thread := SEmpty, a_ring := (a_ring s)\<lparr>consumer_seen := length (head_order (a_ring s)) - 1\<rparr>\<rparr>)"
| sees_empty: "a_thread s = SEmpty \<Longrightarrow> consumer_seen (a_ring s) \<le> i \<Longrightarrow> i < length (head_order (a_ring s)) \<Longrightarrow>
    head_order (a_ring s) ! i = last (tail_order (a_ring s)) \<Longrightarrow>
    sink_step env s (s\<lparr>a_thread := SGone, a_ring := (a_ring s)\<lparr>consumer_seen := i\<rparr>\<rparr>)"
| sees_nonempty: "a_thread s = SEmpty \<Longrightarrow> consumer_seen (a_ring s) \<le> i \<Longrightarrow> i < length (head_order (a_ring s)) \<Longrightarrow>
    head_order (a_ring s) ! i \<noteq> last (tail_order (a_ring s)) \<Longrightarrow>
    sink_step env s (s\<lparr>a_thread := SPop, a_ring := (a_ring s)\<lparr>consumer_seen := i\<rparr>\<rparr>)"
| pop_advance: "a_thread s = SPop \<Longrightarrow> spsc_step (a_ring s) r \<Longrightarrow>
    consumer r \<noteq> consumer (a_ring s) \<Longrightarrow> consumer r \<noteq> CIdle \<Longrightarrow>
    sink_step env s (s\<lparr>a_ring := r\<rparr>)"
| pop_nothing: "a_thread s = SPop \<Longrightarrow> consumer (a_ring s) = CLoaded tail \<Longrightarrow> spsc_step (a_ring s) r \<Longrightarrow> consumer r = CIdle \<Longrightarrow>
    sink_step env s (s\<lparr>a_ring := r, a_thread := STest\<rparr>)"
| popped: "a_thread s = SPop \<Longrightarrow> consumer (a_ring s) = CRead tail e \<Longrightarrow> spsc_step (a_ring s) r \<Longrightarrow> consumer r = CIdle \<Longrightarrow>
    sink_step env s (s\<lparr>a_ring := r, a_thread := SConsume e\<rparr>)"
| consume: "a_thread s = SConsume e \<Longrightarrow> env_consume env (a_sink s) e = (b, k) \<Longrightarrow>
    sink_step env s (if b then s\<lparr>a_thread := STest, a_sink := k, a_persisted := a_persisted s + 1\<rparr>
      else s\<lparr>a_thread := STest, a_sink := k, a_failed := True\<rparr>)"

text \<open>The two threads take steps in any order.\<close>

definition async_step :: "'k ReplayEnv \<Rightarrow> 'k AsyncRun \<Rightarrow> 'k AsyncRun \<Rightarrow> bool" where
  "async_step env s s' \<longleftrightarrow> replay_step s s' \<or> sink_step env s s'"

inductive async_reach :: "'k ReplayEnv \<Rightarrow> 'k \<Rightarrow> TradeEvent list \<Rightarrow> 'k AsyncRun \<Rightarrow> bool" for env sink events where
  start: "async_reach env sink events (async_start sink events)"
| step: "async_reach env sink events s \<Longrightarrow> async_step env s s' \<Longrightarrow> async_reach env sink events s'"

section \<open>The scheduled side channel\<close>

text \<open>The pushes of a run with given numbers of turns of the sink thread before each.\<close>

definition paced_push :: "'k ReplayEnv \<Rightarrow> nat \<times> TradeEvent \<Rightarrow> 'k SideChannel \<Rightarrow> 'k SideChannel" where
  "paced_push env p sd = push_side (env\<lparr>env_schedule := (\<lambda>_. fst p)\<rparr>) sd (snd p)"

definition turns_of :: "nat list \<Rightarrow> nat \<Rightarrow> nat" where
  "turns_of ds n = (if n < length ds then ds ! n else 0)"

lemma sink_env [simp]:
  "sink_iteration (env\<lparr>env_schedule := f\<rparr>) = sink_iteration env"
  "sink_turns (env\<lparr>env_schedule := f\<rparr>) n sd = sink_turns env n sd"
proof -
  show i: "sink_iteration (env\<lparr>env_schedule := f\<rparr>) = sink_iteration env"
    by (auto simp: fun_eq_iff sink_iteration_def deliver_event_def split: option.split prod.split)
  show "sink_turns (env\<lparr>env_schedule := f\<rparr>) n sd = sink_turns env n sd"
    by (induction n arbitrary: sd) (simp_all add: i)
qed

lemma push_side_paced:
  "push_side (env\<lparr>env_schedule := f\<rparr>) sd e = paced_push env (f (side_pushes sd), e) sd"
  by (simp add: push_side_def paced_push_def)

lemma sink_turns_pushes [simp]: "side_pushes (sink_turns env n sd) = side_pushes sd"
proof (induction n arbitrary: sd)
  case (Suc n)
  have "side_pushes (sink_iteration env sd) = side_pushes sd"
    by (simp add: sink_iteration_def split: option.split prod.split)
  with Suc show ?case by simp
qed simp

lemma paced_push_pushes [simp]: "side_pushes (paced_push env p sd) = side_pushes sd + 1"
  by (simp add: paced_push_def push_side_def Let_def split: prod.split)

lemma scheduled_paced:
  "length ds = length es \<Longrightarrow> side_pushes sd = length pre \<Longrightarrow>
    fold (\<lambda>e sd. push_side (env\<lparr>env_schedule := turns_of (pre @ ds)\<rparr>) sd e) es sd = fold (paced_push env) (zip ds es) sd"
proof (induction ds es arbitrary: pre sd rule: list_induct2)
  case (Cons d ds e es)
  have "fold (\<lambda>e sd. push_side (env\<lparr>env_schedule := turns_of ((pre @ [d]) @ ds)\<rparr>) sd e) es (paced_push env (d, e) sd) =
      fold (paced_push env) (zip ds es) (paced_push env (d, e) sd)"
    by (rule Cons.IH) (simp add: Cons.prems)
  then show ?case by (simp add: push_side_paced turns_of_def Cons.prems nth_append)
qed simp

text \<open>A turn takes the next event from the queue and delivers it.\<close>

lemma turns_deliver:
  assumes "ring_inv (side_queue sd)" "delivered env k sd out" "n \<le> ring_size (side_queue sd)"
  shows "ring_inv (side_queue (sink_turns env n sd)) \<and> ring_usable (side_queue (sink_turns env n sd)) = ring_usable (side_queue sd) \<and>
    side_dropped (sink_turns env n sd) = side_dropped sd \<and>
    ring_contents (side_queue (sink_turns env n sd)) = drop n (ring_contents (side_queue sd)) \<and>
    delivered env k (sink_turns env n sd) (out @ take n (ring_contents (side_queue sd)))"
  using assms
proof (induction n arbitrary: sd out)
  case (Suc n)
  obtain e es where c: "ring_contents (side_queue sd) = e # es"
    using Suc.prems(3) by (cases "ring_contents (side_queue sd)") (simp_all flip: length_ring_contents)
  let ?s = "sink_iteration env sd"
  have s: "ring_inv (side_queue ?s)" "ring_usable (side_queue ?s) = ring_usable (side_queue sd)" "side_dropped ?s = side_dropped sd"
      "ring_contents (side_queue ?s) = es" "delivered env k ?s (out @ [e])"
    using sink_iteration_cases [OF Suc.prems(1), of env] c Suc.prems(2) by auto
  have "n \<le> ring_size (side_queue ?s)" using Suc.prems(3) c s(4) by (simp flip: length_ring_contents)
  from Suc.IH [OF s(1,5) this] show ?case by (simp add: s c)
qed simp

section \<open>The invariant of the two threads\<close>

text \<open>The events the sink thread has consumed, and what the sink made of them.\<close>

definition consumed :: "'k AsyncRun \<Rightarrow> TradeEvent list" where
  "consumed s = (case a_thread s of SConsume e \<Rightarrow> butlast (taken (a_ring s)) | _ \<Rightarrow> taken (a_ring s))"

definition sink_inv :: "'k ReplayEnv \<Rightarrow> 'k \<Rightarrow> 'k AsyncRun \<Rightarrow> bool" where
  "sink_inv env k s \<longleftrightarrow>
     feed (env_consume env) k (consumed s) = (nat (a_persisted s), a_sink s) \<and> 0 \<le> a_persisted s \<and>
     a_failed s = (a_persisted s < int (length (consumed s))) \<and>
     (\<forall>e. a_thread s = SConsume e \<longrightarrow> taken (a_ring s) = consumed s @ [e]) \<and>
     (a_thread s \<noteq> SPop \<longrightarrow> consumer (a_ring s) = CIdle) \<and>
     (a_thread s = SEmpty \<longrightarrow> a_main s \<noteq> Emitting \<and> consumer_seen (a_ring s) = length (published (a_ring s))) \<and>
     (a_thread s = SGone \<longrightarrow> a_main s \<noteq> Emitting \<and> taken (a_ring s) = published (a_ring s)) \<and>
     (a_main s = Joined \<longrightarrow> a_thread s = SGone)"

text \<open>
  The completed pushes, run with suitable turns of the sink thread before each, leave the
  queue as the replay thread last knew it: \<open>q\<close> events taken out, never more than the sink
  thread has really taken.
\<close>

definition paced_channel :: "'k ReplayEnv \<Rightarrow> 'k SideChannel \<Rightarrow> 'k \<Rightarrow> TradeEvent list \<Rightarrow> 'k AsyncRun \<Rightarrow> bool" where
  "paced_channel env sd0 k events s \<longleftrightarrow>
     (\<exists>ds pushed q. events = pushed @ a_pending s \<and> length ds = length pushed \<and> q \<le> producer_seen (a_ring s) \<and>
        (let sd = fold (paced_push env) (zip ds pushed) sd0 in
           ring_inv (side_queue sd) \<and> ring_usable (side_queue sd) = 1024 \<and>
           ring_contents (side_queue sd) = drop q (published (a_ring s)) \<and>
           delivered env k sd (take q (published (a_ring s))) \<and> side_dropped sd = a_dropped s))"

definition main_inv :: "'k ReplayEnv \<Rightarrow> 'k SideChannel \<Rightarrow> 'k \<Rightarrow> TradeEvent list \<Rightarrow> 'k AsyncRun \<Rightarrow> bool" where
  "main_inv env sd0 k events s \<longleftrightarrow> paced_channel env sd0 k events s \<and>
     (case producer (a_ring s) of PIdle \<Rightarrow> True
      | PLoaded e h \<Rightarrow> a_main s = Emitting \<and> a_pending s \<noteq> [] \<and> hd (a_pending s) = e
      | PChecked e h \<Rightarrow> a_main s = Emitting \<and> a_pending s \<noteq> [] \<and> hd (a_pending s) = e
      | PWritten e h \<Rightarrow> a_main s = Emitting \<and> a_pending s \<noteq> [] \<and> hd (a_pending s) = e) \<and>
     (a_main s \<noteq> Emitting \<longrightarrow> a_pending s = [])"

definition async_inv :: "'k ReplayEnv \<Rightarrow> 'k SideChannel \<Rightarrow> 'k \<Rightarrow> TradeEvent list \<Rightarrow> 'k AsyncRun \<Rightarrow> bool" where
  "async_inv env sd0 k events s \<longleftrightarrow> spsc_inv 1024 (a_ring s) \<and> sink_inv env k s \<and> main_inv env sd0 k events s"

lemma async_inv_start: "async_inv env (side_init k lat) k events (async_start k events)"
proof -
  have "sink_inv env k (async_start k events)"
    by (simp add: sink_inv_def consumed_def async_start_def spsc_start_def)
  moreover have "main_inv env (side_init k lat) k events (async_start k events)"
    unfolding main_inv_def paced_channel_def
    by (intro conjI exI [of _ "[]"] exI [of _ 0])
      (simp_all add: async_start_def spsc_start_def side_init_def delivered_def)
  ultimately show ?thesis using spsc_inv_start by (simp add: async_inv_def async_start_def)
qed

text \<open>The parts of the ring each thread leaves alone.\<close>

lemma producer_frame:
  assumes "spsc_step r r'" "producer r' \<noteq> producer r"
  shows "consumer r' = consumer r \<and> consumer_seen r' = consumer_seen r \<and> taken r' = taken r \<and> tail_order r' = tail_order r"
  using assms by cases simp_all

lemma consumer_frame:
  assumes "spsc_step r r'" "consumer r' \<noteq> consumer r"
  shows "producer r' = producer r \<and> producer_seen r' = producer_seen r \<and> published r' = published r \<and> head_order r' = head_order r"
  using assms by cases simp_all

text \<open>A further push, with the turns up to what the replay thread knows.\<close>

lemma extend_paced:
  fixes e :: TradeEvent
  assumes "ring_inv (side_queue sd)" "ring_usable (side_queue sd) = 1024"
    and "ring_contents (side_queue sd) = drop q p" "delivered env k sd (take q p)" "q \<le> i" "i \<le> length p"
    and "b \<longleftrightarrow> length p - i < 1024"
  defines "sd' \<equiv> paced_push env (i - q, e) sd" and "p' \<equiv> if b then p @ [e] else p"
  shows "ring_inv (side_queue sd') \<and> ring_usable (side_queue sd') = 1024 \<and>
    ring_contents (side_queue sd') = drop i p' \<and> delivered env k sd' (take i p') \<and>
    side_dropped sd' = side_dropped sd + (if b then 0 else 1)"
proof -
  let ?t = "sink_turns env (i - q) sd"
  have size: "ring_size (side_queue sd) = length p - q" using assms(3) by (simp flip: length_ring_contents)
  then have "i - q \<le> ring_size (side_queue sd)" using assms(5,6) by simp
  note t = turns_deliver [OF assms(1,4) this]
  have "take q p @ take (i - q) (drop q p) = take i p"
    using assms(5) take_add [of q "i - q" p] by simp
  then have d: "delivered env k ?t (take i p)" and c: "ring_contents (side_queue ?t) = drop i p"
    using t assms(3,5) by simp_all
  obtain b' q' where p: "try_push (side_queue ?t) e = (b', q')" by fastforce
  have "ring_size (side_queue ?t) = length p - i" using c by (simp flip: length_ring_contents)
  then have b: "b' = b" using push_spec [OF _ p] t assms(2,7) by simp
  show ?thesis
    using push_spec [OF _ p] t d c b assms(2,6)
    by (auto simp: sd'_def p'_def paced_push_def push_side_def p)
qed

lemma spsc_inv_seen:
  assumes "spsc_inv c r" "consumer r = CIdle" "consumer_seen r \<le> i" "i < length (head_order r)"
  shows "spsc_inv c (r\<lparr>consumer_seen := i\<rparr>)"
proof (rule consumer_step [OF assms(1)])
  show "consumer_seen (r\<lparr>consumer_seen := i\<rparr>) \<le> length (published r)" using assms(4) spsc_invD(3) [OF assms(1)] by simp
  show "consumer_ok (r\<lparr>consumer_seen := i\<rparr>)" using assms(2) by (simp add: consumer_ok_def)
qed (use assms(3) in simp_all)

lemma head_position: "spsc_inv c r \<Longrightarrow> length (head_order r) - 1 = length (published r)"
  by (simp add: spsc_invD(3))

lemma spsc_inv_replay: "spsc_inv 1024 (a_ring s) \<Longrightarrow> replay_step s s' \<Longrightarrow> spsc_inv 1024 (a_ring s')"
  by (erule replay_step.cases) (simp_all add: spsc_inv_step)

lemma spsc_inv_sink:
  assumes ring: "spsc_inv 1024 (a_ring s)" and inv: "sink_inv env k s" and step: "sink_step env s s'"
  shows "spsc_inv 1024 (a_ring s')"
proof -
  have idle: "consumer (a_ring s) = CIdle" if "a_thread s \<noteq> SPop" using inv that by (simp add: sink_inv_def)
  note r = spsc_invD [OF ring]
  from step show ?thesis
  proof cases
    case sees_done
    then show ?thesis using spsc_inv_seen [OF ring] idle r(3,8) by simp
  qed (use ring idle spsc_inv_seen [OF ring] spsc_inv_step [OF ring] in \<open>auto split: if_splits\<close>)
qed

text \<open>The sink thread's side.\<close>

lemma sink_inv_frame:
  assumes "sink_inv env k s" "a_thread s' = a_thread s" "a_sink s' = a_sink s" "a_persisted s' = a_persisted s" "a_failed s' = a_failed s"
    and "taken (a_ring s') = taken (a_ring s)" "a_thread s \<noteq> SPop \<longrightarrow> consumer (a_ring s') = consumer (a_ring s)"
    and "a_main s \<noteq> Emitting \<longrightarrow> a_main s' \<noteq> Emitting \<and> consumer_seen (a_ring s') = consumer_seen (a_ring s) \<or> a_thread s = SPop"
    and "a_main s \<noteq> Emitting \<longrightarrow> published (a_ring s') = published (a_ring s)"
    and "a_main s' = Joined \<longrightarrow> a_main s = Joined \<or> a_thread s = SGone"
  shows "sink_inv env k s'"
proof -
  have "consumed s' = consumed s" using assms(2,6) by (simp add: consumed_def split: SinkPc.splits)
  then show ?thesis using assms unfolding sink_inv_def by auto
qed

lemma replay_idle: "main_inv env sd0 k events s \<Longrightarrow> a_main s \<noteq> Emitting \<Longrightarrow> producer (a_ring s) = PIdle"
  by (auto simp: main_inv_def split: producer_pc.splits)

lemma sink_inv_replay:
  assumes inv: "sink_inv env k s" and main: "main_inv env sd0 k events s" and step: "replay_step s s'"
  shows "sink_inv env k s'"
  using step
proof cases
  case (push_started e es r head)
  then show ?thesis using producer_frame [OF push_started(5)] by (intro sink_inv_frame [OF inv]) simp_all
next
  case (push_advance r)
  then show ?thesis using producer_frame [OF push_advance(3,4)] replay_idle [OF main] by (intro sink_inv_frame [OF inv]) auto
next
  case (push_dropped e head r)
  then show ?thesis using producer_frame [OF push_dropped(3)] replay_idle [OF main] by (intro sink_inv_frame [OF inv]) auto
next
  case (push_accepted e head r)
  then show ?thesis using producer_frame [OF push_accepted(3)] replay_idle [OF main] by (intro sink_inv_frame [OF inv]) auto
qed (rule sink_inv_frame [OF inv], simp_all)+

text \<open>A thread that has seen \<^verbatim>\<open>sink_done\<close> and then an empty queue has taken everything.\<close>

lemma empty_means_drained:
  assumes ring: "spsc_inv capacity r" and seen: "consumer_seen r = length (published r)" "consumer_seen r \<le> i" "i < length (head_order r)"
    and eq: "head_order r ! i = last (tail_order r)"
  shows "taken r = published r"
proof -
  note r = spsc_invD [OF ring]
  have "i = length (published r)" using seen r(3) by simp
  then have "length (published r) mod sp_capacity r = length (taken r) mod sp_capacity r" using eq r(3,4) by simp
  moreover have "length (taken r) \<le> length (published r)" "length (published r) < length (taken r) + sp_capacity r"
    using r(6-9) by simp_all
  ultimately have "length (taken r) = length (published r)"
    using cyclic_distinct [of "length (taken r)" "length (published r)" "sp_capacity r"] by fastforce
  then show ?thesis using r(5) by simp
qed

lemma sink_inv_consume:
  assumes inv: "sink_inv env k s" and e: "a_thread s = SConsume e" "env_consume env (a_sink s) e = (b, k')"
  shows "sink_inv env k (if b then s\<lparr>a_thread := STest, a_sink := k', a_persisted := a_persisted s + 1\<rparr>
      else s\<lparr>a_thread := STest, a_sink := k', a_failed := True\<rparr>)" (is "sink_inv env k ?s")
proof -
  have t: "taken (a_ring s) = consumed s @ [e]" and f: "feed (env_consume env) k (consumed s) = (nat (a_persisted s), a_sink s)"
    using inv e by (auto simp: sink_inv_def)
  have c: "consumed ?s = consumed s @ [e]" using t by (simp add: consumed_def)
  have "nat (a_persisted s) \<le> length (consumed s)" using feed_le [of "env_consume env" k "consumed s"] f by simp
  then show ?thesis using inv e c by (auto simp: sink_inv_def feed_snoc nat_add_distrib)
qed

lemma sink_inv_sink:
  assumes ring: "spsc_inv 1024 (a_ring s)" and inv: "sink_inv env k s" and step: "sink_step env s s'"
  shows "sink_inv env k s'"
  using step
proof cases
  case sees_done
  then show ?thesis using inv head_position [OF ring] by (simp add: sink_inv_def consumed_def)
next
  case (sees_empty i)
  then have "taken (a_ring s) = published (a_ring s)" "a_main s \<noteq> Emitting"
    using inv empty_means_drained [OF ring _ sees_empty(3-5)] by (simp_all add: sink_inv_def)
  then show ?thesis using inv sees_empty by (simp add: sink_inv_def consumed_def)
next
  case (pop_advance r)
  have "taken r = taken (a_ring s)" using pop_advance(3-5) by cases simp_all
  then show ?thesis using pop_advance consumer_frame [OF pop_advance(3,4)] by (intro sink_inv_frame [OF inv]) simp_all
next
  case (pop_nothing tail r)
  have "taken r = taken (a_ring s)" using pop_nothing(4,3,5) by cases simp_all
  then show ?thesis using inv pop_nothing by (simp add: sink_inv_def consumed_def)
next
  case (popped tail e r)
  have "taken r = taken (a_ring s) @ [e]" using popped(4,3,5) by cases simp_all
  then show ?thesis using inv popped by (simp add: sink_inv_def consumed_def)
next
  case (consume e b k')
  then show ?thesis using sink_inv_consume [OF inv] by simp
qed (use inv in \<open>simp_all add: sink_inv_def consumed_def\<close>)

text \<open>The replay thread's side.\<close>

lemma paced_frame:
  assumes "paced_channel env sd0 k events s" "a_pending s' = a_pending s" "a_dropped s' = a_dropped s"
    and "producer_seen (a_ring s) \<le> producer_seen (a_ring s')" "published (a_ring s') = published (a_ring s)"
  shows "paced_channel env sd0 k events s'"
proof -
  from assms(1) obtain ds pushed q where "events = pushed @ a_pending s" "length ds = length pushed" "q \<le> producer_seen (a_ring s)"
      "let sd = fold (paced_push env) (zip ds pushed) sd0 in
           ring_inv (side_queue sd) \<and> ring_usable (side_queue sd) = 1024 \<and>
           ring_contents (side_queue sd) = drop q (published (a_ring s)) \<and>
           delivered env k sd (take q (published (a_ring s))) \<and> side_dropped sd = a_dropped s"
    unfolding paced_channel_def by blast
  then show ?thesis
    using assms(4) unfolding paced_channel_def assms(2,3,5)
    by (intro exI [of _ ds] exI [of _ pushed] exI [of _ q] conjI) simp_all
qed

lemma main_inv_frame:
  assumes "main_inv env sd0 k events s" "a_pending s' = a_pending s" "a_main s' = a_main s" "a_dropped s' = a_dropped s"
    and "producer (a_ring s') = producer (a_ring s)" "producer_seen (a_ring s') = producer_seen (a_ring s)"
      "published (a_ring s') = published (a_ring s)"
  shows "main_inv env sd0 k events s'"
  using assms(1) paced_frame [of env sd0 k events s s'] unfolding main_inv_def assms(2-7) by simp

text \<open>A completed push.\<close>

lemma main_inv_pushed:
  assumes inv: "main_inv env sd0 k events s" and pc: "a_pending s \<noteq> []" "hd (a_pending s) = e" "a_main s = Emitting"
    and s': "a_pending s' = tl (a_pending s)" "producer (a_ring s') = PIdle" "a_main s' = Emitting"
      "a_dropped s' = a_dropped s + (if b then 0 else 1)"
      "published (a_ring s') = (if b then published (a_ring s) @ [e] else published (a_ring s))"
    and seen: "producer_seen (a_ring s) \<le> producer_seen (a_ring s')" "producer_seen (a_ring s') \<le> length (published (a_ring s))"
      "b \<longleftrightarrow> length (published (a_ring s)) - producer_seen (a_ring s') < 1024"
  shows "main_inv env sd0 k events s'"
proof -
  let ?p = "published (a_ring s)" and ?i = "producer_seen (a_ring s')"
  from inv obtain ds pushed q where i: "events = pushed @ a_pending s" "length ds = length pushed" "q \<le> producer_seen (a_ring s)"
      "ring_inv (side_queue (fold (paced_push env) (zip ds pushed) sd0))"
      "ring_usable (side_queue (fold (paced_push env) (zip ds pushed) sd0)) = 1024"
      "ring_contents (side_queue (fold (paced_push env) (zip ds pushed) sd0)) = drop q ?p"
      "delivered env k (fold (paced_push env) (zip ds pushed) sd0) (take q ?p)"
      "side_dropped (fold (paced_push env) (zip ds pushed) sd0) = a_dropped s"
    unfolding main_inv_def paced_channel_def Let_def by blast
  have q: "q \<le> ?i" using i(3) seen(1) by simp
  have f: "fold (paced_push env) (zip (ds @ [?i - q]) (pushed @ [e])) sd0 =
      paced_push env (?i - q, e) (fold (paced_push env) (zip ds pushed) sd0)"
    using i(2) by simp
  have "events = (pushed @ [e]) @ a_pending s'" using i(1) pc(1,2) s'(1) by (cases "a_pending s") simp_all
  then show ?thesis
    using extend_paced [OF i(4-7) q seen(2,3), of e] i(2,8) s'
    unfolding main_inv_def paced_channel_def Let_def
    by (intro conjI exI [of _ "ds @ [?i - q]"] exI [of _ "pushed @ [e]"] exI [of _ ?i]) (simp_all only: f, simp_all)
qed

text \<open>A push that is refused found the ring full, one that is published found room.\<close>

lemma refused_push:
  assumes ring: "spsc_inv 1024 r" and step: "spsc_step r r'" "producer r = PLoaded e head" "producer r' = PIdle"
  shows "published r' = published r \<and> producer_seen r \<le> producer_seen r' \<and> producer_seen r' \<le> length (published r) \<and>
    \<not> length (published r) - producer_seen r' < 1024"
proof -
  let ?n = "sp_capacity r" and ?p = "length (published r)"
  note i = spsc_invD [OF ring]
  obtain j where j: "producer_seen r' = j" "published r' = published r" "producer_seen r \<le> j" "j < length (tail_order r)"
      "(head + 1) mod ?n = tail_order r ! j"
    using step by cases simp_all
  have "head = ?p mod ?n" using i(11) step(2) by (simp add: pc_ok_defs)
  moreover have c: "j \<le> length (taken r)" using j(4) i(4) by simp
  ultimately have "(?p + 1) mod ?n = j mod ?n" using j(5) i(4) by (simp add: mod_simps)
  moreover have "j \<le> ?p" using c i(7,8) by simp
  ultimately show ?thesis using cyclic_distinct [of j "?p + 1" ?n] i(1,9) j(1-3) by fastforce
qed

lemma published_push:
  assumes ring: "spsc_inv 1024 r" and step: "spsc_step r r'" "producer r = PWritten e head" "producer r' = PIdle"
  shows "published r' = published r @ [e] \<and> producer_seen r' = producer_seen r \<and> producer_seen r \<le> length (published r) \<and>
    length (published r) - producer_seen r < 1024"
proof -
  note i = spsc_invD [OF ring]
  have "length (published r) + 1 < producer_seen r + sp_capacity r" using i(11) step(2) by (simp add: pc_ok_defs)
  moreover have "published r' = published r @ [e]" "producer_seen r' = producer_seen r"
    using step by (cases, simp_all)+
  ultimately show ?thesis using i(1,6-8) by simp
qed

lemma main_inv_replay:
  assumes ring: "spsc_inv 1024 (a_ring s)" and inv: "main_inv env sd0 k events s" and step: "replay_step s s'"
  shows "main_inv env sd0 k events s'"
proof -
  have p: "paced_channel env sd0 k events s" using inv by (simp add: main_inv_def)
  from step show ?thesis
  proof cases
    case (push_started e es r head)
    have c: "producer_seen r = producer_seen (a_ring s) \<and> published r = published (a_ring s)"
      using push_started(5,4,6) by cases simp_all
    have "paced_channel env sd0 k events s'" by (rule paced_frame [OF p]) (simp_all add: push_started(1) c)
    then show ?thesis using inv push_started(2-4,6) by (simp add: main_inv_def push_started(1))
  next
    case (push_advance r)
    have c: "published r = published (a_ring s) \<and> producer_seen (a_ring s) \<le> producer_seen r \<and>
        (case producer (a_ring s) of PIdle \<Rightarrow> False
         | PLoaded e h \<Rightarrow> producer r = PChecked e h | PChecked e h \<Rightarrow> producer r = PWritten e h | PWritten e h \<Rightarrow> False)"
      using push_advance(3,2,4,5) by cases simp_all
    have "paced_channel env sd0 k events s'" by (rule paced_frame [OF p]) (simp_all add: push_advance(1) c)
    then show ?thesis using c inv by (simp add: main_inv_def push_advance(1) split: producer_pc.splits)
  next
    case (push_dropped e head r)
    have pc: "a_pending s \<noteq> []" "hd (a_pending s) = e" "a_main s = Emitting"
      using inv push_dropped(2) by (simp_all add: main_inv_def)
    show ?thesis
      by (rule main_inv_pushed [where b = False, OF inv pc])
        (use push_dropped refused_push [OF ring push_dropped(3,2,4)] pc in simp_all)
  next
    case (push_accepted e head r)
    have pc: "a_pending s \<noteq> []" "hd (a_pending s) = e" "a_main s = Emitting"
      using inv push_accepted(2) by (simp_all add: main_inv_def)
    show ?thesis
      by (rule main_inv_pushed [where b = True, OF inv pc])
        (use push_accepted published_push [OF ring push_accepted(3,2,4)] pc in simp_all)
  next
    case store_done
    have "paced_channel env sd0 k events s'" by (rule paced_frame [OF p]) (simp_all add: store_done)
    then show ?thesis using store_done by (simp add: main_inv_def)
  next
    case join
    have "paced_channel env sd0 k events s'" by (rule paced_frame [OF p]) (simp_all add: join)
    moreover have "a_pending s = []" "producer (a_ring s) = PIdle"
      using inv join replay_idle [OF inv] by (simp_all add: main_inv_def)
    ultimately show ?thesis by (simp add: main_inv_def join)
  qed
qed

lemma main_inv_sink:
  assumes inv: "main_inv env sd0 k events s" and step: "sink_step env s s'"
  shows "main_inv env sd0 k events s'"
  using step
proof cases
  case (pop_advance r)
  then show ?thesis using consumer_frame [OF pop_advance(3,4)] by (intro main_inv_frame [OF inv]) simp_all
next
  case (pop_nothing tail r)
  then show ?thesis using consumer_frame [OF pop_nothing(4)] by (intro main_inv_frame [OF inv]) simp_all
next
  case (popped tail e r)
  then show ?thesis using consumer_frame [OF popped(4)] by (intro main_inv_frame [OF inv]) simp_all
qed (rule main_inv_frame [OF inv], auto split: if_splits)+

lemma async_inv_step:
  assumes "async_inv env sd0 k events s" "async_step env s s'"
  shows "async_inv env sd0 k events s'"
proof -
  from assms(1) have i: "spsc_inv 1024 (a_ring s)" "sink_inv env k s" "main_inv env sd0 k events s"
    by (simp_all add: async_inv_def)
  from assms(2) consider "replay_step s s'" | "sink_step env s s'" by (auto simp: async_step_def)
  then show ?thesis
  proof cases
    case 1
    then show ?thesis
      using spsc_inv_replay [OF i(1)] sink_inv_replay [OF i(2,3)] main_inv_replay [OF i(1,3)] by (simp add: async_inv_def)
  next
    case 2
    then show ?thesis
      using spsc_inv_sink [OF i(1,2)] sink_inv_sink [OF i(1,2)] main_inv_sink [OF i(3)] by (simp add: async_inv_def)
  qed
qed

lemma async_reach_inv: "async_reach env k events s \<Longrightarrow> async_inv env (side_init k lat) k events s"
  by (induction rule: async_reach.induct) (auto intro: async_inv_start async_inv_step)

section \<open>Joined runs\<close>

text \<open>The queue of a scheduled channel, drained.\<close>

lemma sink_drain_delivers:
  assumes "ring_inv (side_queue sd)" "delivered env k sd out"
  obtains sd' where "sink_drain env sd = Some sd'" "delivered env k sd' (out @ ring_contents (side_queue sd))"
    "side_dropped sd' = side_dropped sd"
  using assms
proof (induction "ring_size (side_queue sd)" arbitrary: sd out thesis)
  case 0
  then have c: "ring_contents (side_queue sd) = []" by (metis length_0_conv length_ring_contents)
  then have "sink_drain env sd = Some sd" using ring_empty_iff [OF 0(3)] by (subst sink_drain.simps) simp
  then show ?case using 0(2) [of sd] 0(4) c by simp
next
  case (Suc n)
  obtain e es where c: "ring_contents (side_queue sd) = e # es"
    using Suc(2) by (cases "ring_contents (side_queue sd)") (simp_all flip: length_ring_contents)
  let ?s = "sink_iteration env sd"
  have s: "ring_inv (side_queue ?s)" "ring_contents (side_queue ?s) = es" "delivered env k ?s (out @ [e])" "side_dropped ?s = side_dropped sd"
    using sink_iteration_cases [OF Suc(4), of env] c Suc(5) by auto
  have "n = ring_size (side_queue ?s)" using Suc(2) c s(2) by (simp flip: length_ring_contents)
  then obtain sd' where "sink_drain env ?s = Some sd'" "delivered env k sd' ((out @ [e]) @ es)" "side_dropped sd' = side_dropped sd"
    using Suc(1) [OF _ _ s(1,3)] s(2,4) by metis
  moreover have "sink_drain env sd = sink_drain env ?s" using ring_empty_iff [OF Suc(4)] c by (subst sink_drain.simps) simp
  ultimately show ?case using Suc(3) [of sd'] c by simp
qed

lemma delivered_env [simp]: "delivered (env\<lparr>env_schedule := f\<rparr>) k sd out = delivered env k sd out"
  by (simp add: delivered_def)

lemma joined_schedule:
  assumes "async_reach env k events s" "a_main s = Joined"
  obtains ds sd where "sink_drain (env\<lparr>env_schedule := turns_of ds\<rparr>)
      (fold (\<lambda>e sd. push_side (env\<lparr>env_schedule := turns_of ds\<rparr>) sd e) events (side_init k lat)) = Some sd"
    "side_sink sd = a_sink s" "side_persisted sd = a_persisted s" "side_dropped sd = a_dropped s" "side_sink_failed sd = a_failed s"
proof -
  let ?p = "published (a_ring s)"
  have inv: "sink_inv env k s" "main_inv env (side_init k lat) k events s"
    using async_reach_inv [OF assms(1)] by (simp_all add: async_inv_def)
  have gone: "a_thread s = SGone" "a_pending s = []" using inv assms(2) by (simp_all add: sink_inv_def main_inv_def)
  have "taken (a_ring s) = ?p" using inv(1) gone by (simp add: sink_inv_def)
  moreover have "consumed s = taken (a_ring s)" using gone by (simp add: consumed_def)
  ultimately have sink: "feed (env_consume env) k ?p = (nat (a_persisted s), a_sink s)" "0 \<le> a_persisted s"
      "a_failed s = (a_persisted s < int (length ?p))"
    using inv(1) by (simp_all add: sink_inv_def consumed_def)
  obtain ds q where i: "length ds = length events"
      "ring_inv (side_queue (fold (paced_push env) (zip ds events) (side_init k lat)))"
      "ring_contents (side_queue (fold (paced_push env) (zip ds events) (side_init k lat))) = drop q ?p"
      "delivered env k (fold (paced_push env) (zip ds events) (side_init k lat)) (take q ?p)"
      "side_dropped (fold (paced_push env) (zip ds events) (side_init k lat)) = a_dropped s"
    using inv(2) gone(2) unfolding main_inv_def paced_channel_def Let_def by auto
  let ?env = "env\<lparr>env_schedule := turns_of ds\<rparr>" and ?sd = "fold (paced_push env) (zip ds events) (side_init k lat)"
  have f: "fold (\<lambda>e sd. push_side ?env sd e) events (side_init k lat) = ?sd"
    using scheduled_paced [OF i(1), of "side_init k lat" "[]" env] by (simp add: side_init_def)
  obtain sd where sd: "sink_drain ?env ?sd = Some sd" "delivered ?env k sd (take q ?p @ drop q ?p)" "side_dropped sd = a_dropped s"
    using sink_drain_delivers [OF i(2), of ?env k "take q ?p"] i(3,4,5) by (metis delivered_env)
  then have "delivered env k sd ?p" by simp
  then have "side_sink sd = a_sink s \<and> side_persisted sd = a_persisted s \<and> side_sink_failed sd = a_failed s"
    using sink by (auto simp: delivered_def)
  then show ?thesis using that [of ds sd] sd f by simp
qed

section \<open>Progress\<close>

text \<open>
  From every reachable state the join can be reached: first the replay thread finishes its
  pushes, then the sink thread takes what is left. Each of these steps lowers the rank.
\<close>

definition main_rank :: "'k AsyncRun \<Rightarrow> nat" where
  "main_rank s = 5 * length (a_pending s) +
     (case producer (a_ring s) of PIdle \<Rightarrow> 4 | PLoaded e h \<Rightarrow> 3 | PChecked e h \<Rightarrow> 2 | PWritten e h \<Rightarrow> 1) +
     (case a_main s of Emitting \<Rightarrow> 2 | SinkDone \<Rightarrow> 1 | Joined \<Rightarrow> 0)"

definition sink_rank :: "'k AsyncRun \<Rightarrow> nat" where
  "sink_rank s = (let d = length (published (a_ring s)) - length (taken (a_ring s)) in
     if d = 0
     then (case a_thread s of STest \<Rightarrow> 2 | SEmpty \<Rightarrow> 1 | SConsume e \<Rightarrow> 3 | SGone \<Rightarrow> 0
       | SPop \<Rightarrow> (case consumer (a_ring s) of CIdle \<Rightarrow> 5 | _ \<Rightarrow> 4))
     else 10 * d + (case a_thread s of STest \<Rightarrow> 6 | SEmpty \<Rightarrow> 5 | SConsume e \<Rightarrow> 7 | SGone \<Rightarrow> 0
       | SPop \<Rightarrow> (case consumer (a_ring s) of CIdle \<Rightarrow> 4 | CLoaded t \<Rightarrow> 3 | CChecked t \<Rightarrow> 2 | CRead t e \<Rightarrow> 1)))"

definition progress :: "'k ReplayEnv \<Rightarrow> 'k AsyncRun \<Rightarrow> bool" where
  "progress env s \<longleftrightarrow> (\<exists>s'. async_step env s s' \<and>
     (main_rank s' < main_rank s \<or> main_rank s' = main_rank s \<and> sink_rank s' < sink_rank s))"

lemma replay_progressI: "replay_step s s' \<Longrightarrow> main_rank s' < main_rank s \<Longrightarrow> progress env s"
  unfolding progress_def async_step_def by blast

lemma sink_progressI:
  "sink_step env s s' \<Longrightarrow> main_rank s' = main_rank s \<Longrightarrow> sink_rank s' < sink_rank s \<Longrightarrow> progress env s"
  unfolding progress_def async_step_def by blast

lemma main_progress:
  assumes ring: "spsc_inv 1024 (a_ring s)" and inv: "main_inv env sd0 k events s" and main: "a_main s = Emitting"
  shows "progress env s"
proof (cases "producer (a_ring s)")
  case PIdle
  show ?thesis
  proof (cases "a_pending s")
    case Nil
    show ?thesis by (rule replay_progressI [OF store_done [OF main Nil PIdle]]) (simp add: main_rank_def main)
  next
    case (Cons e es)
    show ?thesis
      by (rule replay_progressI [OF push_started [OF main Cons PIdle push_begin [OF PIdle, of e]]]) (simp_all add: main_rank_def PIdle)
  qed
next
  case (PLoaded e h)
  have p: "0 < length (a_pending s)" using inv PLoaded by (simp add: main_inv_def)
  have i: "producer_seen (a_ring s) < length (tail_order (a_ring s))" using spsc_invD(4,6) [OF ring] by simp
  show ?thesis
  proof (cases "(h + 1) mod sp_capacity (a_ring s) = tail_order (a_ring s) ! producer_seen (a_ring s)")
    case True
    show ?thesis
      by (rule replay_progressI [OF push_dropped [OF PLoaded push_full [OF PLoaded order_refl i True]]])
        (use p in \<open>simp_all add: main_rank_def PLoaded del: length_greater_0_conv\<close>)
  next
    case False
    show ?thesis
      by (rule replay_progressI [OF push_advance [OF _ push_room [OF PLoaded order_refl i False]]]) (simp_all add: main_rank_def PLoaded)
  qed
next
  case (PChecked e h)
  show ?thesis
    by (rule replay_progressI [OF push_advance [OF _ push_write [OF PChecked]]]) (simp_all add: main_rank_def PChecked)
next
  case (PWritten e h)
  have p: "0 < length (a_pending s)" using inv PWritten by (simp add: main_inv_def)
  show ?thesis
    by (rule replay_progressI [OF push_accepted [OF PWritten push_publish [OF PWritten]]])
      (use p in \<open>simp_all add: main_rank_def PWritten del: length_greater_0_conv\<close>)
qed

text \<open>The newest cursor values, which the steps below read.\<close>

lemma newest_cursors:
  assumes "spsc_inv c r"
  shows "consumer_seen r \<le> length (published r)" "length (published r) < length (head_order r)"
    "head_order r ! length (published r) = last (tail_order r) \<longleftrightarrow> length (published r) = length (taken r)"
    "consumer r = CLoaded t \<Longrightarrow> t = last (tail_order r)"
    "consumer r = CChecked t \<or> consumer r = CRead t e \<Longrightarrow> length (taken r) < length (published r)"
    "length (taken r) \<le> length (published r)"
proof -
  note r = spsc_invD [OF assms]
  show "length (taken r) \<le> length (published r)" "consumer_seen r \<le> length (published r)" "length (published r) < length (head_order r)"
    using r(3,7,8) by simp_all
  then show "head_order r ! length (published r) = last (tail_order r) \<longleftrightarrow> length (published r) = length (taken r)"
    using cyclic_distinct [of "length (taken r)" "length (published r)" "sp_capacity r"] r(3,4,6,9) by fastforce
  show "consumer r = CLoaded t \<Longrightarrow> t = last (tail_order r)" using r(4,12) by (simp add: pc_ok_defs)
  show "consumer r = CChecked t \<or> consumer r = CRead t e \<Longrightarrow> length (taken r) < length (published r)"
    using r(8,12) by (auto simp: pc_ok_defs)
qed

lemmas ranks = main_rank_def sink_rank_def Let_def

lemma pop_progress:
  assumes ring: "spsc_inv 1024 (a_ring s)" and pop: "a_thread s = SPop"
  shows "progress env s"
proof (cases "consumer (a_ring s)")
  case CIdle
  show ?thesis
    by (rule sink_progressI [OF pop_advance [OF pop pop_begin [OF CIdle]]]) (use CIdle pop in \<open>simp_all add: ranks\<close>)
next
  case (CLoaded t)
  note n = newest_cursors [OF ring]
  show ?thesis
  proof (cases "t = head_order (a_ring s) ! length (published (a_ring s))")
    case True
    from pop_empty [OF CLoaded n(1,2) True] show ?thesis
      by (rule sink_progressI [OF pop_nothing [OF pop CLoaded]]) (use True n(3,4) CLoaded pop in \<open>simp_all add: ranks\<close>)
  next
    case False
    from pop_ready [OF CLoaded n(1,2) False] show ?thesis
      by (rule sink_progressI [OF pop_advance [OF pop]]) (use False n(3,4,6) CLoaded pop in \<open>simp_all add: ranks\<close>)
  qed
next
  case (CChecked t)
  then show ?thesis using newest_cursors(5) [OF ring]
    by (intro sink_progressI [OF pop_advance [OF pop pop_read [OF CChecked]]]) (use CChecked pop in \<open>simp_all add: ranks\<close>)
next
  case (CRead t e)
  then show ?thesis using newest_cursors(5) [OF ring]
    by (intro sink_progressI [OF popped [OF pop CRead pop_release [OF CRead]]]) (use CRead pop in \<open>auto simp: ranks\<close>)
qed

lemma sink_progress:
  assumes ring: "spsc_inv 1024 (a_ring s)" and inv: "sink_inv env k s" and main: "a_main s = SinkDone"
  shows "progress env s"
proof (cases "a_thread s")
  case STest
  have idle: "consumer (a_ring s) = CIdle" using inv STest by (simp add: sink_inv_def)
  show ?thesis by (rule sink_progressI [OF sees_done [OF STest]]) (use main STest idle in \<open>simp_all add: ranks\<close>)
next
  case SEmpty
  have idle: "consumer (a_ring s) = CIdle" using inv SEmpty by (simp add: sink_inv_def)
  note n = newest_cursors [OF ring]
  show ?thesis
  proof (cases "length (published (a_ring s)) = length (taken (a_ring s))")
    case True
    show ?thesis
      by (rule sink_progressI [OF sees_empty [OF SEmpty n(1,2)]]) (use True n(3) SEmpty in \<open>simp_all add: ranks\<close>)
  next
    case False
    show ?thesis
      by (rule sink_progressI [OF sees_nonempty [OF SEmpty n(1,2)]]) (use False n(3,6) idle SEmpty in \<open>simp_all add: ranks\<close>)
  qed
next
  case (SConsume e)
  obtain b k' where c: "env_consume env (a_sink s) e = (b, k')" by fastforce
  show ?thesis by (rule sink_progressI [OF consume [OF SConsume c]]) (use SConsume in \<open>simp_all add: ranks\<close>)
next
  case SGone
  show ?thesis by (rule replay_progressI [OF join [OF main SGone]]) (simp add: main_rank_def main)
next
  case SPop
  then show ?thesis by (rule pop_progress [OF ring])
qed

lemma async_progress:
  assumes "async_inv env sd0 k events s" "a_main s \<noteq> Joined"
  shows "progress env s"
proof -
  from assms(1) have i: "spsc_inv 1024 (a_ring s)" "sink_inv env k s" "main_inv env sd0 k events s"
    by (simp_all add: async_inv_def)
  show ?thesis using assms(2) main_progress [OF i(1,3)] sink_progress [OF i(1,2)] by (cases "a_main s") simp_all
qed

lemma async_can_join:
  assumes "async_reach env k events s"
  shows "\<exists>s'. (async_step env)\<^sup>*\<^sup>* s s' \<and> async_reach env k events s' \<and> a_main s' = Joined"
  using assms
proof (induction s rule: wf_induct [OF wf_measures [of "[main_rank, sink_rank]"]])
  case (1 s)
  show ?case
  proof (cases "a_main s = Joined")
    case False
    have "progress env s" by (rule async_progress [OF async_reach_inv [OF 1(2)] False])
    then obtain s' where s': "async_step env s s'" "(s', s) \<in> measures [main_rank, sink_rank]"
      unfolding progress_def by auto
    obtain t where "(async_step env)\<^sup>*\<^sup>* s' t" "async_reach env k events t" "a_main t = Joined"
      using 1(1) s'(2) async_reach.step [OF 1(2) s'(1)] by blast
    then show ?thesis using s'(1) by (meson converse_rtranclp_into_rtranclp)
  qed (use 1 in blast)
qed

section \<open>The channel of a scheduled run\<close>

text \<open>
  The latency collectors and the clock readings are kept in the channel, but nothing else in
  it depends on them.
\<close>

definition timed :: "ReplayLatencies \<Rightarrow> nat \<Rightarrow> 'k SideChannel \<Rightarrow> 'k SideChannel" where
  "timed l n sd = sd\<lparr>side_latencies := l, side_clock_reads := n\<rparr>"

lemma timed_sel [simp]:
  "side_queue (timed l n sd) = side_queue sd" "side_sink (timed l n sd) = side_sink sd" "side_pushes (timed l n sd) = side_pushes sd"
  "side_dropped (timed l n sd) = side_dropped sd" "side_persisted (timed l n sd) = side_persisted sd"
  "side_sink_failed (timed l n sd) = side_sink_failed sd" "timed l n (timed l' n' sd) = timed l n sd"
  by (simp_all add: timed_def)

lemma sink_iteration_timed: "sink_iteration env (timed l n sd) = timed l n (sink_iteration env sd)"
  by (simp add: sink_iteration_def deliver_event_def timed_def split: option.split prod.split)

lemma sink_turns_timed: "sink_turns env m (timed l n sd) = timed l n (sink_turns env m sd)"
  by (induction m arbitrary: sd) (simp_all add: sink_iteration_timed)

lemma push_side_timed: "push_side env (timed l n sd) e = timed l n (push_side env sd e)"
  by (simp add: push_side_def Let_def sink_turns_timed split: prod.split) (simp add: timed_def)

lemma timed_writes [simp]:
  "timed l n (sd\<lparr>side_latencies := l'\<rparr>) = timed l n sd" "timed l n (sd\<lparr>side_clock_reads := n'\<rparr>) = timed l n sd"
  by (simp_all add: timed_def)

lemma sink_drain_timed: "sink_drain env sd = Some sd' \<Longrightarrow> sink_drain env (timed l n sd) = Some (timed l n sd')"
proof (rule sink_drain.raw_induct [of "\<lambda>env sd sd'. sink_drain env (timed l n sd) = Some (timed l n sd')"])
  fix rest and env' :: "'a ReplayEnv" and s s'
  assume "\<And>e x y. rest e x = Some y \<Longrightarrow> sink_drain e (timed l n x) = Some (timed l n y)"
    and "(if ring_empty (side_queue s) then Some s else rest env' (sink_iteration env' s)) = Some s'"
  then show "sink_drain env' (timed l n s) = Some (timed l n s')"
    by (subst sink_drain.simps) (auto simp: sink_iteration_timed split: if_splits)
qed

definition pushed_channel :: "'k ReplayEnv \<Rightarrow> 'k \<Rightarrow> ReplayLatencies \<Rightarrow> 'k RunState \<Rightarrow> bool" where
  "pushed_channel env k lat st \<longleftrightarrow>
     timed lat 0 (channel st) = fold (\<lambda>e sd. push_side env sd e) (core_journal (core st)) (side_init k lat)"

definition pushes :: "'k ReplayEnv \<Rightarrow> 'k \<Rightarrow> ReplayLatencies \<Rightarrow> Collector list \<Rightarrow> 'k RunState \<Rightarrow> 'k RunState \<Rightarrow> bool" where
  "pushes env k lat m st st' \<longleftrightarrow> (pushed_channel env k lat st \<longrightarrow> pushed_channel env k lat st')"

lemma timed_record [simp]: "timed l n (channel (record_since env c t st)) = timed l n (channel st)"
  by (simp add: record_since_def clock_now_def)

lemma timed_emit:
  assumes "sink_mode config = SinkAsync"
  shows "timed l n (channel (emit_event env config st e)) = push_side env (timed l n (channel st)) e"
  using assms by (simp add: emit_event_def clock_now_def count_def Let_def flip: push_side_timed)

interpretation pusher: loop_relation env "config\<lparr>sink_mode := SinkAsync\<rparr>" "pushes env k lat" for env config k lat
  by unfold_locales
    (auto simp: pushes_def pushed_channel_def quiet_def clock_now_def core_of timed_emit count_def)

lemma run_pushed:
  assumes "process_ticks env config symbol \<lparr>core = core_init, channel = side_init k lat\<rparr> ticks = Some (b, st)"
    and "sink_mode config = SinkAsync"
  shows "timed lat 0 (channel st) = fold (\<lambda>e sd. push_side env sd e) (core_journal (core st)) (side_init k lat)"
proof -
  have c: "config\<lparr>sink_mode := SinkAsync\<rparr> = config" using assms(2) by (cases config) simp
  have "process_ticks env (config\<lparr>sink_mode := SinkAsync\<rparr>) symbol \<lparr>core = core_init, channel = side_init k lat\<rparr> ticks = Some (b, st)"
    using assms(1) by (simp only: c)
  from postD [OF pusher.process_ticks_step [where k = k and lat = lat] this] obtain ms where
    "pushes env k lat (concat ms) \<lparr>core = core_init, channel = side_init k lat\<rparr> st" by auto
  then show ?thesis by (simp add: pushes_def pushed_channel_def core_init_def) (simp add: timed_def side_init_def)
qed

section \<open>Properties\<close>

text \<open>
  C10. Every interleaving is a schedule: when the two threads of an asynchronous run have joined,
  after any sequence of their steps, some schedule of sink turns makes \<open>run_replay\<close> leave the same
  sink and report the same persisted and dropped events and the same failure flag. What the
  theorems say about \<open>run_replay\<close> for all schedules therefore holds for the threads.
\<close>

theorem threads_realise_schedule:
  assumes "async_reach env sink (replay_journal (execution_style config) (passive_cancel_after_ns config) ticks) s"
    and "a_main s = Joined" and "sink_mode config = SinkAsync" and "run_replay env ticks config sink = Some (Inr r0, snk0)"
  shows "\<exists>schedule r. run_replay (env\<lparr>env_schedule := schedule\<rparr>) ticks config sink = Some (Inr r, a_sink s) \<and>
    persisted_events (res_counters r) = a_persisted s \<and> dropped_events (res_counters r) = a_dropped s \<and>
    res_sink_failed r = a_failed s"
proof -
  obtain lat where lat: "initialize_latencies (length ticks) = Inr lat"
    by (rule run_replay_resultE [OF assms(4)])
  obtain ds sd where d: "sink_drain (env\<lparr>env_schedule := turns_of ds\<rparr>)
      (fold (\<lambda>e sd. push_side (env\<lparr>env_schedule := turns_of ds\<rparr>) sd e)
        (replay_journal (execution_style config) (passive_cancel_after_ns config) ticks) (side_init sink lat)) = Some sd"
    "side_sink sd = a_sink s" "side_persisted sd = a_persisted s" "side_dropped sd = a_dropped s" "side_sink_failed sd = a_failed s"
    by (rule joined_schedule [OF assms(1,2), of lat])
  let ?env = "env\<lparr>env_schedule := turns_of ds\<rparr>"
  have "replay_outcome (execution_style config) (passive_cancel_after_ns config) ticks = Some (Inr (business r0))"
    using run_replay_refines [of env ticks config sink] assms(4) by simp
  then obtain r snk where run: "run_replay ?env ticks config sink = Some (Inr r, snk)" by (rule run_of_outcome)
  show ?thesis
  proof (rule run_replay_resultE [OF run])
    fix lat' st sd'
    assume st: "initialize_latencies (length ticks) = Inr lat'"
      "process_ticks ?env config (symbol_id (hd ticks)) \<lparr>core = core_init, channel = side_init sink lat'\<rparr> ticks = Some (True, st)"
      "k_run (execution_style config) (passive_cancel_after_ns config) core_init ticks = Some (core st)"
      "r = replay_result (st\<lparr>channel := sd'\<rparr>)" "snk = side_sink sd'" "join_sink ?env config (channel st) = Some sd'"
    have "core_journal (core st) = replay_journal (execution_style config) (passive_cancel_after_ns config) ticks"
      using st(3) by (simp add: replay_journal_def)
    moreover have "sink_drain ?env (timed lat 0 (channel st)) = Some (timed lat 0 sd')"
      using st(6) assms(3) by (intro sink_drain_timed) (simp add: join_sink_def)
    ultimately have "sd = timed lat 0 sd'" using run_pushed [OF st(2) assms(3)] d(1) st(1) lat by simp
    then have "snk = a_sink s" "persisted_events (res_counters r) = a_persisted s \<and> dropped_events (res_counters r) = a_dropped s"
        "res_sink_failed r = a_failed s"
      using d(2-5) st(4,5) by (simp_all add: replay_result_def)
    then show ?thesis using run by blast
  qed
qed

theorem threads_realise_schedule_witness:
  "\<exists>s schedule r. async_reach (recording_env 0) [] (replay_journal Aggressive 3000 example_ticks) s \<and> a_main s = Joined \<and>
     run_replay ((recording_env 0)\<lparr>env_schedule := schedule\<rparr>) example_ticks (replay_config SinkAsync Aggressive 3000) [] = Some (Inr r, a_sink s) \<and>
     persisted_events (res_counters r) = a_persisted s"
proof -
  let ?c = "replay_config SinkAsync Aggressive 3000"
  obtain s where s: "async_reach (recording_env 0) [] (replay_journal (execution_style ?c) (passive_cancel_after_ns ?c) example_ticks) s"
      "a_main s = Joined"
    using async_can_join [OF async_reach.start, of "recording_env 0" "[]"
      "replay_journal (execution_style ?c) (passive_cancel_after_ns ?c) example_ticks"] by blast
  obtain r snk where r: "run_replay (recording_env 0) example_ticks ?c [] = Some (Inr r, snk)" by (rule example_run)
  have "sink_mode ?c = SinkAsync" by (simp add: replay_config_def)
  from threads_realise_schedule [OF s this r] s show ?thesis by (auto simp: replay_config_def)
qed

text \<open>
  C30. The threads never get stuck: from every state that the two threads of an asynchronous
  run can reach, in whatever order they took their steps, the state after the join can be
  reached.
\<close>

theorem threads_can_join:
  assumes "async_reach env sink events s"
  shows "\<exists>s'. (async_step env)\<^sup>*\<^sup>* s s' \<and> a_main s' = Joined"
  using async_can_join [OF assms] by blast

theorem threads_can_join_witness:
  "\<exists>s'. (async_step (recording_env 0))\<^sup>*\<^sup>* (async_start [] [blank_event]) s' \<and> a_main s' = Joined"
  by (rule threads_can_join [OF async_reach.start])

end
