(* ===== verification/Csv_Reader.thy ===== *)
theory Csv_Reader
  imports Text_Format
begin

text \<open>
  The tick file reader of \<^verbatim>\<open>include/csv_reader.h\<close> and \<^verbatim>\<open>src/csv_reader.cpp\<close>: decimal fields as
  \<^verbatim>\<open>std::from_chars\<close> reads them, the split of a line, the checks of a row and the loop over
  the lines, with every exception as a value. A file is a parameter: the text its stream
  delivers, and whether the stream then fails instead of ending.
\<close>

section \<open>Errors\<close>

datatype CsvErrorCategory = IoError | SchemaError | ValueError | OrderingError | MultiSymbolError

definition csv_error_category_name :: "CsvErrorCategory \<Rightarrow> string" where
  "csv_error_category_name category = (case category of IoError \<Rightarrow> ''IoError'' | SchemaError \<Rightarrow> ''SchemaError''
     | ValueError \<Rightarrow> ''ValueError'' | OrderingError \<Rightarrow> ''OrderingError'' | MultiSymbolError \<Rightarrow> ''MultiSymbolError'')"

record CsvReadError =
  err_what :: string
  err_category :: CsvErrorCategory
  err_path :: string
  err_line :: nat

definition make_error_message :: "CsvErrorCategory \<Rightarrow> string \<Rightarrow> nat \<Rightarrow> string \<Rightarrow> string" where
  "make_error_message category path line detail =
     csv_error_category_name category @ '': '' @ path @ (if line \<noteq> 0 then '':'' @ show_nat line else []) @ '': '' @ detail"

text \<open>The constructor of \<^verbatim>\<open>CsvReadError\<close>.\<close>

definition csv_read_error :: "CsvErrorCategory \<Rightarrow> string \<Rightarrow> nat \<Rightarrow> string \<Rightarrow> CsvReadError" where
  "csv_read_error category path line detail =
     \<lparr>err_what = make_error_message category path line detail, err_category = category, err_path = path, err_line = line\<rparr>"

definition throw_csv_error :: "CsvErrorCategory \<Rightarrow> string \<Rightarrow> nat \<Rightarrow> string \<Rightarrow> CsvReadError + 'a" where
  "throw_csv_error category path line detail = Inl (csv_read_error category path line detail)"

section \<open>Fields\<close>

text \<open>
  \<^verbatim>\<open>parse_integer\<close> at the three field types: the whole token is an optional sign (for the
  signed types only) and digits, and the value fits.
\<close>

definition parse_signed :: "(int \<Rightarrow> bool) \<Rightarrow> string \<Rightarrow> int option" where
  "parse_signed fits token = (case read_int token of Some i \<Rightarrow> if fits i then Some i else None | None \<Rightarrow> None)"

definition parse_unsigned :: "(int \<Rightarrow> bool) \<Rightarrow> string \<Rightarrow> int option" where
  "parse_unsigned fits token = (case read_nat token of Some n \<Rightarrow> if fits (int n) then Some (int n) else None | None \<Rightarrow> None)"

definition parse_u32 :: "string \<Rightarrow> u32 option" where
  "parse_u32 token = map_option word_of_int (parse_unsigned (\<lambda>i. i < 4294967296) token)"

text \<open>
  The scan of a line: \<open>done_fields\<close> are the fields closed so far, \<open>field\<close> the characters since; the
  eighth field to be closed is an error at once.
\<close>

fun scan_fields :: "string list \<Rightarrow> string \<Rightarrow> string \<Rightarrow> string list option" where
  "scan_fields done_fields field [] = (if length done_fields \<ge> 7 then None else Some (done_fields @ [field]))"
| "scan_fields done_fields field (c # cs) =
     (if c = CHR '','' then (if length done_fields \<ge> 7 then None else scan_fields (done_fields @ [field]) [] cs)
      else scan_fields done_fields (field @ [c]) cs)"

definition parse_line :: "string \<Rightarrow> string \<Rightarrow> nat \<Rightarrow> CsvReadError + MarketTick" where
  "parse_line line path line_number =
     (let fail = throw_csv_error SchemaError path line_number in
      case scan_fields [] [] line of
        None \<Rightarrow> fail ''expected exactly seven fields''
      | Some columns \<Rightarrow>
        if length columns \<noteq> 7 then fail ''expected exactly seven fields''
        else if list_ex (\<lambda>f. f = []) columns then fail ''required field is empty''
        else case parse_signed in_i64 (columns ! 0) of None \<Rightarrow> fail ''exchange_ts_ns is not a complete integer'' | Some ets \<Rightarrow>
        case parse_signed in_i64 (columns ! 1) of None \<Rightarrow> fail ''receive_ts_ns is not a complete integer'' | Some rts \<Rightarrow>
        case parse_u32 (columns ! 2) of None \<Rightarrow> fail ''symbol_id is not a complete integer'' | Some symbol \<Rightarrow>
        case parse_signed in_i64 (columns ! 3) of None \<Rightarrow> fail ''bid_price is not a complete integer'' | Some bid \<Rightarrow>
        case parse_signed in_i64 (columns ! 4) of None \<Rightarrow> fail ''ask_price is not a complete integer'' | Some ask \<Rightarrow>
        case parse_signed in_i32 (columns ! 5) of None \<Rightarrow> fail ''bid_qty is not a complete integer'' | Some bq \<Rightarrow>
        case parse_signed in_i32 (columns ! 6) of None \<Rightarrow> fail ''ask_qty is not a complete integer'' | Some aq \<Rightarrow>
        Inr \<lparr>exchange_ts_ns = ets, receive_ts_ns = rts, bid_price = bid, ask_price = ask, symbol_id = symbol,
             bid_qty = bq, ask_qty = aq\<rparr>)"

section \<open>Files\<close>

record InputStream =
  stream_text :: string
  stream_fault :: bool

type_synonym FileSystem = "string \<Rightarrow> InputStream option"

fun take_line :: "string \<Rightarrow> string \<times> string option" where
  "take_line [] = ([], None)"
| "take_line (c # cs) = (if c = CHR 0x0A then ([], Some cs) else case take_line cs of (l, r) \<Rightarrow> (c # l, r))"

text \<open>
  \<^verbatim>\<open>std::getline\<close>: a line, or failure at the end of the text; a last line without a newline
  counts unless the stream fails while it is read.
\<close>

definition getline :: "InputStream \<Rightarrow> (string \<times> InputStream) option" where
  "getline input = (case take_line (stream_text input) of
     (line, Some rest) \<Rightarrow> Some (line, input\<lparr>stream_text := rest\<rparr>)
   | (line, None) \<Rightarrow> if line = [] \<or> stream_fault input then None else Some (line, input\<lparr>stream_text := []\<rparr>))"

lemma take_line_length: "take_line s = (l, Some r) \<Longrightarrow> length r < length s"
  by (induction s arbitrary: l r) (auto split: if_splits prod.splits)

lemma take_line_nonempty: "take_line s = (l, None) \<Longrightarrow> l \<noteq> [] \<Longrightarrow> s \<noteq> []"
  by auto

lemma getline_decreases: "getline input = Some (line, rest) \<Longrightarrow> length (stream_text rest) < length (stream_text input)"
  by (auto simp: getline_def take_line_length take_line_nonempty split: prod.splits option.splits if_splits)

definition strip_cr :: "string \<Rightarrow> string" where
  "strip_cr line = (if line \<noteq> [] \<and> last line = CHR 0x0D then butlast line else line)"

section \<open>Rows\<close>

text \<open>The checks on a parsed row, in the order of the code; \<open>ticks\<close> are the rows before.\<close>

definition check_tick :: "string \<Rightarrow> nat \<Rightarrow> MarketTick list \<Rightarrow> MarketTick \<Rightarrow> CsvReadError + MarketTick" where
  "check_tick path line_number ticks tick =
     (if bid_price tick \<le> 0 \<or> ask_price tick \<le> 0
      then throw_csv_error ValueError path line_number ''prices must be positive''
      else if bid_qty tick < 0 \<or> ask_qty tick < 0
      then throw_csv_error ValueError path line_number ''displayed quantities must be non-negative''
      else if bid_price tick > ask_price tick
      then throw_csv_error ValueError path line_number ''bid price exceeds ask price''
      else if receive_ts_ns tick < exchange_ts_ns tick
      then throw_csv_error ValueError path line_number ''receive timestamp precedes exchange timestamp''
      else if ticks \<noteq> [] \<and> receive_ts_ns tick < receive_ts_ns (last ticks)
      then throw_csv_error OrderingError path line_number ''receive timestamps are not nondecreasing''
      else if ticks \<noteq> [] \<and> symbol_id tick \<noteq> symbol_id (hd ticks)
      then throw_csv_error MultiSymbolError path line_number ''multiple symbols are not supported''
      else Inr tick)"

definition read_row :: "string \<Rightarrow> nat \<Rightarrow> MarketTick list \<Rightarrow> string \<Rightarrow> CsvReadError + MarketTick" where
  "read_row path line_number ticks line =
     (case parse_line (strip_cr line) path line_number of
        Inl e \<Rightarrow> Inl e | Inr tick \<Rightarrow> check_tick path line_number ticks tick)"

text \<open>The loop over the data lines; it ends with the line number of the last line read.\<close>

function read_rows :: "string \<Rightarrow> nat \<Rightarrow> MarketTick list \<Rightarrow> InputStream \<Rightarrow> CsvReadError + nat \<times> MarketTick list" where
  "read_rows path line_number ticks input =
     (case getline input of
        None \<Rightarrow> Inr (line_number, ticks)
      | Some (line, rest) \<Rightarrow>
         (case read_row path (line_number + 1) ticks line of
            Inl e \<Rightarrow> Inl e
          | Inr tick \<Rightarrow> read_rows path (line_number + 1) (ticks @ [tick]) rest))"
  by pat_completeness auto

termination
  by (relation "measure (\<lambda>(path, n, ticks, input). length (stream_text input))") (auto simp: getline_decreases)

declare read_rows.simps [simp del]

definition read_all :: "FileSystem \<Rightarrow> string option \<Rightarrow> CsvReadError + MarketTick list" where
  "read_all fs path =
     (let input_path = (case path of None \<Rightarrow> ''<null>'' | Some p \<Rightarrow> p) in
      if path = None \<or> path = Some [] then throw_csv_error IoError input_path 0 ''input path is empty''
      else case fs input_path of
        None \<Rightarrow> throw_csv_error IoError input_path 0 ''cannot open input file''
      | Some input \<Rightarrow>
         (case getline input of
            None \<Rightarrow> if stream_fault input then throw_csv_error IoError input_path 1 ''failed while reading header''
                    else throw_csv_error SchemaError input_path 1 ''missing header''
          | Some (header, rest) \<Rightarrow>
             (case read_rows input_path 1 [] rest of
                Inl e \<Rightarrow> Inl e
              | Inr (line_number, ticks) \<Rightarrow>
                  if stream_fault input then throw_csv_error IoError input_path (line_number + 1) ''failed while reading data''
                  else if ticks = [] then throw_csv_error SchemaError input_path 1 ''header-only input has no data rows''
                  else Inr ticks)))"

section \<open>Scanning\<close>

lemma split_commas_nonempty [simp]: "split_commas s \<noteq> []"
  by (induction s) (auto split: list.splits)

text \<open>The scan agrees with the plain split at commas, whenever there are at most seven fields.\<close>

lemma scan_fields_eq:
  "scan_fields done_fields field s =
     (let all = done_fields @ (case split_commas s of f # fs \<Rightarrow> (field @ f) # fs | [] \<Rightarrow> [field])
      in if length all \<le> 7 then Some all else None)"
proof (induction s arbitrary: done_fields field)
  case (Cons c cs)
  obtain f fs where f: "split_commas cs = f # fs" by (cases "split_commas cs") auto
  show ?case by (auto simp: Cons.IH f Let_def)
qed (simp add: Let_def)

lemma scan_line: "scan_fields [] [] s = (if length (split_commas s) \<le> 7 then Some (split_commas s) else None)"
  by (cases "split_commas s") (simp_all add: scan_fields_eq Let_def)

section \<open>What is accepted\<close>

definition values_valid :: "MarketTick \<Rightarrow> bool" where
  "values_valid t \<longleftrightarrow> 0 < bid_price t \<and> 0 < ask_price t \<and> 0 \<le> bid_qty t \<and> 0 \<le> ask_qty t \<and>
     bid_price t \<le> ask_price t \<and> exchange_ts_ns t \<le> receive_ts_ns t"

definition feed_valid :: "MarketTick list \<Rightarrow> bool" where
  "feed_valid ticks \<longleftrightarrow> list_all (\<lambda>t. tick_typed t \<and> values_valid t) ticks \<and> sorted (map receive_ts_ns ticks) \<and>
     list_all (\<lambda>t. symbol_id t = symbol_id (hd ticks)) ticks"

lemma parse_signed_Some: "parse_signed fits s = Some i \<longleftrightarrow> read_int s = Some i \<and> fits i"
  by (auto simp: parse_signed_def split: option.splits if_splits)

lemma throw_ne_Inr [simp]: "throw_csv_error c p n d \<noteq> Inr x" "Inr x \<noteq> throw_csv_error c p n d"
  by (simp_all add: throw_csv_error_def)

lemma parse_line_typed: "parse_line line path n = Inr t \<Longrightarrow> tick_typed t"
  by (auto simp: parse_line_def Let_def parse_signed_Some tick_typed_def split: option.splits if_splits)

lemma check_tick_Inr:
  "check_tick path n ticks t = Inr t' \<longleftrightarrow> t' = t \<and> values_valid t \<and>
     (ticks \<noteq> [] \<longrightarrow> receive_ts_ns (last ticks) \<le> receive_ts_ns t \<and> symbol_id t = symbol_id (hd ticks))"
  by (auto simp: check_tick_def values_valid_def)

lemma feed_valid_Nil [simp]: "feed_valid []"
  by (simp add: feed_valid_def)

lemma sorted_snoc_last: "sorted (map f xs) \<Longrightarrow> xs \<noteq> [] \<Longrightarrow> f (last xs) \<le> f x \<Longrightarrow> sorted (map f (xs @ [x]))"
  for f :: "'a \<Rightarrow> 'b :: linorder"
proof -
  assume s: "sorted (map f xs)" "xs \<noteq> []" "f (last xs) \<le> f x"
  have "f y \<le> f (last xs)" if "y \<in> set xs" for y
  proof -
    from s(2) obtain ys z where xs: "xs = ys @ [z]" by (metis append_butlast_last_id)
    with s(1) that show ?thesis by (auto simp: sorted_append)
  qed
  with s show ?thesis by (force simp: sorted_append)
qed

lemma feed_valid_snoc:
  "feed_valid (ticks @ [t]) \<longleftrightarrow> feed_valid ticks \<and> tick_typed t \<and> values_valid t \<and>
     (ticks \<noteq> [] \<longrightarrow> receive_ts_ns (last ticks) \<le> receive_ts_ns t \<and> symbol_id t = symbol_id (hd ticks))"
proof (cases "ticks = []")
  case False
  have "sorted (map receive_ts_ns (ticks @ [t])) \<longleftrightarrow> sorted (map receive_ts_ns ticks) \<and> receive_ts_ns (last ticks) \<le> receive_ts_ns t"
    using sorted_snoc_last [of receive_ts_ns ticks t] False by (auto simp: sorted_append)
  then show ?thesis using False by (auto simp: feed_valid_def)
qed (simp add: feed_valid_def)

lemma read_row_valid:
  assumes "feed_valid ticks" "read_row path n ticks line = Inr t"
  shows "feed_valid (ticks @ [t])"
proof -
  from assms(2) obtain u where "parse_line (strip_cr line) path n = Inr u" "check_tick path n ticks u = Inr t"
    by (auto simp: read_row_def split: sum.splits)
  then show ?thesis using assms(1) parse_line_typed by (auto simp: feed_valid_snoc check_tick_Inr)
qed

lemma read_rows_valid: "feed_valid ticks \<Longrightarrow> read_rows path n ticks input = Inr (m, out) \<Longrightarrow> feed_valid out"
proof (induction path n ticks input rule: read_rows.induct)
  case (1 path n ticks input)
  show ?case
  proof (cases "getline input")
    case None
    then show ?thesis using 1(2,3) by (simp add: read_rows.simps [of path n])
  next
    case (Some p)
    obtain line rest where p: "p = (line, rest)" by fastforce
    from 1(3) Some p obtain t where t: "read_row path (n + 1) ticks line = Inr t"
        "read_rows path (n + 1) (ticks @ [t]) rest = Inr (m, out)"
      by (auto simp: read_rows.simps [of path n] split: sum.splits)
    show ?thesis by (rule 1(1) [OF Some p [symmetric] t(1) read_row_valid [OF 1(2) t(1)] t(2)])
  qed
qed

lemma accepted_feed:
  assumes "read_all fs path = Inr ticks"
  shows "ticks \<noteq> [] \<and> feed_valid ticks"
proof -
  from assms obtain p input header rest m where
    "read_rows p 1 [] rest = Inr (m, ticks)" "ticks \<noteq> []"
    by (auto simp: read_all_def Let_def split: if_splits option.splits sum.splits prod.splits)
  then show ?thesis using read_rows_valid [OF feed_valid_Nil] by blast
qed

section \<open>Printing\<close>

definition tick_row :: "MarketTick \<Rightarrow> string" where
  "tick_row t = show_int (exchange_ts_ns t) @ '','' @ show_int (receive_ts_ns t) @ '','' @ show_nat (unat (symbol_id t)) @ '','' @
     show_int (bid_price t) @ '','' @ show_int (ask_price t) @ '','' @ show_int (bid_qty t) @ '','' @ show_int (ask_qty t)"

lemma char_digit_control [simp]: "char_digit CHR 0x0A = None" "char_digit CHR 0x0D = None"
  by (simp_all add: char_digit_def)

lemma show_nat_control [simp]: "CHR 0x0A \<notin> set (show_nat n)" "CHR 0x0D \<notin> set (show_nat n)"
  using show_nat_digit by fastforce+

lemma show_int_control [simp]: "CHR 0x0A \<notin> set (show_int i)" "CHR 0x0D \<notin> set (show_int i)" "show_int i \<noteq> []"
  by (simp_all add: show_int_def)

lemma tick_row_control [simp]: "CHR 0x0A \<notin> set (tick_row t)" "CHR 0x0D \<notin> set (tick_row t)" "tick_row t \<noteq> []"
  by (simp_all add: tick_row_def)

lemma tick_row_fields:
  "split_commas (tick_row t) = [show_int (exchange_ts_ns t), show_int (receive_ts_ns t), show_nat (unat (symbol_id t)),
     show_int (bid_price t), show_int (ask_price t), show_int (bid_qty t), show_int (ask_qty t)]"
  by (simp add: tick_row_def split_commas_Cons split_commas_field)

lemma parse_signed_show: "fits i \<Longrightarrow> parse_signed fits (show_int i) = Some i"
  by (simp add: parse_signed_Some)

lemma parse_u32_show: "parse_u32 (show_nat (unat w)) = Some w"
proof -
  have "int (unat w) < 4294967296" using uint_bounded [of w] by simp
  then show ?thesis by (simp add: parse_u32_def parse_unsigned_def)
qed

lemma parse_tick_row: "tick_typed t \<Longrightarrow> parse_line (tick_row t) path n = Inr t"
  by (simp add: parse_line_def Let_def scan_line tick_row_fields parse_signed_show parse_u32_show tick_typed_def)

definition is_eol :: "string \<Rightarrow> bool" where
  "is_eol eol \<longleftrightarrow> eol = [CHR 0x0A] \<or> eol = [CHR 0x0D, CHR 0x0A]"

lemma take_line_append: "CHR 0x0A \<notin> set l \<Longrightarrow> take_line (l @ CHR 0x0A # r) = (l, Some r)"
  by (induction l) auto

lemma getline_row:
  assumes "is_eol eol"
  shows "\<exists>line. getline \<lparr>stream_text = tick_row t @ eol @ rest, stream_fault = b\<rparr> = Some (line, \<lparr>stream_text = rest, stream_fault = b\<rparr>) \<and>
    strip_cr line = tick_row t"
proof (cases "eol = [CHR 0x0A]")
  case True
  have "last (tick_row t) \<noteq> CHR 0x0D" using last_in_set [of "tick_row t"] tick_row_control by metis
  then show ?thesis using True by (simp add: getline_def take_line_append strip_cr_def)
next
  case False
  then have "take_line (tick_row t @ eol @ rest) = (tick_row t @ [CHR 0x0D], Some rest)"
    using assms take_line_append [of "tick_row t @ [CHR 0x0D]" rest] by (simp add: is_eol_def)
  then show ?thesis by (simp add: getline_def strip_cr_def)
qed

definition rows_text :: "string \<Rightarrow> MarketTick list \<Rightarrow> string" where
  "rows_text eol ticks = concat (map (\<lambda>t. tick_row t @ eol) ticks)"

lemma read_rows_prefix:
  assumes "is_eol eol"
  shows "feed_valid (acc @ ticks) \<Longrightarrow>
    read_rows path n acc \<lparr>stream_text = rows_text eol ticks @ rest, stream_fault = b\<rparr> =
    read_rows path (n + length ticks) (acc @ ticks) \<lparr>stream_text = rest, stream_fault = b\<rparr>"
proof (induction ticks arbitrary: n acc)
  case (Cons t ticks)
  have v: "feed_valid (acc @ [t])"
    using Cons.prems by (induction ticks rule: rev_induct) (simp_all add: feed_valid_snoc flip: append_assoc append_Cons)
  obtain line where l: "getline \<lparr>stream_text = tick_row t @ eol @ (rows_text eol ticks @ rest), stream_fault = b\<rparr> =
      Some (line, \<lparr>stream_text = rows_text eol ticks @ rest, stream_fault = b\<rparr>)" "strip_cr line = tick_row t"
    using getline_row [OF assms] by blast
  have "read_row path (n + 1) acc line = Inr t"
    using v by (simp add: read_row_def l(2) feed_valid_snoc parse_tick_row check_tick_Inr)
  then show ?case
    using Cons.IH [of "acc @ [t]" "n + 1"] Cons.prems l(1) by (simp add: read_rows.simps [of path n] rows_text_def)
qed (simp add: rows_text_def)

lemma read_rows_end: "read_rows path n ticks \<lparr>stream_text = [], stream_fault = b\<rparr> = Inr (n, ticks)"
  by (simp add: read_rows.simps getline_def)

lemma read_rows_printed:
  assumes "feed_valid ticks" "is_eol eol"
  shows "read_rows path 1 [] \<lparr>stream_text = rows_text eol ticks, stream_fault = b\<rparr> = Inr (1 + length ticks, ticks)"
  using read_rows_prefix [OF assms(2), of "[]" ticks path 1 "[]"] assms(1) by (simp add: read_rows_end)

lemma getline_header:
  "CHR 0x0A \<notin> set header \<Longrightarrow> getline \<lparr>stream_text = header @ CHR 0x0A # rest, stream_fault = b\<rparr> =
     Some (header, \<lparr>stream_text = rest, stream_fault = b\<rparr>)"
  by (simp add: getline_def take_line_append)

section \<open>What is accepted, exactly\<close>

text \<open>
  The file format without the reader: the lines of a text, the row that a line denotes, and
  the feed that a file denotes.
\<close>

fun file_lines :: "string \<Rightarrow> string list" where
  "file_lines [] = []"
| "file_lines (c # cs) = (if c = CHR 0x0A then [] # file_lines cs
     else case file_lines cs of [] \<Rightarrow> [[c]] | l # ls \<Rightarrow> (c # l) # ls)"

definition row_denotes :: "string \<Rightarrow> MarketTick \<Rightarrow> bool" where
  "row_denotes row t \<longleftrightarrow> (case split_commas (strip_cr row) of
     [ets, rts, symbol, bid, ask, bq, aq] \<Rightarrow>
       read_int ets = Some (exchange_ts_ns t) \<and> read_int rts = Some (receive_ts_ns t) \<and>
       read_nat symbol = Some (unat (symbol_id t)) \<and> read_int bid = Some (bid_price t) \<and>
       read_int ask = Some (ask_price t) \<and> read_int bq = Some (bid_qty t) \<and> read_int aq = Some (ask_qty t)
   | _ \<Rightarrow> False)"

definition file_denotes :: "string \<Rightarrow> MarketTick list \<Rightarrow> bool" where
  "file_denotes content ticks \<longleftrightarrow> (case file_lines content of
     [] \<Rightarrow> False | header # rows \<Rightarrow> list_all2 row_denotes rows ticks)"

lemma getline_lines:
  "getline \<lparr>stream_text = s, stream_fault = False\<rparr> = (case file_lines s of [] \<Rightarrow> None
     | l # ls \<Rightarrow> Some (l, \<lparr>stream_text = (case snd (take_line s) of None \<Rightarrow> [] | Some r \<Rightarrow> r), stream_fault = False\<rparr>))"
proof (induction s)
  case (Cons c s)
  then show ?case by (auto simp: getline_def split: prod.splits option.splits list.splits if_splits)
qed (simp add: getline_def)

lemma file_lines_rest:
  "file_lines s = l # ls \<Longrightarrow> file_lines (case snd (take_line s) of None \<Rightarrow> [] | Some r \<Rightarrow> r) = ls"
proof (induction s arbitrary: l ls)
  case (Cons c s)
  show ?case
  proof (cases "c = CHR 0x0A")
    case False
    show ?thesis
    proof (cases "file_lines s")
      case Nil
      then have "s = []" by (cases s) (auto split: if_splits list.splits)
      then show ?thesis using Cons.prems False by auto
    next
      case (Cons k ks)
      then show ?thesis using Cons.IH Cons.prems False by (auto split: prod.splits)
    qed
  qed (use Cons.prems in simp)
qed simp

lemma parse_u32_Some: "parse_u32 s = Some w \<longleftrightarrow> read_nat s = Some (unat w)"
proof
  assume "parse_u32 s = Some w"
  then obtain n where n: "read_nat s = Some n" "n < 4294967296" "w = word_of_int (int n)"
    by (auto simp: parse_u32_def parse_unsigned_def split: option.splits if_splits)
  then show "read_nat s = Some (unat w)" by (simp add: unsigned_of_nat take_bit_nat_eq_self)
next
  have "int (unat w) < 4294967296" using uint_bounded [of w] by simp
  then show "read_nat s = Some (unat w) \<Longrightarrow> parse_u32 s = Some w"
    by (simp add: parse_u32_def parse_unsigned_def)
qed

lemma read_empty [simp]: "read_int [] = None" "read_nat [] = None"
  by (simp_all add: read_int_def read_nat_def)

lemma seven: "length xs = 7 \<longleftrightarrow> (\<exists>a b c d e f g. xs = [a, b, c, d, e, f, g])"
  by (auto simp: eval_nat_numeral length_Suc_conv)

lemma parse_line_Inr:
  "parse_line (strip_cr row) path n = Inr t \<longleftrightarrow> row_denotes row t \<and> tick_typed t"
proof (cases "length (split_commas (strip_cr row)) = 7")
  case True
  then obtain a b c d e f g where s: "split_commas (strip_cr row) = [a, b, c, d, e, f, g]" by (auto simp: seven)
  show ?thesis (is "?l \<longleftrightarrow> ?r")
  proof
    show "?l \<Longrightarrow> ?r"
      by (auto simp: parse_line_def scan_line s row_denotes_def Let_def parse_signed_Some parse_u32_Some tick_typed_def
            split: if_splits option.splits)
    assume r: ?r
    then have "a \<noteq> []" "b \<noteq> []" "c \<noteq> []" "d \<noteq> []" "e \<noteq> []" "f \<noteq> []" "g \<noteq> []"
      by (auto simp: row_denotes_def s)
    with r show ?l
      by (simp add: parse_line_def scan_line s row_denotes_def Let_def parse_signed_def parse_u32_Some [THEN iffD2] tick_typed_def)
  qed
next
  case False
  then have "\<not> row_denotes row t" by (auto simp: row_denotes_def split: list.splits)
  with False show ?thesis by (simp add: parse_line_def scan_line Let_def)
qed

lemma read_row_Inr:
  assumes "feed_valid ticks"
  shows "read_row path n ticks row = Inr t \<longleftrightarrow> row_denotes row t \<and> feed_valid (ticks @ [t])"
  using assms by (auto simp: read_row_def feed_valid_snoc check_tick_Inr parse_line_Inr split: sum.splits)
   (metis parse_line_Inr sum.distinct(1) sum.inject(2))+

lemma feed_valid_prefix: "feed_valid (xs @ ys) \<Longrightarrow> feed_valid xs"
  by (induction ys rule: rev_induct) (simp_all add: feed_valid_snoc flip: append_assoc)

lemma read_rows_exact:
  assumes "feed_valid ticks"
  shows "(\<exists>m. read_rows path n ticks \<lparr>stream_text = s, stream_fault = False\<rparr> = Inr (m, out)) \<longleftrightarrow>
    (\<exists>new. out = ticks @ new \<and> list_all2 row_denotes (file_lines s) new \<and> feed_valid out)"
  using assms
proof (induction "file_lines s" arbitrary: s n ticks)
  case Nil
  then show ?case by (auto simp: read_rows.simps [of path n] getline_lines simp flip: Nil(1))
next
  case (Cons l ls)
  define r where "r = (case snd (take_line s) of None \<Rightarrow> [] | Some r \<Rightarrow> r)"
  have r: "file_lines r = ls" unfolding r_def by (rule file_lines_rest) (simp add: Cons.hyps(2) [symmetric])
  have g: "getline \<lparr>stream_text = s, stream_fault = False\<rparr> = Some (l, \<lparr>stream_text = r, stream_fault = False\<rparr>)"
    by (simp add: getline_lines r_def flip: Cons.hyps(2))
  show ?case
  proof (cases "read_row path (n + 1) ticks l")
    case (Inl e)
    have "\<not> (row_denotes l t \<and> feed_valid ((ticks @ [t]) @ new))" for t new
      using Inl read_row_Inr [OF Cons.prems, of path "n + 1" l t] feed_valid_prefix by auto
    with Inl show ?thesis by (auto simp: read_rows.simps [of path n] g list_all2_Cons1 simp flip: Cons.hyps(2))
  next
    case (Inr t)
    then have t: "row_denotes l t" "feed_valid (ticks @ [t])" using read_row_Inr [OF Cons.prems] by auto
    have unique: "u = t" if "row_denotes l u" "feed_valid ((ticks @ [u]) @ new)" for u new
      using Inr that read_row_Inr [OF Cons.prems, of path "n + 1" l u] feed_valid_prefix by auto
    have "(\<exists>m. read_rows path n ticks \<lparr>stream_text = s, stream_fault = False\<rparr> = Inr (m, out)) \<longleftrightarrow>
        (\<exists>new. out = (ticks @ [t]) @ new \<and> list_all2 row_denotes ls new \<and> feed_valid out)"
      using Cons.hyps(1) [OF r [symmetric] t(2), of "n + 1"] Inr r by (simp add: read_rows.simps [of path n] g)
    also have "\<dots> \<longleftrightarrow> (\<exists>new. out = ticks @ new \<and> list_all2 row_denotes (l # ls) new \<and> feed_valid out)"
      using t(1) unique by (fastforce simp: list_all2_Cons1)
    finally show ?thesis by (simp flip: Cons.hyps(2))
  qed
qed

lemma accepted_iff:
  "read_all fs path = Inr ticks \<longleftrightarrow>
    (\<exists>p content. path = Some p \<and> p \<noteq> [] \<and> fs p = Some \<lparr>stream_text = content, stream_fault = False\<rparr> \<and>
       file_denotes content ticks \<and> ticks \<noteq> [] \<and> feed_valid ticks)"
proof (cases "\<exists>p content. path = Some p \<and> p \<noteq> [] \<and> fs p = Some \<lparr>stream_text = content, stream_fault = False\<rparr>")
  case True
  then obtain p s where p: "path = Some p" "p \<noteq> []" "fs p = Some \<lparr>stream_text = s, stream_fault = False\<rparr>" by blast
  show ?thesis
  proof (cases "file_lines s")
    case (Cons h ls)
    define r where "r = (case snd (take_line s) of None \<Rightarrow> [] | Some r \<Rightarrow> r)"
    have r: "file_lines r = ls" unfolding r_def by (rule file_lines_rest [OF Cons])
    have g: "getline \<lparr>stream_text = s, stream_fault = False\<rparr> = Some (h, \<lparr>stream_text = r, stream_fault = False\<rparr>)"
      by (simp add: getline_lines Cons r_def)
    have "read_all fs path = Inr ticks \<longleftrightarrow>
        (\<exists>m. read_rows p 1 [] \<lparr>stream_text = r, stream_fault = False\<rparr> = Inr (m, ticks)) \<and> ticks \<noteq> []"
      using p g by (auto simp: read_all_def Let_def split: sum.splits)
    then show ?thesis using p by (auto simp: read_rows_exact r file_denotes_def Cons)
  qed (use p in \<open>auto simp: read_all_def Let_def getline_lines file_denotes_def\<close>)
next
  case False
  have "stream_fault input" if "path = Some p" "p \<noteq> []" "fs p = Some input" for p input
    using False that by (cases input) auto
  with False show ?thesis
    by (auto simp: read_all_def Let_def split: option.splits sum.splits prod.splits if_splits)
qed

section \<open>Errors\<close>

definition reports :: "string \<Rightarrow> nat \<Rightarrow> CsvReadError \<Rightarrow> bool" where
  "reports path n e \<longleftrightarrow> err_path e = path \<and> err_line e = n \<and>
     (\<exists>detail. err_what e = make_error_message (err_category e) path n detail)"

lemma throw_Inl [simp]: "throw_csv_error c p n d = Inl e \<Longrightarrow> reports p n e"
  by (auto simp: throw_csv_error_def csv_read_error_def reports_def)

lemma parse_line_reports: "parse_line line path n = Inl e \<Longrightarrow> reports path n e"
  by (auto simp: parse_line_def Let_def split: option.splits if_splits)

lemma check_tick_reports: "check_tick path n ticks t = Inl e \<Longrightarrow> reports path n e"
  by (auto simp: check_tick_def split: if_splits)

lemma read_row_reports: "read_row path n ticks line = Inl e \<Longrightarrow> reports path n e"
  by (auto simp: read_row_def parse_line_reports check_tick_reports split: sum.splits)

section \<open>Properties\<close>

definition sample_feed :: "MarketTick list" where
  "sample_feed = [\<lparr>exchange_ts_ns = 1000, receive_ts_ns = 1050, bid_price = 99900, ask_price = 100100, symbol_id = 7, bid_qty = 50, ask_qty = 40\<rparr>,
     \<lparr>exchange_ts_ns = -5, receive_ts_ns = 1050, bid_price = 1, ask_price = 1, symbol_id = 7, bid_qty = 0, ask_qty = 2147483647\<rparr>]"

lemma sample_feed_valid: "feed_valid sample_feed"
  by (simp add: sample_feed_def feed_valid_def values_valid_def tick_typed_def in_i64_def in_i32_def)

text \<open>
  What the reader returns is a valid feed: at least one tick, every field in its type's
  range, positive and uncrossed prices, no negative quantity, no tick received before it was
  sent, receive times in order, and one symbol.
\<close>

theorem csv_accepts_valid_feed:
  assumes "read_all fs path = Inr ticks"
  shows "ticks \<noteq> [] \<and> feed_valid ticks"
  by (rule accepted_feed [OF assms])

theorem csv_accepts_valid_feed_witness:
  "\<exists>fs. read_all fs (Some ''a'') = Inr sample_feed \<and> feed_valid sample_feed"
proof (intro exI [of _ "\<lambda>_. Some \<lparr>stream_text = ''h'' @ CHR 0x0A # rows_text [CHR 0x0A] sample_feed, stream_fault = False\<rparr>"] conjI)
  show r: "read_all (\<lambda>_. Some \<lparr>stream_text = ''h'' @ CHR 0x0A # rows_text [CHR 0x0A] sample_feed, stream_fault = False\<rparr>) (Some ''a'') = Inr sample_feed"
    using getline_header [of "''h''"] read_rows_printed [OF sample_feed_valid, of "[CHR 0x0A]"]
    by (simp add: read_all_def Let_def is_eol_def) (simp add: sample_feed_def)
  show "feed_valid sample_feed" using csv_accepts_valid_feed [OF r] by simp
qed

text \<open>
  C13. The reader accepts exactly the files of the format: it returns a list of ticks if and only if the
  path names a readable file whose lines after the first denote these ticks, field by field,
  and these are a valid feed: at least one tick, every field in its type's range, positive and
  uncrossed prices, no negative quantity, no tick received before it was sent, receive times
  in order, and one symbol.
\<close>

theorem csv_accepts_exactly:
  "read_all fs path = Inr ticks \<longleftrightarrow>
    (\<exists>p content. path = Some p \<and> p \<noteq> [] \<and> fs p = Some \<lparr>stream_text = content, stream_fault = False\<rparr> \<and>
       file_denotes content ticks \<and> ticks \<noteq> [] \<and> feed_valid ticks)"
  by (rule accepted_iff)

text \<open>
  C14. Round trip: a valid feed written row by row, with either line ending, after any header
  line, is read back exactly.
\<close>

theorem csv_roundtrip:
  assumes "feed_valid ticks" "ticks \<noteq> []" "is_eol eol" "CHR 0x0A \<notin> set header" "path \<noteq> []"
    and "fs path = Some \<lparr>stream_text = header @ CHR 0x0A # rows_text eol ticks, stream_fault = False\<rparr>"
  shows "read_all fs (Some path) = Inr ticks"
  using assms(2-) read_rows_printed [OF assms(1,3), of path False] by (simp add: read_all_def Let_def getline_header)

theorem csv_roundtrip_witness:
  "read_all (\<lambda>_. Some \<lparr>stream_text = ''h'' @ CHR 0x0A # rows_text [CHR 0x0D, CHR 0x0A] sample_feed, stream_fault = False\<rparr>)
     (Some ''ticks.csv'') = Inr sample_feed"
  by (rule csv_roundtrip [OF sample_feed_valid, of "[CHR 0x0D, CHR 0x0A]" "''h''"]) (simp_all add: sample_feed_def is_eol_def)

text \<open>
  C34. The first bad line stops the reader: after valid rows, a line that does not parse or
  does not pass the checks makes the reader report that line's error, with the file's
  path and the line's number counted from one with the header, whatever follows.
\<close>

theorem csv_first_error_located:
  assumes "feed_valid good" "is_eol eol" "CHR 0x0A \<notin> set header" "path \<noteq> []" "CHR 0x0A \<notin> set bad"
    and "read_row path (length good + 2) good bad = Inl e"
    and "fs path = Some \<lparr>stream_text = header @ CHR 0x0A # rows_text eol good @ bad @ CHR 0x0A # rest, stream_fault = fault\<rparr>"
  shows "read_all fs (Some path) = Inl e \<and> err_line e = length good + 2 \<and> err_path e = path \<and>
    (\<exists>detail. err_what e = make_error_message (err_category e) path (length good + 2) detail)"
proof -
  let ?s = "\<lparr>stream_text = bad @ CHR 0x0A # rest, stream_fault = fault\<rparr>"
  have "read_rows path (1 + length good) good ?s = Inl e"
    using assms(6) getline_header [OF assms(5)] by (simp add: read_rows.simps [of path "Suc (length good)"])
  then have "read_rows path 1 [] \<lparr>stream_text = rows_text eol good @ bad @ CHR 0x0A # rest, stream_fault = fault\<rparr> = Inl e"
    using read_rows_prefix [OF assms(2), of "[]" good path 1] assms(1) by simp
  then have "read_all fs (Some path) = Inl e" using assms(3,4,7) by (simp add: read_all_def Let_def getline_header)
  moreover have "reports path (length good + 2) e" by (rule read_row_reports [OF assms(6)])
  ultimately show ?thesis by (simp add: reports_def)
qed

theorem csv_first_error_located_witness:
  "\<exists>e. read_all (\<lambda>_. Some \<lparr>stream_text = ''h'' @ CHR 0x0A # rows_text [CHR 0x0A] sample_feed @ ''1,2,x'' @ CHR 0x0A # ''junk'',
     stream_fault = False\<rparr>) (Some ''f'') = Inl e \<and> err_line e = 4"
proof -
  obtain e where "read_row ''f'' (length sample_feed + 2) sample_feed ''1,2,x'' = Inl e"
    by (simp add: read_row_def strip_cr_def parse_line_def Let_def throw_csv_error_def csv_read_error_def)
  from csv_first_error_located [OF sample_feed_valid _ _ _ _ this, of "[CHR 0x0A]" "''h''"
      "\<lambda>_. Some \<lparr>stream_text = ''h'' @ CHR 0x0A # rows_text [CHR 0x0A] sample_feed @ ''1,2,x'' @ CHR 0x0A # ''junk'', stream_fault = False\<rparr>"
      "''junk''" False]
  show ?thesis by (intro exI [of _ e]) (simp add: is_eol_def sample_feed_def)
qed

text \<open>
  The category of a row that parses follows the rules in order: bad values first, then
  the order of receive times against the last tick, then the symbol against the first one.
\<close>

theorem csv_row_category:
  assumes "tick_typed t"
  shows "(case read_row path n ticks (tick_row t) of
      Inr u \<Rightarrow> u = t \<and> values_valid t \<and> (ticks \<noteq> [] \<longrightarrow> receive_ts_ns (last ticks) \<le> receive_ts_ns t \<and> symbol_id t = symbol_id (hd ticks))
    | Inl e \<Rightarrow> err_category e =
        (if \<not> values_valid t then ValueError
         else if receive_ts_ns t < receive_ts_ns (last ticks) then OrderingError else MultiSymbolError) \<and>
        (values_valid t \<longrightarrow> ticks \<noteq> []))"
proof -
  have "last (tick_row t) \<noteq> CHR 0x0D" using last_in_set [of "tick_row t"] tick_row_control by metis
  then have "read_row path n ticks (tick_row t) = check_tick path n ticks t"
    using assms by (simp add: read_row_def strip_cr_def parse_tick_row)
  then show ?thesis by (auto simp: check_tick_def values_valid_def throw_csv_error_def csv_read_error_def)
qed

theorem csv_row_category_witness:
  "case read_row ''f'' 2 [] (tick_row (hd sample_feed)) of Inr u \<Rightarrow> u = hd sample_feed | Inl e \<Rightarrow> False"
proof -
  have "tick_typed (hd sample_feed)" "values_valid (hd sample_feed)"
    by (simp_all add: sample_feed_def tick_typed_def values_valid_def in_i64_def in_i32_def)
  with csv_row_category [OF this(1), of "[]" "''f''" 2] show ?thesis by (simp split: sum.splits)
qed

end
