(* ===== verification/Trading_Main.thy ===== *)
theory Trading_Main
  imports Csv_Reader Replay_Properties
begin

text \<open>
  The command line program: \<^verbatim>\<open>src/config_parser.cpp\<close>, \<^verbatim>\<open>src/layout_utils.cpp\<close> and
  \<^verbatim>\<open>src/main.cpp\<close>. The world outside is a parameter: the files to read, the output stream
  for the journal (opening it, writing text to it, its state, flushing it), the clock and
  the scheduling of the sink thread. Standard output and error are the text written to
  them; \<^term>\<open>None\<close> is undefined behaviour. Exceptions are values of their message.
\<close>

section \<open>Arguments\<close>

abbreviation newline :: string where "newline \<equiv> [CHR 0x0A]"

text \<open>\<^verbatim>\<open>parse_nonnegative_timestamp_arg\<close>; \<^term>\<open>None\<close> is a null pointer.\<close>

definition parse_nonnegative_timestamp_arg :: "string option \<Rightarrow> string option \<Rightarrow> string + TimestampNs" where
  "parse_nonnegative_timestamp_arg value argument_name =
     (let name = (case argument_name of None \<Rightarrow> ''argument'' | Some n \<Rightarrow> n);
          accepted = '' accepted range is 0..'' @ show_int INT64_MAX
      in case value of
           None \<Rightarrow> Inl (name @ '' is empty;'' @ accepted)
         | Some text \<Rightarrow>
            if text = [] then Inl (name @ '' is empty;'' @ accepted)
            else case parse_signed in_i64 text of
                None \<Rightarrow> Inl (name @ '' is invalid: '' @ [CHR 0x27] @ text @ [CHR 0x27] @ '';'' @ accepted)
              | Some parsed \<Rightarrow>
                  if parsed < 0 then Inl (name @ '' is invalid: '' @ [CHR 0x27] @ text @ [CHR 0x27] @ '';'' @ accepted)
                  else Inr parsed)"

record RuntimeConfig =
  run_sink_mode :: ReplaySinkMode
  run_persistence_path :: string
  run_execution_style :: ExecutionStyle
  run_passive_cancel_after_ns :: TimestampNs

definition sink_mode_name :: "ReplaySinkMode \<Rightarrow> string" where
  "sink_mode_name mode = (if mode = SinkSync then ''sync'' else ''async'')"

definition parse_sink_mode :: "string \<Rightarrow> string + ReplaySinkMode" where
  "parse_sink_mode mode = (if mode = ''sync'' then Inr SinkSync else if mode = ''async'' then Inr SinkAsync
     else Inl ''sink_mode is invalid; accepted values are sync|async'')"

definition parse_execution_style :: "string \<Rightarrow> string + ExecutionStyle" where
  "parse_execution_style mode = (if mode = ''aggressive'' then Inr Aggressive else if mode = ''passive'' then Inr Passive
     else Inl ''execution_style is invalid; accepted values are aggressive|passive'')"

definition default_config :: RuntimeConfig where
  "default_config = \<lparr>run_sink_mode = SinkAsync, run_persistence_path = ''build/event_journal.csv'',
     run_execution_style = Aggressive, run_passive_cancel_after_ns = 3000\<rparr>"

definition and_then :: "'e + 'a \<Rightarrow> ('a \<Rightarrow> 'e + 'b) \<Rightarrow> 'e + 'b" where
  "and_then m f = (case m of Inl e \<Rightarrow> Inl e | Inr x \<Rightarrow> f x)"

definition parse_runtime_config :: "string list \<Rightarrow> string + RuntimeConfig" where
  "parse_runtime_config argv =
     and_then (if length argv \<ge> 3 then and_then (parse_sink_mode (argv ! 2)) (\<lambda>m. Inr (default_config\<lparr>run_sink_mode := m\<rparr>))
               else Inr default_config) (\<lambda>config.
     let config = (if length argv \<ge> 4 then config\<lparr>run_persistence_path := argv ! 3\<rparr> else config) in
     and_then (if length argv \<ge> 5 then and_then (parse_execution_style (argv ! 4)) (\<lambda>s. Inr (config\<lparr>run_execution_style := s\<rparr>))
               else Inr config) (\<lambda>config.
     if length argv \<ge> 6
     then and_then (parse_nonnegative_timestamp_arg (Some (argv ! 5)) (Some ''passive_cancel_after_ns''))
            (\<lambda>ts. Inr (config\<lparr>run_passive_cancel_after_ns := ts\<rparr>))
     else Inr config))"

section \<open>The sink\<close>

record 'o World =
  world_files :: FileSystem
  world_open :: "string \<Rightarrow> 'o option"
  world_write :: "'o \<Rightarrow> string \<Rightarrow> 'o"
  world_good :: "'o \<Rightarrow> bool"
  world_flush :: "'o \<Rightarrow> 'o"
  world_clock :: "nat \<Rightarrow> i64"
  world_schedule :: "nat \<Rightarrow> nat"

text \<open>\<^verbatim>\<open>LoggingEventSink\<close>: the text on standard output and the persistence stream.\<close>

definition logging_consume :: "'o World \<Rightarrow> string \<times> 'o \<Rightarrow> TradeEvent \<Rightarrow> bool \<times> string \<times> 'o" where
  "logging_consume w sink event =
     (let out = write_trade_event_log (@) (fst sink) event
      in case write_trade_event_persistence (world_write w) (world_good w) (snd sink) event of
           (written, persistence) \<Rightarrow> (written, out, persistence))"

definition logging_env :: "'o World \<Rightarrow> (string \<times> 'o) ReplayEnv" where
  "logging_env w = \<lparr>env_consume = logging_consume w, env_clock = world_clock w, env_schedule = world_schedule w\<rparr>"

section \<open>The report\<close>

definition failure_reasons :: "bool \<Rightarrow> bool \<Rightarrow> bool \<Rightarrow> bool \<Rightarrow> string" where
  "failure_reasons async_drop persistence latency_overflow batch_overflow =
     (if \<not> async_drop \<and> \<not> persistence \<and> \<not> latency_overflow \<and> \<not> batch_overflow then ''none'' @ newline
      else
        (let print = (\<lambda>(text, comma) reason. (text @ (if comma then '','' else []) @ reason, True));
             st = ([], False);
             st = (if async_drop then print st ''async_drop'' else st);
             st = (if persistence then print st ''persist_write'' else st);
             st = (if latency_overflow then print st ''latency_overflow'' else st);
             st = (if batch_overflow then print st ''venue_event_batch_overflow'' else st)
         in fst st @ newline))"

definition line_of :: "string \<Rightarrow> string \<Rightarrow> string" where
  "line_of key val = key @ ''='' @ val @ newline"

definition counter_lines :: "ReplayResult \<Rightarrow> string" where
  "counter_lines result = (let c = res_counters result in
     line_of ''strategy_signals'' (show_int (strategy_signals c)) @
     line_of ''local_submissions'' (show_int (local_submissions c)) @
     line_of ''gateway_submissions'' (show_int (gateway_submissions c)) @
     line_of ''risk_rejects'' (show_int (risk_rejects c)) @
     line_of ''venue_rejects'' (show_int (venue_rejects c)) @
     line_of ''invalid_venue_events'' (show_int (invalid_venue_events c)) @
     line_of ''fills'' (show_int (fills c)) @
     line_of ''persisted_events'' (show_int (persisted_events c)) @
     line_of ''dropped_async_events'' (show_int (dropped_events c)) @
     line_of ''events.accepted'' (show_int (accepted_events c)) @
     line_of ''events.persisted'' (show_int (persisted_events c)) @
     line_of ''events.dropped'' (show_int (dropped_events c)))"

definition state_lines :: "ReplayResult \<Rightarrow> string" where
  "state_lines result = (let c = res_counters result in
     line_of ''venue_events.batch_overflow'' (show_int (venue_batch_overflows c)) @
     line_of ''venue_events.wrong_state'' (show_int (wrong_state_events c)) @
     line_of ''venue_events.wrong_order'' (show_int (wrong_order_events c)) @
     line_of ''venue_events.invalid_quantity'' (show_int (invalid_quantity_events c)) @
     line_of ''venue_events.invalid_venue_order_id'' (show_int (invalid_venue_order_id_events c)) @
     line_of ''accounting.rejected_fills'' (show_int (accounting_rejected_fills c)) @
     line_of ''net_qty'' (show_int (net_qty (res_position result))) @
     line_of ''avg_price'' (show_int (avg_price (res_position result))) @
     line_of ''realized_pnl'' (show_int (realized_pnl (res_pnl result))) @
     line_of ''unrealized_pnl'' (show_int (unrealized_pnl (res_pnl result))) @
     line_of ''cash'' (show_int (cash (res_pnl result))))"

definition latency_lines :: "ReplaySinkMode \<Rightarrow> ReplayLatencies \<Rightarrow> string option" where
  "latency_lines mode lat = do {
     a \<leftarrow> latency_summary_text (lat_strategy lat) ''strategy'';
     b \<leftarrow> latency_summary_text (lat_risk lat) ''risk'';
     c \<leftarrow> latency_summary_text (lat_execution lat) ''execution'';
     d \<leftarrow> latency_summary_text (lat_accounting lat) ''accounting'';
     e \<leftarrow> latency_summary_text (lat_event_sink lat) (if mode = SinkSync then ''event_sink_sync'' else ''event_enqueue_async'');
     f \<leftarrow> latency_summary_text (lat_end_to_end lat) ''end_to_end'';
     Some (a @ b @ c @ d @ e @ f)
   }"

definition execution_lines :: "ReplayResult \<Rightarrow> string" where
  "execution_lines result = (let st = res_execution_stats result in
     line_of ''execution_stats.aggressive_fills'' (show_int (aggressive_fill_count st)) @
     line_of ''execution_stats.passive_fills'' (show_int (passive_fill_count st)) @
     line_of ''execution_stats.partial_fills'' (show_int (partial_fill_count st)) @
     line_of ''execution_stats.cancel_requests'' (show_int (cancel_request_count st)) @
     line_of ''execution_stats.cancel_acks'' (show_int (cancel_ack_count st)) @
     line_of ''execution_stats.stale_fills'' (show_int (stale_fill_count st)) @
     line_of ''execution_stats.adverse_fills'' (show_int (adverse_fill_count st)))"

definition order_lines :: "ReplayResult \<Rightarrow> string" where
  "order_lines result = (let od = res_order result in
     line_of ''order_manager.state'' (show_int (order_state_code (o_state od))) @
     line_of ''order_manager.cum_qty'' (show_int (o_cum_qty od)) @
     line_of ''order_manager.leaves_qty'' (show_int (o_leaves_qty od)))"

text \<open>
  \<^verbatim>\<open>print_layout_summary\<close>: size and alignment of the structs by the natural alignment rule,
  each field given by its size, which is its alignment.
\<close>

definition align_up :: "nat \<Rightarrow> nat \<Rightarrow> nat" where
  "align_up a n = (n + a - 1) div a * a"

fun place_fields :: "nat \<Rightarrow> nat \<Rightarrow> nat list \<Rightarrow> nat \<times> nat" where
  "place_fields offset alignment [] = (align_up alignment offset, alignment)"
| "place_fields offset alignment (width # widths) = place_fields (align_up width offset + width) (max alignment width) widths"

definition layout_line :: "string \<Rightarrow> nat list \<Rightarrow> string" where
  "layout_line name widths = (case place_fields 0 1 widths of (total_size, alignment) \<Rightarrow>
     ''layout['' @ name @ ''] size='' @ show_nat total_size @ '' align='' @ show_nat alignment @ newline)"

definition layout_summary :: string where
  "layout_summary = layout_line ''MarketTick'' [8, 8, 8, 8, 4, 4, 4] @ layout_line ''Fill'' [8, 8, 4, 1] @
     layout_line ''TradeEvent'' [8, 8, 4, 1, 1, 1] @ layout_line ''PositionState'' [8, 8] @ layout_line ''PnlState'' [8, 8, 8]"

section \<open>The program\<close>

definition EXIT_SUCCESS :: int where "EXIT_SUCCESS = 0"
definition EXIT_FAILURE :: int where "EXIT_FAILURE = 1"

record 'o ProgramRun =
  exit_code :: int
  out_text :: string
  err_text :: string
  persistence_stream :: "'o option"

definition failing :: "string \<Rightarrow> string \<Rightarrow> 'o option \<Rightarrow> 'o ProgramRun" where
  "failing out message stream =
     \<lparr>exit_code = EXIT_FAILURE, out_text = out, err_text = message @ newline, persistence_stream = stream\<rparr>"

definition latency_error_what :: "LatencyError \<Rightarrow> string" where
  "latency_error_what e = (case e of CapacityInvalid name tick_count max_tick \<Rightarrow>
     ''latency collector capacity invalid: collector='' @ name @ '' tick_count='' @ show_nat tick_count @
     '' max_per_tick='' @ show_nat max_tick)"

definition replay_error_what :: "ReplayError \<Rightarrow> string" where
  "replay_error_what e = (case e of EmptyReplay \<Rightarrow> ''run_replay requires at least one tick''
     | MultipleSymbols \<Rightarrow> ''run_replay supports exactly one symbol'' | LatencyCapacity le \<Rightarrow> latency_error_what le)"

definition usage :: string where
  "usage = ''usage: trading_main <csv-path> [sync|async] [persistence-path] [aggressive|passive] [passive-cancel-after-ns]''"

definition journal_header :: string where
  "journal_header = ''event_kind,ts_ns,side,price,quantity,reject_reason'' @ newline"

definition replay_config_of :: "RuntimeConfig \<Rightarrow> ReplayConfig" where
  "replay_config_of config = \<lparr>sink_mode = run_sink_mode config, execution_style = run_execution_style config,
     passive_cancel_after_ns = run_passive_cancel_after_ns config\<rparr>"

text \<open>What happens after the replay: the verdict and the report.\<close>

definition finish_run :: "'o World \<Rightarrow> RuntimeConfig \<Rightarrow> bool \<Rightarrow> ReplayResult \<Rightarrow> string \<Rightarrow> 'o \<Rightarrow> 'o ProgramRun option" where
  "finish_run w config header_failed result out persistence =
     (let persistence = world_flush w persistence;
          persistence_failed = (header_failed \<or> res_sink_failed result \<or> \<not> world_good w persistence);
          async_drop_failed = (dropped_events (res_counters result) \<noteq> 0);
          batch_overflow_failed = (venue_batch_overflows (res_counters result) \<noteq> 0);
          run_failed = (async_drop_failed \<or> persistence_failed \<or> res_latency_overflow result \<or> batch_overflow_failed)
      in do {
        latencies \<leftarrow> latency_lines (run_sink_mode config) (res_latencies result);
        Some \<lparr>exit_code = (if run_failed then EXIT_FAILURE else EXIT_SUCCESS),
          out_text = out @ line_of ''sink_mode'' (sink_mode_name (run_sink_mode config)) @
            line_of ''persistence_path'' (run_persistence_path config) @
            line_of ''execution_mode'' (if run_execution_style config = Aggressive then ''aggressive'' else ''passive'') @
            line_of ''passive_cancel_after_ns'' (show_int (run_passive_cancel_after_ns config)) @
            counter_lines result @ line_of ''run_status'' (if run_failed then ''failed'' else ''ok'') @
            ''failure_reasons='' @
            failure_reasons async_drop_failed persistence_failed (res_latency_overflow result) batch_overflow_failed @
            state_lines result @ latencies @ execution_lines result @ order_lines result @ layout_summary,
          err_text = [], persistence_stream = Some persistence\<rparr>
      })"

definition program :: "'o World \<Rightarrow> string list \<Rightarrow> 'o ProgramRun option" where
  "program w argv =
     (if length argv < 2 then Some (failing [] usage None)
      else case parse_runtime_config argv of
        Inl message \<Rightarrow> Some (failing [] message None)
      | Inr config \<Rightarrow>
        (case read_all (world_files w) (Some (argv ! 1)) of
          Inl e \<Rightarrow> Some (failing [] (err_what e) None)
        | Inr ticks \<Rightarrow>
          (case world_open w (run_persistence_path config) of
            None \<Rightarrow> Some (failing [] (''failed to open persistence path: '' @ run_persistence_path config) None)
          | Some stream \<Rightarrow>
            (let stream = world_write w stream journal_header; header_failed = (\<not> world_good w stream)
             in do {
               (result, out, persistence) \<leftarrow> run_replay (logging_env w) ticks (replay_config_of config) ([], stream);
               (case result of
                  Inl e \<Rightarrow> Some (failing out (replay_error_what e) (Some persistence))
                | Inr r \<Rightarrow> finish_run w config header_failed r out persistence)
             }))))"

section \<open>Arguments and report\<close>

lemma parse_timestamp_Inr:
  "parse_nonnegative_timestamp_arg v name = Inr t \<longleftrightarrow>
     (\<exists>text. v = Some text \<and> read_int text = Some t \<and> 0 \<le> t \<and> t \<le> INT64_MAX)"
proof (cases v)
  case (Some str)
  have "str \<noteq> []" if "read_int str = Some t" using that by (auto simp: read_int_def)
  then show ?thesis
    using Some by (auto simp: parse_nonnegative_timestamp_arg_def Let_def parse_signed_def in_i64_def split: option.splits)
qed (simp add: parse_nonnegative_timestamp_arg_def Let_def)

text \<open>The sizes asserted in the headers are the sizes the report prints.\<close>

lemma asserted_sizes: "place_fields 0 1 [8, 8, 4, 1] = (24, 8)" "place_fields 0 1 [8, 8, 4, 1, 1, 1] = (24, 8)"
  by (simp_all add: align_up_def)

text \<open>The reasons printed are those that hold, separated by commas.\<close>

lemma failure_reasons_none: "failure_reasons a b c d = ''none'' @ newline \<longleftrightarrow> \<not> (a \<or> b \<or> c \<or> d)"
  by (cases a; cases b; cases c; cases d) (simp_all add: failure_reasons_def)

section \<open>The journal on disk\<close>

text \<open>
  What a text stream promises: a write that leaves it good has appended its text to a good
  stream, a flush that leaves it good has lost nothing, and a freshly opened stream is empty.
\<close>

definition faithful_stream :: "'o World \<Rightarrow> ('o \<Rightarrow> string) \<Rightarrow> bool" where
  "faithful_stream w text_of \<longleftrightarrow>
     (\<forall>s t. world_good w (world_write w s t) \<longrightarrow> text_of (world_write w s t) = text_of s @ t) \<and>
     (\<forall>s. world_good w (world_flush w s) \<longrightarrow> text_of (world_flush w s) = text_of s) \<and>
     (\<forall>p s. world_open w p = Some s \<longrightarrow> text_of s = [])"

text \<open>
  \<^verbatim>\<open>LoggingEventSink\<close> meets the contract of an event sink twice over: by the lines on standard
  output, and, on a stream that keeps its promises, by the journal.
\<close>

lemma logging_consume_eq:
  "logging_consume w (out, s) e =
     (world_good w (world_write w s (journal_record e)), out @ trade_event_log e, world_write w s (journal_record e))"
  by (simp add: logging_consume_def write_trade_event_log_def write_trade_event_persistence_def Let_def)

lemma foldl_append: "foldl (\<lambda>v e. v @ f e) v es = v @ concat (map f es)"
  by (induction es arbitrary: v) simp_all

interpretation log_sink: event_sink "logging_consume w" "\<lambda>k v. fst k = v" "\<lambda>v e. v @ trade_event_log e" for w :: "'o World"
  by unfold_locales (auto simp: logging_consume_eq)

interpretation journal_sink: event_sink "logging_consume w"
    "\<lambda>k v. faithful_stream w text_of \<longrightarrow> text_of (snd k) = v" "\<lambda>v e. v @ journal_record e"
  for w :: "'o World" and text_of :: "'o \<Rightarrow> string"
  by unfold_locales (auto simp: logging_consume_eq faithful_stream_def)

lemma logging_feed:
  assumes "faithful_stream w text_of" "feed (logging_consume w) (out, s) es = (length es, out', s')"
  shows "text_of s' = text_of s @ concat (map journal_record es)"
  using journal_sink.feed_records [OF _ assms(2), of text_of "text_of s"] assms(1) by (simp add: foldl_append)

lemma logging_feed_out:
  "feed (logging_consume w) (out, s) es = (length es, out', s') \<Longrightarrow> out' = out @ concat (map trade_event_log es)"
  using log_sink.feed_records [of "(out, s)" out w es "(out', s')"] by (simp add: foldl_append)

text \<open>What the program went through when it did not stop at the arguments or the files.\<close>

definition reached :: "'o World \<Rightarrow> string list \<Rightarrow> RuntimeConfig \<Rightarrow> MarketTick list \<Rightarrow> 'o \<Rightarrow> bool" where
  "reached w argv config ticks stream \<longleftrightarrow> 2 \<le> length argv \<and> parse_runtime_config argv = Inr config \<and>
     read_all (world_files w) (Some (argv ! 1)) = Inr ticks \<and> world_open w (run_persistence_path config) = Some stream"

definition clean_run :: "'o World \<Rightarrow> ReplayResult \<Rightarrow> 'o \<Rightarrow> bool" where
  "clean_run w r p \<longleftrightarrow> \<not> res_sink_failed r \<and> world_good w (world_flush w p) \<and> dropped_events (res_counters r) = 0 \<and>
     \<not> res_latency_overflow r \<and> venue_batch_overflows (res_counters r) = 0"

lemma program_cases:
  assumes "program w argv = Some run"
  obtains (stopped) "exit_code run = EXIT_FAILURE" "\<not> (\<exists>config ticks stream. reached w argv config ticks stream)"
  | (threw) config ticks stream e snk where "reached w argv config ticks stream" "exit_code run = EXIT_FAILURE"
      "run_replay (logging_env w) ticks (replay_config_of config) ([], world_write w stream journal_header) = Some (Inl e, snk)"
  | (finished) config ticks stream r out p where "reached w argv config ticks stream"
      "run_replay (logging_env w) ticks (replay_config_of config) ([], world_write w stream journal_header) = Some (Inr r, out, p)"
      "finish_run w config (\<not> world_good w (world_write w stream journal_header)) r out p = Some run"
proof (cases "\<exists>config ticks stream. reached w argv config ticks stream")
  case False
  have "exit_code run = EXIT_FAILURE"
    using assms False by (auto simp: program_def reached_def failing_def split: if_splits sum.splits option.splits)
  then show ?thesis using False stopped by blast
next
  case True
  then obtain config ticks stream where r: "reached w argv config ticks stream" by blast
  then have p: "Option.bind (run_replay (logging_env w) ticks (replay_config_of config) ([], world_write w stream journal_header))
      (\<lambda>(result, out, persistence). case result of
         Inl e \<Rightarrow> Some (failing out (replay_error_what e) (Some persistence))
       | Inr r \<Rightarrow> finish_run w config (\<not> world_good w (world_write w stream journal_header)) r out persistence) = Some run"
    using assms by (simp add: program_def reached_def Let_def)
  then obtain x out q where x: "run_replay (logging_env w) ticks (replay_config_of config) ([], world_write w stream journal_header) = Some (x, out, q)"
    by (auto simp: Option.bind_eq_Some_conv)
  show ?thesis
  proof (cases x)
    case (Inl e)
    then show ?thesis using threw [OF r] x p by (auto simp: failing_def)
  next
    case (Inr y)
    then show ?thesis using finished [OF r] x p by auto
  qed
qed

lemma finish_run_exit:
  assumes "finish_run w config hf r out p = Some run"
  shows "(exit_code run = EXIT_SUCCESS \<longleftrightarrow> \<not> hf \<and> clean_run w r p) \<and> persistence_stream run = Some (world_flush w p)"
proof -
  obtain y where y: "latency_lines (run_sink_mode config) (res_latencies r) = Some y"
    using assms by (auto simp: finish_run_def Let_def Option.bind_eq_Some_conv)
  then have "exit_code run = (if \<not> hf \<and> clean_run w r p then EXIT_SUCCESS else EXIT_FAILURE) \<and>
      persistence_stream run = Some (world_flush w p)"
    using assms by (auto simp: finish_run_def Let_def clean_run_def)
  then show ?thesis by (simp add: EXIT_SUCCESS_def EXIT_FAILURE_def)
qed

section \<open>Definedness\<close>

lemma latency_lines_ok:
  assumes "\<And>c. ok (summarize (lat_of c lat)) (\<lambda>_. True)"
  shows "ok (latency_lines mode lat) (\<lambda>_. True)"
proof -
  define f where "f = (\<lambda>c name. the (latency_summary_text (lat_of c lat) name))"
  have t: "latency_summary_text (lat_of c lat) name = Some (f c name)" for c name
    using assms [of c] by (auto simp: latency_summary_text_def ok_iff f_def)
  from t [of ColStrategy] t [of ColRisk] t [of ColExecution] t [of ColAccounting] t [of ColEventSink] t [of ColEndToEnd]
  show ?thesis by (simp add: lat_of_def latency_lines_def)
qed

lemma replay_summaries_ok:
  assumes "run_replay env ticks config sink = Some (Inr r, snk)" "bounded_clock B env" "0 \<le> B"
    and "4 * int (length ticks) * B \<le> INT64_MAX" "4 * int (length ticks) \<le> VECTOR_MAX_SIZE"
  shows "ok (summarize (lat_of c (res_latencies r))) (\<lambda>_. True)"
proof (rule run_replay_resultE [OF assms(1)])
  fix lat st sd
  assume r: "initialize_latencies (length ticks) = Inr lat"
    "process_ticks env config (symbol_id (hd ticks)) \<lparr>core = core_init, channel = side_init sink lat\<rparr> ticks = Some (True, st)"
    "r = replay_result (st\<lparr>channel := sd\<rparr>)" "join_sink env config (channel st) = Some sd"
  let ?l = "lat_of c (side_latencies (channel st))"
  have l: "res_latencies r = side_latencies (channel st)"
    using r(4) sink_drain_latencies by (auto simp: r(3) replay_result_def join_sink_def split: if_splits)
  have cap: "lat_capacity ?l \<le> 4 * length ticks" using run_samples(8) [OF r(1,2), of c] by (simp split: Collector.splits)
  then have "int (length (ls_samples ?l)) \<le> 4 * int (length ticks)" by (simp add: lat_capacity_def)
  then have "B * int (length (ls_samples ?l)) \<le> B * (4 * int (length ticks))" using assms(3) by (intro mult_left_mono)
  then have b: "B * int (length (ls_samples ?l)) \<le> INT64_MAX" using assms(4) by (simp add: mult.commute)
  have "length (ls_samples ?l) < 2 ^ 64" using cap assms(5) by (simp add: lat_capacity_def VECTOR_MAX_SIZE_def)
  then show ?thesis
    using run_samples_within [OF r(1) assms(2,3) r(2)] run_samples(7) [OF r(1,2)] b
    unfolding l by (intro summarize_ok [OF assms(3)]) (auto simp: samples_within_def)
qed

text \<open>Bounds on the ticks and the clock under which the program has no undefined behaviour.\<close>

definition safe_feed :: "int \<Rightarrow> int \<Rightarrow> int \<Rightarrow> MarketTick list \<Rightarrow> bool" where
  "safe_feed T P B ticks \<longleftrightarrow> list_all (\<lambda>t. \<bar>receive_ts_ns t\<bar> \<le> T \<and> ask_price t \<le> P) ticks \<and>
     run_limits T P (int (length ticks)) \<and> 4 * int (length ticks) * B \<le> INT64_MAX \<and> 4 * int (length ticks) \<le> VECTOR_MAX_SIZE"

lemma safe_feed_replay:
  assumes "feed_valid ticks" "ticks \<noteq> []" "safe_feed T P B ticks"
  obtains r snk where "run_replay env ticks config sink = Some (Inr r, snk)"
proof -
  have "tick_bounded T P t" if "t \<in> set ticks" for t
  proof -
    have "tick_typed t" "values_valid t" "\<bar>receive_ts_ns t\<bar> \<le> T" "ask_price t \<le> P"
      using assms(1,3) that by (auto simp: feed_valid_def safe_feed_def list_all_iff)
    then show ?thesis by (auto simp: tick_bounded_def values_valid_def tick_typed_def in_i32_def)
  qed
  then have "list_all (tick_bounded T P) ticks" by (simp add: list_all_iff)
  then have "\<exists>b. replay_outcome (execution_style config) (passive_cancel_after_ns config) ticks = Some (Inr b)"
    using assms by (intro outcome_defined) (auto simp: feed_valid_def safe_feed_def)
  then show ?thesis using run_of_outcome that by metis
qed

lemma program_finishes:
  assumes r: "reached w argv config ticks stream" and safe: "safe_feed T P B ticks"
    and clock: "\<And>i. 0 \<le> world_clock w i \<and> world_clock w i \<le> B"
  obtains res out p run where
    "run_replay (logging_env w) ticks (replay_config_of config) ([], world_write w stream journal_header) = Some (Inr res, out, p)"
    "finish_run w config (\<not> world_good w (world_write w stream journal_header)) res out p = Some run"
    "program w argv = Some run" "exit_code run = EXIT_SUCCESS \<or> exit_code run = EXIT_FAILURE"
proof -
  have v: "feed_valid ticks" "ticks \<noteq> []" using accepted_feed r by (auto simp: reached_def)
  obtain res out p where q: "run_replay (logging_env w) ticks (replay_config_of config) ([], world_write w stream journal_header) = Some (Inr res, out, p)"
    using safe_feed_replay [OF v safe] by (metis prod.exhaust)
  have clk: "bounded_clock B (logging_env w)" using clock by (simp add: bounded_clock_def logging_env_def)
  have "0 \<le> B" using clock [of 0] by linarith
  then have "ok (latency_lines (run_sink_mode config) (res_latencies res)) (\<lambda>_. True)"
    using replay_summaries_ok [OF q clk] safe by (intro latency_lines_ok) (simp add: safe_feed_def)
  then obtain y where y: "latency_lines (run_sink_mode config) (res_latencies res) = Some y" by (auto simp: ok_iff)
  obtain run where run: "finish_run w config (\<not> world_good w (world_write w stream journal_header)) res out p = Some run"
      "exit_code run = EXIT_SUCCESS \<or> exit_code run = EXIT_FAILURE"
    unfolding finish_run_def Let_def y by simp
  moreover have "program w argv = finish_run w config (\<not> world_good w (world_write w stream journal_header)) res out p"
    using r q by (simp add: program_def reached_def Let_def)
  ultimately show ?thesis using that [OF q] by simp
qed

section \<open>An example world\<close>

definition text_world :: "string World" where
  "text_world = \<lparr>world_files = (\<lambda>_. Some \<lparr>stream_text = ''h'' @ CHR 0x0A # rows_text newline example_ticks, stream_fault = False\<rparr>),
     world_open = (\<lambda>_. Some []), world_write = (@), world_good = (\<lambda>_. True), world_flush = id,
     world_clock = (\<lambda>_. 0), world_schedule = (\<lambda>_. 1)\<rparr>"

lemma example_feed_valid: "feed_valid example_ticks"
  by (simp add: example_ticks_def sample_tick_def feed_valid_def values_valid_def tick_typed_def in_i64_def in_i32_def)

lemma example_safe: "B \<le> 1000 \<Longrightarrow> safe_feed 3000 100100 B example_ticks"
  by (simp add: safe_feed_def example_ticks_def sample_tick_def run_limits_def VECTOR_MAX_SIZE_def)

lemma text_world_reads: "read_all (world_files text_world) (Some ''f'') = Inr example_ticks"
  using getline_header [of "''h''"] read_rows_printed [OF example_feed_valid, of newline]
  by (simp add: read_all_def Let_def is_eol_def text_world_def) (simp add: example_ticks_def)

lemma example_quiet: "ok (k_run Aggressive 3000 core_init example_ticks) (\<lambda>c. accepted_events (core_counters c) \<le> 12)"
  by code_simp

lemma feed_all: "(\<And>k e. fst (consume k e)) \<Longrightarrow> fst (feed consume k es) = length es"
  by (induction es arbitrary: k) (simp_all add: split_beta)

lemma clocked_world_succeeds:
  assumes clock: "\<And>i. 0 \<le> clock i \<and> clock i \<le> 1000"
  obtains run where "program (text_world\<lparr>world_clock := clock\<rparr>) [''prog'', ''f'', ''sync''] = Some run" "exit_code run = EXIT_SUCCESS"
proof -
  let ?w = "text_world\<lparr>world_clock := clock\<rparr>"
  let ?c = "default_config\<lparr>run_sink_mode := SinkSync\<rparr>"
  have r: "reached ?w [''prog'', ''f'', ''sync''] ?c example_ticks []"
    using text_world_reads
    by (simp add: reached_def parse_runtime_config_def parse_sink_mode_def and_then_def Let_def) (simp add: text_world_def)
  have clock: "0 \<le> world_clock ?w i \<and> world_clock ?w i \<le> 1000" for i using assms by simp
  obtain res out p run where q: "run_replay (logging_env ?w) example_ticks (replay_config_of ?c)
      ([], world_write ?w [] journal_header) = Some (Inr res, out, p)"
    "finish_run ?w ?c (\<not> world_good ?w (world_write ?w [] journal_header)) res out p = Some run"
    "program ?w [''prog'', ''f'', ''sync''] = Some run"
    by (rule program_finishes [OF r example_safe [OF order_refl] clock])
  have drop: "dropped_events (res_counters res) = 0" using sync_no_drop [OF q(1)] by (simp add: replay_config_of_def)
  have "\<not> res_sink_failed res \<and> venue_batch_overflows (res_counters res) = 0 \<and> accepted_events (res_counters res) \<le> 12"
  proof (rule run_replay_resultE [OF q(1)])
    fix st sd
    assume k: "k_run (execution_style (replay_config_of ?c)) (passive_cancel_after_ns (replay_config_of ?c)) core_init example_ticks = Some (core st)"
      and sd: "side_inv (logging_env ?w) (replay_config_of ?c) ([], world_write ?w [] journal_header) sd (core_journal (core st))"
        "ring_contents (side_queue sd) = []" and res: "res = replay_result (st\<lparr>channel := sd\<rparr>)"
    have "\<not> side_sink_failed sd"
    proof (rule finished_channel [OF sd])
      fix es
      assume f: "feed (env_consume (logging_env ?w)) ([], world_write ?w [] journal_header) es = (nat (side_persisted sd), side_sink sd)"
        "side_sink_failed sd = (side_persisted sd < int (length es))" "0 \<le> side_persisted sd"
      have "fst (env_consume (logging_env ?w) x e)" for x e
        by (simp add: logging_env_def logging_consume_def write_trade_event_persistence_def text_world_def Let_def)
      then have "fst (feed (env_consume (logging_env ?w)) ([], world_write ?w [] journal_header) es) = length es"
        by (rule feed_all)
      then have "nat (side_persisted sd) = length es" unfolding f(1) fst_conv .
      then show ?thesis using f(2,3) by linarith
    qed
    moreover have "kernel_inv Aggressive (core st)"
      using postD [OF k_run_post [OF kernel_inv_init] k] by (simp add: replay_config_of_def default_config_def)
    moreover have "accepted_events (core_counters (core st)) \<le> 12"
      using k okD [OF example_quiet] by (simp add: replay_config_of_def default_config_def)
    ultimately show ?thesis by (simp add: res replay_result_def kernel_inv_def consistent_def Let_def)
  qed
  then have "clean_run ?w res p"
    using drop latency_overflow_iff [OF q(1)] by (simp add: clean_run_def text_world_def example_ticks_def)
  then show ?thesis using that [OF q(3)] finish_run_exit [OF q(2)] by (simp add: text_world_def)
qed

lemma text_world_succeeds:
  obtains run where "program text_world [''prog'', ''f'', ''sync''] = Some run" "exit_code run = EXIT_SUCCESS"
proof -
  have "text_world\<lparr>world_clock := (\<lambda>_. 0)\<rparr> = text_world" by (simp add: text_world_def)
  with clocked_world_succeeds [of "\<lambda>_. 0"] that show ?thesis by auto
qed

section \<open>Properties\<close>

text \<open>
  The timestamp argument is accepted exactly when it is the decimal text of a
  non-negative 64-bit integer, and its value is that integer.
\<close>

theorem timestamp_arg_exact:
  "parse_nonnegative_timestamp_arg arg name = Inr t \<longleftrightarrow>
     (\<exists>str. arg = Some str \<and> read_int str = Some t \<and> 0 \<le> t \<and> t \<le> INT64_MAX)"
  by (rule parse_timestamp_Inr)

text \<open>
  C15. The exit status tells the truth: the program exits with success exactly when the
  arguments and the tick file are accepted, the journal could be opened and its header
  written, the replay returned a result, and nothing was dropped, refused, lost on flush or
  overflowed.
\<close>

theorem program_success_exact:
  assumes "program w argv = Some run"
  shows "exit_code run = EXIT_SUCCESS \<longleftrightarrow>
    (\<exists>config ticks stream r out p. reached w argv config ticks stream \<and>
       world_good w (world_write w stream journal_header) \<and>
       run_replay (logging_env w) ticks (replay_config_of config) ([], world_write w stream journal_header) = Some (Inr r, out, p) \<and>
       clean_run w r p)"
  using assms
proof (cases rule: program_cases)
  case stopped
  then show ?thesis by (auto simp: EXIT_SUCCESS_def EXIT_FAILURE_def)
next
  case (threw config ticks stream e snk)
  then show ?thesis by (auto simp: EXIT_SUCCESS_def EXIT_FAILURE_def reached_def)
next
  case (finished config ticks stream r out p)
  from finish_run_exit [OF finished(3)] show ?thesis using finished(1,2) by (auto simp: reached_def)
qed

theorem program_success_exact_witness:
  "\<exists>run config ticks stream. program text_world [''prog'', ''f'', ''sync''] = Some run \<and> exit_code run = EXIT_SUCCESS \<and>
     reached text_world [''prog'', ''f'', ''sync''] config ticks stream"
proof (rule text_world_succeeds)
  fix run
  assume run: "program text_world [''prog'', ''f'', ''sync''] = Some run" "exit_code run = EXIT_SUCCESS"
  from program_success_exact [OF run(1)] run show ?thesis by auto
qed

text \<open>
  C5. End to end: when the program exits with success, the file it wrote is the header
  followed by the records of all events of the replay, in the order in which they were emitted:
  the events are those that a recording sink receives, one after the other, in a synchronous
  replay of the same ticks with the same style and cancel delay. The position and cash of the
  result are the sums over the fills among them, the position within its limit.
\<close>

theorem program_journal_complete:
  assumes "program w argv = Some run" "exit_code run = EXIT_SUCCESS" "faithful_stream w text_of"
  shows "\<exists>config ticks stream r snk journal p r'. reached w argv config ticks stream \<and>
    run_replay (logging_env w) ticks (replay_config_of config) ([], world_write w stream journal_header) = Some (Inr r, snk) \<and>
    persistence_stream run = Some p \<and> text_of p = journal_header @ concat (map journal_record journal) \<and>
    journal = replay_journal (run_execution_style config) (run_passive_cancel_after_ns config) ticks \<and>
    run_replay (recording_env 0) ticks (replay_config SinkSync (run_execution_style config) (run_passive_cancel_after_ns config)) [] =
      Some (Inr r', journal) \<and>
    int (length journal) = accepted_events (res_counters r) \<and> net_qty (res_position r) = journal_net journal \<and>
    cash (res_pnl r) = - journal_spent journal \<and> \<bar>journal_net journal\<bar> \<le> 200"
  using assms(1)
proof (cases rule: program_cases)
  case (finished config ticks stream r out p)
  let ?s = "world_write w stream journal_header"
  have clean: "world_good w ?s" "clean_run w r p" "persistence_stream run = Some (world_flush w p)"
    using finish_run_exit [OF finished(3)] assms(2) by simp_all
  show ?thesis
  proof (rule run_replay_inv [OF finished(2)])
    fix c sd
    assume c: "kernel_inv (execution_style (replay_config_of config)) c"
      "side_inv (logging_env w) (replay_config_of config) ([], ?s) sd (core_journal c)" "ring_contents (side_queue sd) = []"
      "r = replay_result \<lparr>core = c, channel = sd\<rparr>" "(out, p) = side_sink sd"
      "core_journal c = replay_journal (execution_style (replay_config_of config)) (passive_cancel_after_ns (replay_config_of config)) ticks"
    let ?j = "core_journal c"
    have d: "side_dropped sd = 0" "\<not> side_sink_failed sd" using clean(2) by (simp_all add: clean_run_def c(4))
    have "feed (env_consume (logging_env w)) ([], ?s) ?j = (length ?j, side_sink sd)"
      by (rule finished_channel [OF c(2,3)]) (use d in \<open>auto dest: subseq_same_length\<close>)
    then have "text_of p = text_of ?s @ concat (map journal_record ?j)"
      using logging_feed [OF assms(3)] by (simp add: logging_env_def flip: c(5))
    moreover have "text_of stream = []" using finished(1) assms(3) unfolding reached_def faithful_stream_def by blast
    moreover have "text_of ?s = text_of stream @ journal_header" "text_of (world_flush w p) = text_of p"
      using assms(3) clean by (simp_all add: faithful_stream_def clean_run_def)
    ultimately have "text_of (world_flush w p) = journal_header @ concat (map journal_record ?j)" by simp
    moreover have "int (length ?j) = accepted_events (res_counters r)" "net_qty (res_position r) = journal_net ?j"
        "cash (res_pnl r) = - journal_spent ?j"
      using c(1) by (simp_all add: c(4) kernel_inv_def books_def Let_def)
    moreover from this have "\<bar>journal_net ?j\<bar> \<le> 200" using c(1) by (auto simp: c(4) kernel_inv_def within_limit_def)
    moreover have j: "?j = replay_journal (run_execution_style config) (run_passive_cancel_after_ns config) ticks"
      using c(6) by (simp add: replay_config_of_def)
    moreover obtain r' where "run_replay (recording_env 0) ticks
        (replay_config SinkSync (run_execution_style config) (run_passive_cancel_after_ns config)) [] = Some (Inr r', ?j)"
      using synchronous_recording [OF finished(2), of 0] by (auto simp: j replay_config_of_def)
    ultimately show ?thesis using finished(1,2) clean(3) by blast
  qed
qed (use assms(2) in \<open>auto simp: EXIT_SUCCESS_def EXIT_FAILURE_def\<close>)

theorem program_journal_complete_witness:
  "\<exists>run p journal r'. program text_world [''prog'', ''f'', ''sync''] = Some run \<and> persistence_stream run = Some p \<and>
     p = journal_header @ concat (map journal_record journal) \<and> \<bar>journal_net journal\<bar> \<le> 200 \<and>
     run_replay (recording_env 0) example_ticks (replay_config SinkSync Aggressive 3000) [] = Some (Inr r', journal)"
proof (rule text_world_succeeds)
  fix run
  assume run: "program text_world [''prog'', ''f'', ''sync''] = Some run" "exit_code run = EXIT_SUCCESS"
  have "faithful_stream text_world id" by (simp add: faithful_stream_def text_world_def)
  moreover have "config = default_config\<lparr>run_sink_mode := SinkSync\<rparr> \<and> ticks = example_ticks"
    if "reached text_world [''prog'', ''f'', ''sync''] config ticks stream" for config ticks stream
    using that text_world_reads by (auto simp: reached_def parse_runtime_config_def parse_sink_mode_def and_then_def)
  ultimately show ?thesis
    using program_journal_complete [OF run, of id] run(1) by (fastforce simp: default_config_def)
qed

text \<open>
  C35. The program returns: when the ticks it reads are bounded and the clock's readings are
  too, it ends with an exit status, without overflow or other undefined behaviour, whatever
  the arguments and the outside world.
\<close>

theorem program_returns:
  assumes "\<And>ticks. read_all (world_files w) (Some (argv ! 1)) = Inr ticks \<Longrightarrow> safe_feed T P B ticks"
    and "\<And>i. 0 \<le> world_clock w i \<and> world_clock w i \<le> B"
  shows "\<exists>run. program w argv = Some run \<and> (exit_code run = EXIT_SUCCESS \<or> exit_code run = EXIT_FAILURE)"
proof (cases "\<exists>config ticks stream. reached w argv config ticks stream")
  case False
  then show ?thesis by (auto simp: program_def reached_def failing_def split: sum.splits option.splits)
next
  case True
  then obtain config ticks stream where r: "reached w argv config ticks stream" by blast
  then have t: "read_all (world_files w) (Some (argv ! 1)) = Inr ticks" by (simp add: reached_def)
  obtain run where "program w argv = Some run" "exit_code run = EXIT_SUCCESS \<or> exit_code run = EXIT_FAILURE"
    by (rule program_finishes [OF r assms(1) [OF t] assms(2)])
  then show ?thesis by blast
qed

theorem program_returns_witness:
  "\<exists>run. program text_world [''prog'', ''f'', ''sync''] = Some run \<and> (exit_code run = EXIT_SUCCESS \<or> exit_code run = EXIT_FAILURE)"
  by (rule program_returns [where T = 3000 and P = 100100 and B = 0])
    (use text_world_reads example_safe in \<open>auto simp: text_world_def\<close>)

end
