(* ===== verification/Run_Artifact.thy ===== *)
theory Run_Artifact
  imports Trading_Main
begin

text \<open>
  The contract of \<^verbatim>\<open>docs/determinism.md\<close>: of a successful run, the journal and the selected
  lines of the report are determined by the ticks, the execution style and the cancel
  delay. The artifact is what \<^verbatim>\<open>tests/golden/run_golden.cmake\<close> compares: the journal, and the
  lines of standard output whose key is on the script's list.
\<close>

section \<open>The normalized artifact\<close>

fun rest_after :: "string \<Rightarrow> string \<Rightarrow> string option" where
  "rest_after [] line = Some line"
| "rest_after (c # cs) [] = None"
| "rest_after (c # cs) (d # ds) = (if c = d then rest_after cs ds else None)"

definition kept_names :: "string list" where
  "kept_names = [''execution_mode'', ''passive_cancel_after_ns'', ''strategy_signals'', ''local_submissions'',
     ''gateway_submissions'', ''risk_rejects'', ''venue_rejects'', ''invalid_venue_events'', ''fills'',
     ''persisted_events'', ''dropped_async_events'', ''run_status'', ''failure_reasons'', ''net_qty'',
     ''avg_price'', ''realized_pnl'', ''unrealized_pnl'', ''cash'']"

definition kept_families :: "string list" where
  "kept_families = [''events.'', ''venue_events.'', ''accounting.'', ''order_manager.'']"

definition kept :: "string \<Rightarrow> bool" where
  "kept line \<longleftrightarrow> list_ex (\<lambda>k. rest_after (k @ ''='') line \<noteq> None) kept_names \<or>
     list_ex (\<lambda>f. case rest_after f line of None \<Rightarrow> False | Some r \<Rightarrow> CHR ''='' \<in> set r) kept_families"

definition kept_lines :: "string \<Rightarrow> string" where
  "kept_lines out = concat (map (\<lambda>l. l @ newline) (filter kept (file_lines out)))"

definition normalize :: "string \<Rightarrow> string \<Rightarrow> string" where
  "normalize out journal = ''# journal'' @ newline @ journal @ ''# summary'' @ newline @ kept_lines out"

lemma file_lines_line: "CHR 0x0A \<notin> set l \<Longrightarrow> file_lines (l @ CHR 0x0A # r) = l # file_lines r"
  by (induction l) auto

lemma kept_lines_line:
  "CHR 0x0A \<notin> set l \<Longrightarrow> kept_lines (l @ CHR 0x0A # r) = (if kept l then l @ CHR 0x0A # kept_lines r else kept_lines r)"
  by (simp add: kept_lines_def file_lines_line)

lemma kept_lines_Nil [simp]: "kept_lines [] = []"
  by (simp add: kept_lines_def)

text \<open>Whether the line of a key is kept is decided by the key alone.\<close>

definition kept_key :: "string \<Rightarrow> bool" where
  "kept_key k \<longleftrightarrow> k \<in> set kept_names \<or> list_ex (\<lambda>f. rest_after f k \<noteq> None) kept_families"

lemma rest_after_name:
  "c \<notin> set p \<Longrightarrow> c \<notin> set k \<Longrightarrow> rest_after (p @ [c]) (k @ c # v) \<noteq> None \<longleftrightarrow> p = k"
proof (induction p arbitrary: k)
  case Nil
  then show ?case by (cases k) auto
next
  case (Cons a p)
  then show ?case by (cases k) auto
qed

lemma rest_after_family:
  "c \<notin> set f \<Longrightarrow> rest_after f (k @ c # v) = map_option (\<lambda>r. r @ c # v) (rest_after f k)"
proof (induction f arbitrary: k)
  case (Cons a f)
  then show ?case by (cases k) auto
qed simp

lemma kept_key_line:
  assumes "CHR ''='' \<notin> set k"
  shows "kept (k @ CHR ''='' # v) \<longleftrightarrow> kept_key k"
proof -
  have "list_all (\<lambda>n. CHR ''='' \<notin> set n) (kept_names @ kept_families)"
    by code_simp
  then have n: "CHR ''='' \<notin> set n" if "n \<in> set kept_names \<union> set kept_families" for n
    using that by (auto simp: list_all_iff)
  have "list_ex (\<lambda>p. rest_after (p @ ''='') (k @ CHR ''='' # v) \<noteq> None) kept_names \<longleftrightarrow> k \<in> set kept_names"
    using n rest_after_name [OF _ assms] by (auto simp: list_ex_iff)
  moreover have "(case rest_after f (k @ CHR ''='' # v) of None \<Rightarrow> False | Some r \<Rightarrow> CHR ''='' \<in> set r) \<longleftrightarrow> rest_after f k \<noteq> None"
    if "f \<in> set kept_families" for f
    using rest_after_family [of "CHR ''=''" f k v] n that by (auto split: option.splits)
  ultimately show ?thesis by (simp add: kept_def kept_key_def list_ex_iff)
qed

definition plain_key :: "string \<Rightarrow> bool" where
  "plain_key k \<longleftrightarrow> CHR 0x0A \<notin> set k \<and> CHR ''='' \<notin> set k"

lemma kept_line_of:
  assumes "plain_key k" "CHR 0x0A \<notin> set v"
  shows "kept_lines (line_of k v @ r) = (if kept_key k then line_of k v else []) @ kept_lines r"
  using assms kept_lines_line [of "k @ ''='' @ v" r] kept_key_line [of k v] by (simp add: line_of_def plain_key_def)

section \<open>The lines of the report\<close>

definition business_keys :: "string list" where
  "business_keys = kept_names @ [''events.accepted'', ''events.persisted'', ''events.dropped'',
     ''venue_events.batch_overflow'', ''venue_events.wrong_state'', ''venue_events.wrong_order'',
     ''venue_events.invalid_quantity'', ''venue_events.invalid_venue_order_id'', ''accounting.rejected_fills'',
     ''order_manager.state'', ''order_manager.cum_qty'', ''order_manager.leaves_qty'']"

definition other_keys :: "string list" where
  "other_keys = [''sink_mode'', ''persistence_path'', ''execution_stats.aggressive_fills'', ''execution_stats.passive_fills'',
     ''execution_stats.partial_fills'', ''execution_stats.cancel_requests'', ''execution_stats.cancel_acks'',
     ''execution_stats.stale_fills'', ''execution_stats.adverse_fills'', ''fill ts_ns'', ''oms_transition ts_ns'',
     ''venue_reject ts_ns'', ''reject ts_ns'', ''latency[strategy] count'', ''latency[risk] count'',
     ''latency[execution] count'', ''latency[accounting] count'', ''latency[event_sink_sync] count'',
     ''latency[event_enqueue_async] count'', ''latency[end_to_end] count'', ''layout[MarketTick] size'',
     ''layout[Fill] size'', ''layout[TradeEvent] size'', ''layout[PositionState] size'', ''layout[PnlState] size'']"

lemma kept_line:
  assumes "k \<in> set business_keys" "CHR 0x0A \<notin> set v"
  shows "kept_lines (line_of k v @ r) = line_of k v @ kept_lines r"
proof -
  have "list_all (\<lambda>k. plain_key k \<and> kept_key k) business_keys"
    by code_simp
  then show ?thesis using assms kept_line_of [of k v r] by (auto simp: list_all_iff)
qed

lemma dropped_line:
  assumes "k \<in> set other_keys" "CHR 0x0A \<notin> set v"
  shows "kept_lines (line_of k v @ r) = kept_lines r"
proof -
  have "list_all (\<lambda>k. plain_key k \<and> \<not> kept_key k) other_keys"
    by code_simp
  then show ?thesis using assms kept_line_of [of k v r] by (auto simp: list_all_iff)
qed

lemma counter_lines_kept: "kept_lines (counter_lines r @ rest) = counter_lines r @ kept_lines rest"
  by (simp add: counter_lines_def Let_def kept_line business_keys_def kept_names_def)

lemma state_lines_kept: "kept_lines (state_lines r @ rest) = state_lines r @ kept_lines rest"
  by (simp add: state_lines_def Let_def kept_line business_keys_def kept_names_def)

lemma order_lines_kept: "kept_lines (order_lines r @ rest) = order_lines r @ kept_lines rest"
  by (simp add: order_lines_def Let_def kept_line business_keys_def kept_names_def)

lemma execution_lines_dropped: "kept_lines (execution_lines r @ rest) = kept_lines rest"
  by (simp add: execution_lines_def Let_def dropped_line other_keys_def)

text \<open>A line of text up to its first equality sign.\<close>

lemma dropped_text:
  assumes "k \<in> set other_keys" "CHR 0x0A \<notin> set v"
  shows "kept_lines (k @ CHR ''='' # v @ CHR 0x0A # r) = kept_lines r"
  using dropped_line [OF assms] by (simp add: line_of_def)

lemma name_lines [simp]:
  "CHR 0x0A \<notin> set (side_name sd)" "CHR 0x0A \<notin> set (reject_reason_name rr)" "CHR 0x0A \<notin> set (cast_state_name i)"
proof -
  show "CHR 0x0A \<notin> set (side_name sd)" by (simp add: side_name_def)
  show "CHR 0x0A \<notin> set (reject_reason_name rr)" by (cases rr) (simp_all add: reject_reason_name_def)
  have "CHR 0x0A \<notin> set (order_state_name st)" for st by (cases st) (simp_all add: order_state_name_def)
  then show "CHR 0x0A \<notin> set (cast_state_name i)" by (simp add: cast_state_name_def split: option.split)
qed

lemma log_lines_dropped: "kept_lines (concat (map trade_event_log es) @ r) = kept_lines r"
proof (induction es)
  case (Cons e es)
  have "kept_lines (trade_event_log e @ x) = kept_lines x" for x
  proof -
    have "\<exists>k v. k \<in> set other_keys \<and> CHR 0x0A \<notin> set v \<and> trade_event_log e = k @ CHR ''='' # v @ [CHR 0x0A]"
    proof (cases "te_kind e")
      case KFill
      show ?thesis
        by (rule exI [of _ "''fill ts_ns''"], rule exI [of _ "show_int (te_ts_ns e) @ '' side='' @ side_name (te_side e) @
           '' price='' @ show_int (te_price e) @ '' qty='' @ show_int (te_quantity e)"])
          (simp add: trade_event_log_def KFill other_keys_def)
    next
      case KOmsTransition
      show ?thesis
        by (rule exI [of _ "''oms_transition ts_ns''"], rule exI [of _ "show_int (te_ts_ns e) @ '' from='' @ cast_state_name (te_price e) @
           '' to='' @ cast_state_name (te_quantity e)"])
          (simp add: trade_event_log_def KOmsTransition other_keys_def)
    next
      case KVenueReject
      show ?thesis
        by (rule exI [of _ "''venue_reject ts_ns''"], rule exI [of _ "show_int (te_ts_ns e) @ '' side='' @ side_name (te_side e) @
           '' qty='' @ show_int (te_quantity e) @ '' reason='' @ reject_reason_name (te_reject_reason e)"])
          (simp add: trade_event_log_def KVenueReject other_keys_def)
    next
      case KRiskReject
      show ?thesis
        by (rule exI [of _ "''reject ts_ns''"], rule exI [of _ "show_int (te_ts_ns e) @ '' side='' @ side_name (te_side e) @
           '' qty='' @ show_int (te_quantity e) @ '' reason='' @ reject_reason_name (te_reject_reason e)"])
          (simp add: trade_event_log_def KRiskReject other_keys_def)
    qed
    then show ?thesis using dropped_text by auto
  qed
  then show ?case using Cons.IH by simp
qed simp

lemma latency_text_dropped:
  assumes "latency_summary_text ls name = Some x" "''latency['' @ name @ ''] count'' \<in> set other_keys"
  shows "kept_lines (x @ r) = kept_lines r"
proof -
  obtain v where "x = (''latency['' @ name @ ''] count'') @ CHR ''='' # v @ [CHR 0x0A]" "CHR 0x0A \<notin> set v"
    using assms(1) by (auto simp: latency_summary_text_def Option.bind_eq_Some_conv)
  then show ?thesis using dropped_text [OF assms(2)] by simp
qed

lemma latency_lines_dropped:
  assumes "latency_lines mode lat = Some x"
  shows "kept_lines (x @ r) = kept_lines r"
proof -
  have "''latency[strategy] count'' \<in> set other_keys" "''latency[risk] count'' \<in> set other_keys"
      "''latency[execution] count'' \<in> set other_keys" "''latency[accounting] count'' \<in> set other_keys"
      "''latency[event_sink_sync] count'' \<in> set other_keys" "''latency[event_enqueue_async] count'' \<in> set other_keys"
      "''latency[end_to_end] count'' \<in> set other_keys"
    by (simp_all add: other_keys_def)
  then show ?thesis
    using assms by (auto simp: latency_lines_def Option.bind_eq_Some_conv latency_text_dropped split: if_splits)
qed

lemma layout_dropped: "kept_lines layout_summary = []"
proof -
  have l: "kept_lines (layout_line name widths @ r) = kept_lines r" if "''layout['' @ name @ ''] size'' \<in> set other_keys" for name widths r
    using dropped_text [OF that, of "show_nat n @ '' align='' @ show_nat a" r for n a]
    by (simp add: layout_line_def split: prod.split)
  show ?thesis
    unfolding layout_summary_def using l [of "''PnlState''" _ "[]"] by (simp add: l other_keys_def)
qed

section \<open>The artifact of a run\<close>

text \<open>What the report shows of the business state.\<close>

record CoreView =
  view_journal :: "TradeEvent list"
  view_counters :: ReplayCounters
  view_position :: PositionState
  view_pnl :: PnlState
  view_order :: "OrderState \<times> i32 \<times> i32"

definition core_view :: "ReplayCore \<Rightarrow> CoreView" where
  "core_view c = \<lparr>view_journal = core_journal c, view_counters = core_counters c,
     view_position = position_state (core_accounting c), view_pnl = pnl_state (core_accounting c),
     view_order = (o_state (core_order c), o_cum_qty (core_order c), o_leaves_qty (core_order c))\<rparr>"

text \<open>The result of a run that delivered everything, as far as the artifact shows it.\<close>

definition view_result :: "CoreView \<Rightarrow> ReplayResult" where
  "view_result v = (case view_order v of (state, cum, leaves) \<Rightarrow>
     \<lparr>res_counters = (view_counters v)\<lparr>persisted_events := accepted_events (view_counters v), dropped_events := 0\<rparr>,
      res_position = view_position v, res_pnl = view_pnl v,
      res_order = idle_order\<lparr>o_state := state, o_cum_qty := cum, o_leaves_qty := leaves\<rparr>,
      res_execution_stats = stats simulator_default,
      res_latencies = \<lparr>lat_strategy = latency_new, lat_risk = latency_new, lat_execution = latency_new,
        lat_accounting = latency_new, lat_event_sink = latency_new, lat_end_to_end = latency_new\<rparr>,
      res_sink_failed = False, res_latency_overflow = False\<rparr>)"

definition summary_lines :: "ExecutionStyle \<Rightarrow> TimestampNs \<Rightarrow> ReplayResult \<Rightarrow> string" where
  "summary_lines style after result =
     line_of ''execution_mode'' (if style = Aggressive then ''aggressive'' else ''passive'') @
     line_of ''passive_cancel_after_ns'' (show_int after) @ counter_lines result @ line_of ''run_status'' ''ok'' @
     line_of ''failure_reasons'' ''none'' @ state_lines result @ order_lines result"

definition artifact :: "ExecutionStyle \<Rightarrow> TimestampNs \<Rightarrow> CoreView \<Rightarrow> string" where
  "artifact style after v = ''# journal'' @ newline @ (journal_header @ concat (map journal_record (view_journal v))) @
     ''# summary'' @ newline @ summary_lines style after (view_result v)"

lemma summary_view:
  assumes "res_counters r = (core_counters c)\<lparr>persisted_events := accepted_events (core_counters c), dropped_events := 0\<rparr>"
    and "res_position r = position_state (core_accounting c)" "res_pnl r = pnl_state (core_accounting c)" "res_order r = core_order c"
  shows "summary_lines style after r = summary_lines style after (view_result (core_view c))"
  using assms by (simp add: summary_lines_def view_result_def core_view_def counter_lines_def state_lines_def order_lines_def Let_def)

lemma report_kept:
  assumes run: "finish_run w config False r (concat (map trade_event_log es)) p = Some run" and clean: "clean_run w r p"
    and path: "CHR 0x0A \<notin> set (run_persistence_path config)"
  shows "kept_lines (out_text run) = summary_lines (run_execution_style config) (run_passive_cancel_after_ns config) r"
proof -
  obtain y where y: "latency_lines (run_sink_mode config) (res_latencies r) = Some y"
    using run by (auto simp: finish_run_def Let_def Option.bind_eq_Some_conv)
  have out: "out_text run = concat (map trade_event_log es) @ line_of ''sink_mode'' (sink_mode_name (run_sink_mode config)) @
      line_of ''persistence_path'' (run_persistence_path config) @
      line_of ''execution_mode'' (if run_execution_style config = Aggressive then ''aggressive'' else ''passive'') @
      line_of ''passive_cancel_after_ns'' (show_int (run_passive_cancel_after_ns config)) @
      counter_lines r @ line_of ''run_status'' ''ok'' @ line_of ''failure_reasons'' ''none'' @
      state_lines r @ y @ execution_lines r @ order_lines r @ layout_summary"
    using run clean y by (auto simp: finish_run_def Let_def clean_run_def failure_reasons_def line_of_def)
  have k: "''sink_mode'' \<in> set other_keys" "''persistence_path'' \<in> set other_keys"
      "''execution_mode'' \<in> set business_keys" "''passive_cancel_after_ns'' \<in> set business_keys"
      "''run_status'' \<in> set business_keys" "''failure_reasons'' \<in> set business_keys"
    by (simp_all add: other_keys_def business_keys_def kept_names_def)
  have v: "CHR 0x0A \<notin> set (sink_mode_name m)" "CHR 0x0A \<notin> set (if b then ''aggressive'' else ''passive'')" for m b
    by (simp_all add: sink_mode_name_def)
  show ?thesis
    unfolding out summary_lines_def
    by (simp add: log_lines_dropped dropped_line kept_line k v path counter_lines_kept state_lines_kept order_lines_kept
        execution_lines_dropped latency_lines_dropped [OF y] layout_dropped del: if_split)
qed

lemma successful_artifact:
  assumes run: "program w argv = Some run" "exit_code run = EXIT_SUCCESS" "faithful_stream w text_of"
    and config: "parse_runtime_config argv = Inr config" "CHR 0x0A \<notin> set (run_persistence_path config)"
    and ticks: "read_all (world_files w) (Some (argv ! 1)) = Inr ticks"
  obtains c where "k_run (run_execution_style config) (run_passive_cancel_after_ns config) core_init ticks = Some c"
    "normalize (out_text run) (text_of (the (persistence_stream run))) =
       artifact (run_execution_style config) (run_passive_cancel_after_ns config) (core_view c)"
  using run(1)
proof (cases rule: program_cases)
  case (finished config' ticks' stream r out p)
  let ?s = "world_write w stream journal_header"
  have same: "config' = config" "ticks' = ticks" using finished(1) config(1) ticks by (simp_all add: reached_def)
  have clean: "world_good w ?s" "clean_run w r p" "persistence_stream run = Some (world_flush w p)"
    using finish_run_exit [OF finished(3)] run(2) by simp_all
  show ?thesis
  proof (rule run_replay_resultE [OF finished(2)])
    fix st sd
    assume c: "k_run (execution_style (replay_config_of config')) (passive_cancel_after_ns (replay_config_of config')) core_init ticks' = Some (core st)"
      "side_inv (logging_env w) (replay_config_of config') ([], ?s) sd (core_journal (core st))" "ring_contents (side_queue sd) = []"
      "r = replay_result (st\<lparr>channel := sd\<rparr>)" "(out, p) = side_sink sd"
    let ?j = "core_journal (core st)"
    have k: "k_run (run_execution_style config) (run_passive_cancel_after_ns config) core_init ticks = Some (core st)"
      using c(1) by (simp add: replay_config_of_def same)
    have d: "side_dropped sd = 0" "\<not> side_sink_failed sd" using clean(2) by (simp_all add: clean_run_def c(4) replay_result_def)
    have f: "feed (env_consume (logging_env w)) ([], ?s) ?j = (length ?j, side_sink sd) \<and> side_persisted sd = int (length ?j)"
      by (rule finished_channel [OF c(2,3)]) (use d in \<open>auto dest: subseq_same_length\<close>)
    then have o: "out = concat (map trade_event_log ?j)" "text_of p = text_of ?s @ concat (map journal_record ?j)"
      using logging_feed [OF run(3)] logging_feed_out by (fastforce simp: logging_env_def simp flip: c(5))+
    have "text_of stream = []" using finished(1) run(3) unfolding reached_def faithful_stream_def by blast
    moreover have "text_of ?s = text_of stream @ journal_header" "text_of (world_flush w p) = text_of p"
      using run(3) clean by (simp_all add: faithful_stream_def clean_run_def)
    ultimately have t: "text_of (world_flush w p) = journal_header @ concat (map journal_record ?j)" using o(2) by simp
    have "kernel_inv (run_execution_style config) (core st)" using postD [OF k_run_post [OF kernel_inv_init] k] by simp
    then have "accepted_events (core_counters (core st)) = int (length ?j)" by (simp add: kernel_inv_def books_def Let_def)
    then have "summary_lines (run_execution_style config) (run_passive_cancel_after_ns config) r =
        summary_lines (run_execution_style config) (run_passive_cancel_after_ns config) (view_result (core_view (core st)))"
      using f d by (intro summary_view) (simp_all add: c(4) replay_result_def)
    moreover have "kept_lines (out_text run) = summary_lines (run_execution_style config) (run_passive_cancel_after_ns config) r"
      using finished(3) clean(1,2) config(2) by (intro report_kept) (simp_all add: o(1) same)
    ultimately show ?thesis
      by (intro that [OF k]) (simp add: normalize_def artifact_def clean(3) t, simp add: core_view_def)
  qed
qed (use run(2) in \<open>auto simp: EXIT_SUCCESS_def EXIT_FAILURE_def\<close>)

section \<open>Properties\<close>

text \<open>
  C9. Deterministic output: two successful runs of the program that accept the same ticks under the
  same execution style and cancel delay have the same journal file and the same selected lines
  of the report, whatever their sink modes, output paths (of one line), streams, clocks and
  scheduling.
\<close>

theorem program_output_deterministic:
  assumes "program w argv = Some run" "exit_code run = EXIT_SUCCESS" "faithful_stream w text_of"
    and "program w' argv' = Some run'" "exit_code run' = EXIT_SUCCESS" "faithful_stream w' text_of'"
    and "parse_runtime_config argv = Inr config" "CHR 0x0A \<notin> set (run_persistence_path config)"
    and "parse_runtime_config argv' = Inr config'" "CHR 0x0A \<notin> set (run_persistence_path config')"
    and "read_all (world_files w) (Some (argv ! 1)) = Inr ticks" "read_all (world_files w') (Some (argv' ! 1)) = Inr ticks"
    and "run_execution_style config' = run_execution_style config"
    and "run_passive_cancel_after_ns config' = run_passive_cancel_after_ns config"
  shows "normalize (out_text run) (text_of (the (persistence_stream run))) =
    normalize (out_text run') (text_of' (the (persistence_stream run')))"
proof -
  obtain c where "k_run (run_execution_style config) (run_passive_cancel_after_ns config) core_init ticks = Some c"
    "normalize (out_text run) (text_of (the (persistence_stream run))) =
       artifact (run_execution_style config) (run_passive_cancel_after_ns config) (core_view c)"
    by (rule successful_artifact [OF assms(1-3,7,8,11)])
  moreover obtain c' where "k_run (run_execution_style config') (run_passive_cancel_after_ns config') core_init ticks = Some c'"
    "normalize (out_text run') (text_of' (the (persistence_stream run'))) =
       artifact (run_execution_style config') (run_passive_cancel_after_ns config') (core_view c')"
    by (rule successful_artifact [OF assms(4-6,9,10,12)])
  ultimately show ?thesis using assms(13,14) by simp
qed

theorem program_output_deterministic_witness:
  "\<exists>run run'. program text_world [''prog'', ''f'', ''sync''] = Some run \<and>
     program (text_world\<lparr>world_clock := (\<lambda>i. int (i mod 7))\<rparr>) [''prog'', ''f'', ''sync''] = Some run' \<and>
     normalize (out_text run) (the (persistence_stream run)) = normalize (out_text run') (the (persistence_stream run'))"
proof -
  let ?w = "text_world\<lparr>world_clock := (\<lambda>i. int (i mod 7))\<rparr>" and ?a = "[''prog'', ''f'', ''sync'']"
  obtain run where run: "program text_world ?a = Some run" "exit_code run = EXIT_SUCCESS" by (rule text_world_succeeds)
  have clock: "0 \<le> int (i mod 7) \<and> int (i mod 7) \<le> 1000" for i :: nat
    using mod_less_divisor [of 7 i] by simp
  obtain run' where run': "program ?w ?a = Some run'" "exit_code run' = EXIT_SUCCESS"
    by (rule clocked_world_succeeds [OF clock])
  have f: "faithful_stream text_world id" "faithful_stream ?w id" by (simp_all add: faithful_stream_def text_world_def)
  have c: "parse_runtime_config ?a = Inr (default_config\<lparr>run_sink_mode := SinkSync\<rparr>)"
    by (simp add: parse_runtime_config_def parse_sink_mode_def and_then_def Let_def)
  have p: "CHR 0x0A \<notin> set (run_persistence_path (default_config\<lparr>run_sink_mode := SinkSync\<rparr>))" by (simp add: default_config_def)
  have t: "read_all (world_files text_world) (Some (?a ! 1)) = Inr example_ticks" "read_all (world_files ?w) (Some (?a ! 1)) = Inr example_ticks"
    using text_world_reads by simp_all
  from program_output_deterministic [OF run f(1) run' f(2) c p c p t refl refl] show ?thesis using run(1) run'(1) by auto
qed

end
