(* ===== verification/Tick_Generator.thy ===== *)
theory Tick_Generator
  imports Trading_Main
begin

text \<open>
  The benchmark data generator \<^verbatim>\<open>bench/generate_replay.cpp\<close>: a linear congruential sequence on
  64-bit words drives the prices of a tick file. \<^verbatim>\<open>size_t\<close> is an integer within its range where
  the code guards it; the timestamp product is a checked 64-bit product.
\<close>

section \<open>The count argument\<close>

fun scan_count :: "int \<Rightarrow> string \<Rightarrow> int option" where
  "scan_count acc [] = Some acc"
| "scan_count acc (c # cs) = (case char_digit c of
     None \<Rightarrow> None
   | Some digit \<Rightarrow> if acc > (SIZE_MAX - int digit) div 10 then None else scan_count (acc * 10 + int digit) cs)"

definition parse_positive_count :: "string \<Rightarrow> int option" where
  "parse_positive_count text =
     (if text = [] then None
      else case scan_count 0 text of None \<Rightarrow> None | Some n \<Rightarrow> if n \<noteq> 0 then Some n else None)"

section \<open>The sequence\<close>

definition next_state :: "64 word \<Rightarrow> 64 word" where
  "next_state state = state * 6364136223846793005 + 1442695040888963407"

definition drift_of :: "64 word \<Rightarrow> i64" where
  "drift_of state = uint (drop_bit 32 state mod 401) - 200"

definition generate_tick :: "nat \<Rightarrow> 64 word \<Rightarrow> MarketTick option" where
  "generate_tick i state = do {
     let bid = 99800 + drift_of state;
     let ask = bid + 200;
     ts \<leftarrow> mul64 (int i + 1) 1000;
     rts \<leftarrow> add64 ts 50;
     Some \<lparr>exchange_ts_ns = ts, receive_ts_ns = rts, bid_price = bid, ask_price = ask, symbol_id = 1, bid_qty = 50, ask_qty = 50\<rparr>
   }"

definition generate_row :: "MarketTick \<Rightarrow> string" where
  "generate_row t = show_int (exchange_ts_ns t) @ '','' @ show_int (receive_ts_ns t) @ '',1,'' @ show_int (bid_price t) @ '','' @
     show_int (ask_price t) @ '',50,50'' @ newline"

text \<open>The loop: \<open>n\<close> rows from index \<open>i\<close>, written to the stream one after the other.\<close>

fun generate_loop :: "('o \<Rightarrow> string \<Rightarrow> 'o) \<Rightarrow> nat \<Rightarrow> nat \<Rightarrow> 64 word \<Rightarrow> 'o \<Rightarrow> 'o option" where
  "generate_loop write 0 i state out = Some out"
| "generate_loop write (Suc n) i state out = do {
     let state = next_state state;
     t \<leftarrow> generate_tick i state;
     generate_loop write n (Suc i) state (write out (generate_row t))
   }"

definition generator_seed :: "64 word" where "generator_seed = 0x4d595df4d0f33173"

definition tick_header :: string where
  "tick_header = ''exchange_ts_ns,receive_ts_ns,symbol_id,bid_price,ask_price,bid_qty,ask_qty''"

definition generate_program :: "'o World \<Rightarrow> string list \<Rightarrow> 'o ProgramRun option" where
  "generate_program w argv =
     (if length argv \<noteq> 3 then Some (failing [] ''usage: generate_replay <output.csv> <tick-count>'' None)
      else case parse_positive_count (argv ! 2) of
        None \<Rightarrow> Some (failing [] ''tick-count must be a positive integer'' None)
      | Some tick_count \<Rightarrow>
        (case world_open w (argv ! 1) of
          None \<Rightarrow> Some (failing [] (''failed to open output: '' @ argv ! 1) None)
        | Some out \<Rightarrow> do {
            out \<leftarrow> generate_loop (world_write w) (nat tick_count) 0 generator_seed (world_write w out (tick_header @ newline));
            Some (if \<not> world_good w out then failing [] (''failed while writing output: '' @ argv ! 1) (Some out)
                  else \<lparr>exit_code = EXIT_SUCCESS,
                    out_text = ''generated_ticks='' @ show_int tick_count @ '' seed=0x4d595df4d0f33173 output='' @ argv ! 1 @ newline,
                    err_text = [], persistence_stream = Some out\<rparr>)
          }))"

section \<open>What is generated\<close>

lemma scan_count_spec:
  "0 \<le> acc \<Longrightarrow> acc \<le> SIZE_MAX \<Longrightarrow> scan_count acc cs = Some n \<longleftrightarrow> read_digits (nat acc) cs = Some (nat n) \<and> 0 \<le> n \<and> n \<le> SIZE_MAX"
proof (induction cs arbitrary: acc)
  case Nil
  then show ?case by auto
next
  case (Cons c cs)
  show ?case
  proof (cases "char_digit c")
    case (Some d)
    have d: "d \<le> 9" using Some by (auto simp: char_digit_def Let_def split: if_splits)
    have grow: "m \<le> k" if "read_digits m xs = Some k" for m k xs
      using that
    proof (induction xs arbitrary: m)
      case (Cons x xs)
      then show ?case by (fastforce split: option.splits)
    qed simp
    have nat: "nat (acc * 10 + int d) = 10 * nat acc + d" using Cons.prems by simp
    show ?thesis
    proof (cases "acc > (SIZE_MAX - int d) div 10")
      case True
      then have "SIZE_MAX < acc * 10 + int d" unfolding SIZE_MAX_def by linarith
      then have "\<not> (read_digits (10 * nat acc + d) cs = Some (nat n) \<and> n \<le> SIZE_MAX \<and> 0 \<le> n)"
        using grow [of "10 * nat acc + d" cs "nat n"] Cons.prems by linarith
      then show ?thesis using Some True by auto
    next
      case False
      then have "acc * 10 + int d \<le> SIZE_MAX" unfolding SIZE_MAX_def by linarith
      then show ?thesis using Cons.IH [of "acc * 10 + int d"] Cons.prems Some False nat by simp
    qed
  qed simp
qed

lemma parse_positive_count_exact:
  "parse_positive_count str = Some n \<longleftrightarrow> read_nat str = Some (nat n) \<and> 0 < n \<and> n \<le> SIZE_MAX"
proof (cases "str = []")
  case False
  then have "parse_positive_count str = Some n \<longleftrightarrow> scan_count 0 str = Some n \<and> n \<noteq> 0"
    by (cases "scan_count 0 str") (auto simp: parse_positive_count_def)
  moreover have "scan_count 0 str = Some n \<longleftrightarrow> read_nat str = Some (nat n) \<and> 0 \<le> n \<and> n \<le> SIZE_MAX"
    using scan_count_spec [of 0 str n] False by (simp add: SIZE_MAX_def read_nat_def)
  ultimately show ?thesis by linarith
qed (simp add: parse_positive_count_def read_nat_def)

lemma drift_bounds: "-200 \<le> drift_of s \<and> drift_of s \<le> 200"
proof -
  have "drop_bit 32 s mod 401 < (401 :: 64 word)" by (rule word_mod_less_divisor) simp
  then have "uint (drop_bit 32 s mod 401) < 401" by (simp add: word_less_def)
  then show ?thesis using uint_nonnegative [of "drop_bit 32 s mod 401"] by (simp add: drift_of_def)
qed

fun generated :: "nat \<Rightarrow> nat \<Rightarrow> 64 word \<Rightarrow> MarketTick list" where
  "generated 0 i state = []"
| "generated (Suc n) i state =
     \<lparr>exchange_ts_ns = (int i + 1) * 1000, receive_ts_ns = (int i + 1) * 1000 + 50, bid_price = 99800 + drift_of (next_state state),
      ask_price = 100000 + drift_of (next_state state), symbol_id = 1, bid_qty = 50, ask_qty = 50\<rparr>
     # generated n (Suc i) (next_state state)"

lemma show_constants: "show_nat 1 = ''1''" "show_int 50 = ''50''" "show_nat (Suc 0) = ''1''"
  by code_simp+

lemma generate_row_tick: "symbol_id t = 1 \<Longrightarrow> bid_qty t = 50 \<Longrightarrow> ask_qty t = 50 \<Longrightarrow> generate_row t = tick_row t @ newline"
  by (simp add: generate_row_def tick_row_def show_constants)

lemma generate_loop_text:
  "(int i + int n) * 1000 + 50 \<le> INT64_MAX \<Longrightarrow>
   generate_loop (@) n i state out = Some (out @ rows_text newline (generated n i state))"
proof (induction n arbitrary: i state out)
  case (Suc n)
  have "generate_tick i (next_state state) = Some (hd (generated (Suc n) i state))"
    using Suc.prems by (simp add: generate_tick_def checked_defs chk64_def in_i64_def)
  moreover have "generate_row (hd (generated (Suc n) i state)) = tick_row (hd (generated (Suc n) i state)) @ newline"
    by (rule generate_row_tick) simp_all
  ultimately show ?case
    using Suc.IH [of "Suc i"] Suc.prems by (simp add: Let_def rows_text_def algebra_simps)
qed (simp add: rows_text_def)

lemma generated_elem:
  "t \<in> set (generated n i state) \<Longrightarrow> 99600 \<le> bid_price t \<and> bid_price t \<le> 100000 \<and> ask_price t = bid_price t + 200 \<and>
     symbol_id t = 1 \<and> bid_qty t = 50 \<and> ask_qty t = 50 \<and> receive_ts_ns t = exchange_ts_ns t + 50 \<and>
     (int i + 1) * 1000 \<le> exchange_ts_ns t \<and> exchange_ts_ns t \<le> (int i + int n) * 1000"
proof (induction n arbitrary: i state)
  case (Suc n)
  then show ?case
  proof (cases "t = hd (generated (Suc n) i state)")
    case True
    then show ?thesis using drift_bounds [of "next_state state"] by simp
  next
    case False
    then have "t \<in> set (generated n (Suc i) (next_state state))" using Suc.prems by auto
    from Suc.IH [OF this] show ?thesis by (auto simp: algebra_simps)
  qed
qed simp

lemma generated_sorted: "sorted (map receive_ts_ns (generated n i state))"
proof (induction n arbitrary: i state)
  case (Suc n)
  have "(int i + 1) * 1000 + 50 \<le> receive_ts_ns t" if "t \<in> set (generated n (Suc i) (next_state state))" for t
    using generated_elem [OF that] by simp
  then show ?case using Suc.IH by simp
qed simp

lemma generated_valid:
  assumes "int n * 1000 + 50 \<le> INT64_MAX"
  shows "feed_valid (generated n 0 state)"
proof -
  have "tick_typed t \<and> values_valid t" if "t \<in> set (generated n 0 state)" for t
    using generated_elem [OF that] assms by (auto simp: tick_typed_def values_valid_def in_i64_def in_i32_def)
  moreover have "symbol_id t = symbol_id (hd (generated n 0 state))" if "t \<in> set (generated n 0 state)" for t
    using generated_elem [OF that] generated_elem [of "hd (generated n 0 state)"] that by (cases n) auto
  ultimately show ?thesis using generated_sorted by (simp add: feed_valid_def list_all_iff)
qed

text \<open>
  C38. The generated file can be replayed: for every count whose timestamps fit, the text the
  generator writes is accepted by the tick reader, which returns that many ticks, with a
  spread of 200 and bids between 99600 and 100000.
\<close>

theorem generated_file_accepted:
  assumes "parse_positive_count count_text = Some n" "n * 1000 + 50 \<le> INT64_MAX" "path \<noteq> []"
    and "generate_loop (@) (nat n) 0 generator_seed (tick_header @ newline) = Some written"
    and "fs path = Some \<lparr>stream_text = written, stream_fault = False\<rparr>"
  shows "\<exists>ticks. read_all fs (Some path) = Inr ticks \<and> length ticks = nat n \<and>
    list_all (\<lambda>t. 99600 \<le> bid_price t \<and> bid_price t \<le> 100000 \<and> ask_price t = bid_price t + 200) ticks"
proof -
  let ?ticks = "generated (nat n) 0 generator_seed"
  have n: "0 < n" using assms(1) by (simp add: parse_positive_count_exact)
  have len: "length (generated m i s) = m" for m i s by (induction m arbitrary: i s) simp_all
  have w: "written = tick_header @ newline @ rows_text newline ?ticks"
    using generate_loop_text [of 0 "nat n" generator_seed "tick_header @ newline"] assms(2,4) n by simp
  have v: "feed_valid ?ticks" using generated_valid [of "nat n"] assms(2) n by simp
  have h: "CHR 0x0A \<notin> set tick_header" by (simp add: tick_header_def)
  have "?ticks \<noteq> []" using n by (cases "nat n") simp_all
  then have "read_all fs (Some path) = Inr ?ticks"
    using read_rows_printed [OF v, of newline path False] assms(3,5) getline_header [OF h]
    by (simp add: read_all_def Let_def w is_eol_def)
  moreover have "list_all (\<lambda>t. 99600 \<le> bid_price t \<and> bid_price t \<le> 100000 \<and> ask_price t = bid_price t + 200) ?ticks"
    using generated_elem by (simp add: list_all_iff)
  ultimately show ?thesis using len by blast
qed

theorem generated_file_accepted_witness:
  "\<exists>written ticks. generate_loop (@) 3 0 generator_seed (tick_header @ newline) = Some written \<and>
     read_all (\<lambda>_. Some \<lparr>stream_text = written, stream_fault = False\<rparr>) (Some ''f'') = Inr ticks \<and> length ticks = 3"
proof -
  obtain written where g: "generate_loop (@) (nat 3) 0 generator_seed (tick_header @ newline) = Some written"
    using generate_loop_text [of 0 3] by simp
  have "parse_positive_count ''3'' = Some 3" by code_simp
  from generated_file_accepted [OF this _ _ g, of "''f''" "\<lambda>_. Some \<lparr>stream_text = written, stream_fault = False\<rparr>"]
  show ?thesis using g by auto
qed

end
