(* ===== verification/Golden_Runs.thy ===== *)
theory Golden_Runs
  imports Run_Artifact Tick_Generator
begin

text \<open>
  The deterministic replays of \<^verbatim>\<open>tests/golden\<close>, run through the model: every successful run of the
  program on a fixture, with the arguments of its case in \<^verbatim>\<open>CMakeLists.txt\<close> and either sink mode, has
  the recorded file as its normalized artifact, byte by byte.
\<close>

section \<open>Rendering by rewriting\<close>

definition text_lines :: "string list \<Rightarrow> string" where
  "text_lines ls = concat (map (\<lambda>l. l @ newline) ls)"

definition event :: "EventKind \<Rightarrow> TimestampNs \<Rightarrow> Side \<Rightarrow> Price \<Rightarrow> i32 \<Rightarrow> RejectReason \<Rightarrow> TradeEvent" where
  "event kind ts side price qty reason = \<lparr>te_ts_ns = ts, te_price = price, te_quantity = qty, te_kind = kind,
     te_side = side, te_reject_reason = reason\<rparr>"

lemmas rendering = text_lines_def rows_text_def tick_row_def sample_tick_def tick_header_def decimal_text
  journal_header_def journal_record_def event_def kind_name_def side_name_def reject_reason_name_def
  artifact_def summary_lines_def view_result_def Let_def line_of_def counter_lines_def state_lines_def order_lines_def order_state_code_def

section \<open>Fixtures and their reports\<close>

definition one_file :: "string \<Rightarrow> FileSystem" where
  "one_file contents = (\<lambda>_. Some \<lparr>stream_text = contents, stream_fault = False\<rparr>)"

definition reproduces :: "string list \<Rightarrow> ExecutionStyle \<Rightarrow> TimestampNs \<Rightarrow> string list \<Rightarrow> bool" where
  "reproduces fixture style after golden =
     (case read_all (one_file (text_lines fixture)) (Some ''fixture'') of
        Inl e \<Rightarrow> False
      | Inr ticks \<Rightarrow> (case k_run style after core_init ticks of
          None \<Rightarrow> False
        | Some c \<Rightarrow> artifact style after (core_view c) = text_lines golden))"

lemma reproducesI:
  assumes "text_lines fixture = tick_header @ newline @ rows_text newline ticks" "feed_valid ticks \<and> ticks \<noteq> []"
    and "ok (k_run style after core_init ticks) (\<lambda>c. core_view c = v)" "artifact style after v = text_lines golden"
  shows "reproduces fixture style after golden"
proof -
  have "CHR 0x0A \<notin> set tick_header" by (simp add: tick_header_def)
  then have "read_all (one_file (text_lines fixture)) (Some ''fixture'') = Inr ticks"
    using assms(2) read_rows_printed [of ticks newline "''fixture''" False] getline_header [of tick_header]
    unfolding assms(1) by (simp add: read_all_def Let_def one_file_def is_eol_def)
  then show ?thesis using assms(3,4) by (auto simp: reproduces_def ok_iff)
qed

text \<open>
  Whatever the sink mode, the output path, the stream, the clock and the scheduling, a
  successful run on the fixture yields the golden file.
\<close>

lemma reproduces_run:
  assumes "reproduces fixture style after golden"
    and input: "world_files w (argv ! 1) = Some \<lparr>stream_text = text_lines fixture, stream_fault = False\<rparr>" "argv ! 1 \<noteq> []"
    and config: "parse_runtime_config argv = Inr config" "run_execution_style config = style"
      "run_passive_cancel_after_ns config = after" "CHR 0x0A \<notin> set (run_persistence_path config)"
    and run: "program w argv = Some run" "exit_code run = EXIT_SUCCESS" "faithful_stream w text_of"
  shows "normalize (out_text run) (text_of (the (persistence_stream run))) = text_lines golden"
proof -
  obtain ticks c where t: "read_all (one_file (text_lines fixture)) (Some ''fixture'') = Inr ticks"
      "k_run style after core_init ticks = Some c" "artifact style after (core_view c) = text_lines golden"
    using assms(1) by (auto simp: reproduces_def split: sum.splits option.splits)
  have "read_all (world_files w) (Some (argv ! 1)) = Inr ticks"
    using t(1) input by (simp add: accepted_iff one_file_def)
  from successful_artifact [OF run config(1,4) this] show ?thesis using t(2,3) config(2,3) by auto
qed

section \<open>The recorded runs\<close>

subsection \<open>\<^verbatim>\<open>aggressive_full\<close>\<close>

definition aggressive_full_csv :: "string list" where
  "aggressive_full_csv = [''exchange_ts_ns,receive_ts_ns,symbol_id,bid_price,ask_price,bid_qty,ask_qty'', ''1000,1000,1,99500,99900,50,50'',
     ''2000,2000,1,99700,100100,50,50'']"

definition aggressive_full_txt :: "string list" where
  "aggressive_full_txt = [''# journal'', ''event_kind,ts_ns,side,price,quantity,reject_reason'', ''OMS_TRANSITION,1000,BUY,0,1,NONE'',
     ''OMS_TRANSITION,2000,BUY,1,2,NONE'', ''OMS_TRANSITION,2000,BUY,2,5,NONE'', ''FILL,2000,BUY,100100,50,NONE'',
     ''# summary'', ''execution_mode=aggressive'', ''passive_cancel_after_ns=3000'', ''strategy_signals=1'',
     ''local_submissions=1'', ''gateway_submissions=1'', ''risk_rejects=0'', ''venue_rejects=0'',
     ''invalid_venue_events=0'', ''fills=1'', ''persisted_events=4'', ''dropped_async_events=0'', ''events.accepted=4'',
     ''events.persisted=4'', ''events.dropped=0'', ''run_status=ok'', ''failure_reasons=none'',
     ''venue_events.batch_overflow=0'', ''venue_events.wrong_state=0'', ''venue_events.wrong_order=0'',
     ''venue_events.invalid_quantity=0'', ''venue_events.invalid_venue_order_id=0'', ''accounting.rejected_fills=0'',
     ''net_qty=50'', ''avg_price=100100'', ''realized_pnl=0'', ''unrealized_pnl=-10000'', ''cash=-5005000'',
     ''order_manager.state=5'', ''order_manager.cum_qty=50'', ''order_manager.leaves_qty=0'']"

definition aggressive_full_ticks :: "MarketTick list" where
  "aggressive_full_ticks = [sample_tick 1000 99500 99900 50 50, sample_tick 2000 99700 100100 50 50]"

definition aggressive_full_view :: CoreView where
  "aggressive_full_view = \<lparr>view_journal = [event KOmsTransition 1000 Buy 0 1 NoReject, event KOmsTransition 2000 Buy 1 2 NoReject,
     event KOmsTransition 2000 Buy 2 5 NoReject, event KFill 2000 Buy 100100 50 NoReject],
     view_counters = \<lparr>strategy_signals = 1, local_submissions = 1, gateway_submissions = 1, risk_rejects = 0, venue_rejects = 0, invalid_venue_events = 0,
       fills = 1, accepted_events = 4, persisted_events = 0, dropped_events = 0, venue_batch_overflows = 0, wrong_state_events = 0,
       wrong_order_events = 0, invalid_quantity_events = 0, invalid_venue_order_id_events = 0, accounting_rejected_fills = 0\<rparr>,
     view_position = \<lparr>net_qty = 50, avg_price = 100100\<rparr>,
     view_pnl = \<lparr>realized_pnl = 0, unrealized_pnl = - 10000, cash = - 5005000\<rparr>,
     view_order = (Filled, 50, 0)\<rparr>"

lemma golden_aggressive_full: "reproduces aggressive_full_csv Aggressive 3000 aggressive_full_txt"
proof (rule reproducesI)
  show "text_lines aggressive_full_csv = tick_header @ newline @ rows_text newline aggressive_full_ticks"
    by (simp add: aggressive_full_csv_def aggressive_full_ticks_def rendering)
  show "feed_valid aggressive_full_ticks \<and> aggressive_full_ticks \<noteq> []"
    by (simp add: aggressive_full_ticks_def sample_tick_def feed_valid_def values_valid_def tick_typed_def in_i64_def in_i32_def)
  show "ok (k_run Aggressive 3000 core_init aggressive_full_ticks) (\<lambda>c. core_view c = aggressive_full_view)"
    by code_simp
  show "artifact Aggressive 3000 aggressive_full_view = text_lines aggressive_full_txt"
    by (simp add: aggressive_full_txt_def aggressive_full_view_def aggressive_full_ticks_def rendering)
qed

subsection \<open>\<^verbatim>\<open>aggressive_partial_expired\<close>\<close>

definition aggressive_partial_expired_csv :: "string list" where
  "aggressive_partial_expired_csv = [''exchange_ts_ns,receive_ts_ns,symbol_id,bid_price,ask_price,bid_qty,ask_qty'', ''1000,1000,1,99500,99900,50,50'',
     ''2000,2000,1,99700,100100,50,20'']"

definition aggressive_partial_expired_txt :: "string list" where
  "aggressive_partial_expired_txt = [''# journal'', ''event_kind,ts_ns,side,price,quantity,reject_reason'', ''OMS_TRANSITION,1000,BUY,0,1,NONE'',
     ''OMS_TRANSITION,2000,BUY,1,2,NONE'', ''OMS_TRANSITION,2000,BUY,2,3,NONE'', ''FILL,2000,BUY,100100,20,NONE'',
     ''OMS_TRANSITION,2000,BUY,3,8,NONE'', ''# summary'', ''execution_mode=aggressive'', ''passive_cancel_after_ns=3000'',
     ''strategy_signals=1'', ''local_submissions=1'', ''gateway_submissions=1'', ''risk_rejects=0'', ''venue_rejects=0'',
     ''invalid_venue_events=0'', ''fills=1'', ''persisted_events=5'', ''dropped_async_events=0'', ''events.accepted=5'',
     ''events.persisted=5'', ''events.dropped=0'', ''run_status=ok'', ''failure_reasons=none'',
     ''venue_events.batch_overflow=0'', ''venue_events.wrong_state=0'', ''venue_events.wrong_order=0'',
     ''venue_events.invalid_quantity=0'', ''venue_events.invalid_venue_order_id=0'', ''accounting.rejected_fills=0'',
     ''net_qty=20'', ''avg_price=100100'', ''realized_pnl=0'', ''unrealized_pnl=-4000'', ''cash=-2002000'',
     ''order_manager.state=8'', ''order_manager.cum_qty=20'', ''order_manager.leaves_qty=0'']"

definition aggressive_partial_expired_ticks :: "MarketTick list" where
  "aggressive_partial_expired_ticks = [sample_tick 1000 99500 99900 50 50, sample_tick 2000 99700 100100 50 20]"

definition aggressive_partial_expired_view :: CoreView where
  "aggressive_partial_expired_view = \<lparr>view_journal = [event KOmsTransition 1000 Buy 0 1 NoReject, event KOmsTransition 2000 Buy 1 2 NoReject,
     event KOmsTransition 2000 Buy 2 3 NoReject, event KFill 2000 Buy 100100 20 NoReject,
     event KOmsTransition 2000 Buy 3 8 NoReject],
     view_counters = \<lparr>strategy_signals = 1, local_submissions = 1, gateway_submissions = 1, risk_rejects = 0, venue_rejects = 0, invalid_venue_events = 0,
       fills = 1, accepted_events = 5, persisted_events = 0, dropped_events = 0, venue_batch_overflows = 0, wrong_state_events = 0,
       wrong_order_events = 0, invalid_quantity_events = 0, invalid_venue_order_id_events = 0, accounting_rejected_fills = 0\<rparr>,
     view_position = \<lparr>net_qty = 20, avg_price = 100100\<rparr>,
     view_pnl = \<lparr>realized_pnl = 0, unrealized_pnl = - 4000, cash = - 2002000\<rparr>,
     view_order = (Expired, 20, 0)\<rparr>"

lemma golden_aggressive_partial_expired: "reproduces aggressive_partial_expired_csv Aggressive 3000 aggressive_partial_expired_txt"
proof (rule reproducesI)
  show "text_lines aggressive_partial_expired_csv = tick_header @ newline @ rows_text newline aggressive_partial_expired_ticks"
    by (simp add: aggressive_partial_expired_csv_def aggressive_partial_expired_ticks_def rendering)
  show "feed_valid aggressive_partial_expired_ticks \<and> aggressive_partial_expired_ticks \<noteq> []"
    by (simp add: aggressive_partial_expired_ticks_def sample_tick_def feed_valid_def values_valid_def tick_typed_def in_i64_def in_i32_def)
  show "ok (k_run Aggressive 3000 core_init aggressive_partial_expired_ticks) (\<lambda>c. core_view c = aggressive_partial_expired_view)"
    by code_simp
  show "artifact Aggressive 3000 aggressive_partial_expired_view = text_lines aggressive_partial_expired_txt"
    by (simp add: aggressive_partial_expired_txt_def aggressive_partial_expired_view_def aggressive_partial_expired_ticks_def rendering)
qed

subsection \<open>\<^verbatim>\<open>passive_partial\<close>\<close>

definition passive_partial_csv :: "string list" where
  "passive_partial_csv = [''exchange_ts_ns,receive_ts_ns,symbol_id,bid_price,ask_price,bid_qty,ask_qty'', ''1000,1000,1,99900,100000,0,50'',
     ''2000,2000,1,99900,100100,0,50'', ''3000,3000,1,99800,99900,0,20'']"

definition passive_partial_txt :: "string list" where
  "passive_partial_txt = [''# journal'', ''event_kind,ts_ns,side,price,quantity,reject_reason'', ''OMS_TRANSITION,1000,BUY,0,1,NONE'',
     ''OMS_TRANSITION,2000,BUY,1,2,NONE'', ''OMS_TRANSITION,3000,BUY,2,3,NONE'', ''FILL,3000,BUY,99900,20,NONE'',
     ''# summary'', ''execution_mode=passive'', ''passive_cancel_after_ns=10000'', ''strategy_signals=2'',
     ''local_submissions=1'', ''gateway_submissions=1'', ''risk_rejects=0'', ''venue_rejects=0'',
     ''invalid_venue_events=0'', ''fills=1'', ''persisted_events=4'', ''dropped_async_events=0'', ''events.accepted=4'',
     ''events.persisted=4'', ''events.dropped=0'', ''run_status=ok'', ''failure_reasons=none'',
     ''venue_events.batch_overflow=0'', ''venue_events.wrong_state=0'', ''venue_events.wrong_order=0'',
     ''venue_events.invalid_quantity=0'', ''venue_events.invalid_venue_order_id=0'', ''accounting.rejected_fills=0'',
     ''net_qty=20'', ''avg_price=99900'', ''realized_pnl=0'', ''unrealized_pnl=-1000'', ''cash=-1998000'',
     ''order_manager.state=3'', ''order_manager.cum_qty=20'', ''order_manager.leaves_qty=30'']"

definition passive_partial_ticks :: "MarketTick list" where
  "passive_partial_ticks = [sample_tick 1000 99900 100000 0 50, sample_tick 2000 99900 100100 0 50, sample_tick 3000 99800 99900 0 20]"

definition passive_partial_view :: CoreView where
  "passive_partial_view = \<lparr>view_journal = [event KOmsTransition 1000 Buy 0 1 NoReject, event KOmsTransition 2000 Buy 1 2 NoReject,
     event KOmsTransition 3000 Buy 2 3 NoReject, event KFill 3000 Buy 99900 20 NoReject],
     view_counters = \<lparr>strategy_signals = 2, local_submissions = 1, gateway_submissions = 1, risk_rejects = 0, venue_rejects = 0, invalid_venue_events = 0,
       fills = 1, accepted_events = 4, persisted_events = 0, dropped_events = 0, venue_batch_overflows = 0, wrong_state_events = 0,
       wrong_order_events = 0, invalid_quantity_events = 0, invalid_venue_order_id_events = 0, accounting_rejected_fills = 0\<rparr>,
     view_position = \<lparr>net_qty = 20, avg_price = 99900\<rparr>,
     view_pnl = \<lparr>realized_pnl = 0, unrealized_pnl = - 1000, cash = - 1998000\<rparr>,
     view_order = (PartiallyFilled, 20, 30)\<rparr>"

lemma golden_passive_partial: "reproduces passive_partial_csv Passive 10000 passive_partial_txt"
proof (rule reproducesI)
  show "text_lines passive_partial_csv = tick_header @ newline @ rows_text newline passive_partial_ticks"
    by (simp add: passive_partial_csv_def passive_partial_ticks_def rendering)
  show "feed_valid passive_partial_ticks \<and> passive_partial_ticks \<noteq> []"
    by (simp add: passive_partial_ticks_def sample_tick_def feed_valid_def values_valid_def tick_typed_def in_i64_def in_i32_def)
  show "ok (k_run Passive 10000 core_init passive_partial_ticks) (\<lambda>c. core_view c = passive_partial_view)"
    by code_simp
  show "artifact Passive 10000 passive_partial_view = text_lines passive_partial_txt"
    by (simp add: passive_partial_txt_def passive_partial_view_def passive_partial_ticks_def rendering)
qed

subsection \<open>\<^verbatim>\<open>cancel_ack\<close>\<close>

definition cancel_ack_csv :: "string list" where
  "cancel_ack_csv = [''exchange_ts_ns,receive_ts_ns,symbol_id,bid_price,ask_price,bid_qty,ask_qty'', ''1000,1000,1,99900,100000,10,50'',
     ''2000,2000,1,99900,100100,10,50'', ''3000,3000,1,99900,100100,10,50'', ''4000,4000,1,99900,100100,10,50'']"

definition cancel_ack_txt :: "string list" where
  "cancel_ack_txt = [''# journal'', ''event_kind,ts_ns,side,price,quantity,reject_reason'', ''OMS_TRANSITION,1000,BUY,0,1,NONE'',
     ''OMS_TRANSITION,2000,BUY,1,2,NONE'', ''OMS_TRANSITION,2000,BUY,2,4,NONE'', ''OMS_TRANSITION,4000,BUY,4,6,NONE'',
     ''# summary'', ''execution_mode=passive'', ''passive_cancel_after_ns=1000'', ''strategy_signals=1'',
     ''local_submissions=1'', ''gateway_submissions=1'', ''risk_rejects=0'', ''venue_rejects=0'',
     ''invalid_venue_events=0'', ''fills=0'', ''persisted_events=4'', ''dropped_async_events=0'', ''events.accepted=4'',
     ''events.persisted=4'', ''events.dropped=0'', ''run_status=ok'', ''failure_reasons=none'',
     ''venue_events.batch_overflow=0'', ''venue_events.wrong_state=0'', ''venue_events.wrong_order=0'',
     ''venue_events.invalid_quantity=0'', ''venue_events.invalid_venue_order_id=0'', ''accounting.rejected_fills=0'',
     ''net_qty=0'', ''avg_price=0'', ''realized_pnl=0'', ''unrealized_pnl=0'', ''cash=0'', ''order_manager.state=6'',
     ''order_manager.cum_qty=0'', ''order_manager.leaves_qty=0'']"

definition cancel_ack_ticks :: "MarketTick list" where
  "cancel_ack_ticks = [sample_tick 1000 99900 100000 10 50, sample_tick 2000 99900 100100 10 50, sample_tick 3000 99900 100100 10 50,
     sample_tick 4000 99900 100100 10 50]"

definition cancel_ack_view :: CoreView where
  "cancel_ack_view = \<lparr>view_journal = [event KOmsTransition 1000 Buy 0 1 NoReject, event KOmsTransition 2000 Buy 1 2 NoReject,
     event KOmsTransition 2000 Buy 2 4 NoReject, event KOmsTransition 4000 Buy 4 6 NoReject],
     view_counters = \<lparr>strategy_signals = 1, local_submissions = 1, gateway_submissions = 1, risk_rejects = 0, venue_rejects = 0, invalid_venue_events = 0,
       fills = 0, accepted_events = 4, persisted_events = 0, dropped_events = 0, venue_batch_overflows = 0, wrong_state_events = 0,
       wrong_order_events = 0, invalid_quantity_events = 0, invalid_venue_order_id_events = 0, accounting_rejected_fills = 0\<rparr>,
     view_position = \<lparr>net_qty = 0, avg_price = 0\<rparr>,
     view_pnl = \<lparr>realized_pnl = 0, unrealized_pnl = 0, cash = 0\<rparr>,
     view_order = (Canceled, 0, 0)\<rparr>"

lemma golden_cancel_ack: "reproduces cancel_ack_csv Passive 1000 cancel_ack_txt"
proof (rule reproducesI)
  show "text_lines cancel_ack_csv = tick_header @ newline @ rows_text newline cancel_ack_ticks"
    by (simp add: cancel_ack_csv_def cancel_ack_ticks_def rendering)
  show "feed_valid cancel_ack_ticks \<and> cancel_ack_ticks \<noteq> []"
    by (simp add: cancel_ack_ticks_def sample_tick_def feed_valid_def values_valid_def tick_typed_def in_i64_def in_i32_def)
  show "ok (k_run Passive 1000 core_init cancel_ack_ticks) (\<lambda>c. core_view c = cancel_ack_view)"
    by code_simp
  show "artifact Passive 1000 cancel_ack_view = text_lines cancel_ack_txt"
    by (simp add: cancel_ack_txt_def cancel_ack_view_def cancel_ack_ticks_def rendering)
qed

subsection \<open>\<^verbatim>\<open>venue_reject\<close>\<close>

definition venue_reject_csv :: "string list" where
  "venue_reject_csv = [''exchange_ts_ns,receive_ts_ns,symbol_id,bid_price,ask_price,bid_qty,ask_qty'', ''1000,1000,1,99500,99900,50,50'',
     ''2000,2000,1,99700,100100,50,50'', ''3000,3000,1,120100,120200,50,50'', ''4000,4000,1,119800,119900,50,50'',
     ''5000,5000,1,99500,99900,50,50'', ''6000,6000,1,99700,100100,50,50'']"

definition venue_reject_txt :: "string list" where
  "venue_reject_txt = [''# journal'', ''event_kind,ts_ns,side,price,quantity,reject_reason'', ''OMS_TRANSITION,1000,BUY,0,1,NONE'',
     ''OMS_TRANSITION,2000,BUY,1,2,NONE'', ''OMS_TRANSITION,2000,BUY,2,5,NONE'', ''FILL,2000,BUY,100100,50,NONE'',
     ''OMS_TRANSITION,3000,SELL,0,1,NONE'', ''OMS_TRANSITION,4000,SELL,1,2,NONE'', ''OMS_TRANSITION,4000,SELL,2,5,NONE'',
     ''FILL,4000,SELL,119800,50,NONE'', ''OMS_TRANSITION,5000,BUY,0,1,NONE'', ''OMS_TRANSITION,6000,BUY,1,7,NONE'',
     ''VENUE_REJECT,6000,BUY,0,50,NEW_REJECTED_BY_VENUE'', ''# summary'', ''execution_mode=aggressive'',
     ''passive_cancel_after_ns=3000'', ''strategy_signals=3'', ''local_submissions=3'', ''gateway_submissions=3'',
     ''risk_rejects=0'', ''venue_rejects=1'', ''invalid_venue_events=0'', ''fills=2'', ''persisted_events=11'',
     ''dropped_async_events=0'', ''events.accepted=11'', ''events.persisted=11'', ''events.dropped=0'', ''run_status=ok'',
     ''failure_reasons=none'', ''venue_events.batch_overflow=0'', ''venue_events.wrong_state=0'',
     ''venue_events.wrong_order=0'', ''venue_events.invalid_quantity=0'', ''venue_events.invalid_venue_order_id=0'',
     ''accounting.rejected_fills=0'', ''net_qty=0'', ''avg_price=0'', ''realized_pnl=985000'', ''unrealized_pnl=0'',
     ''cash=985000'', ''order_manager.state=7'', ''order_manager.cum_qty=0'', ''order_manager.leaves_qty=50'']"

definition venue_reject_ticks :: "MarketTick list" where
  "venue_reject_ticks = [sample_tick 1000 99500 99900 50 50, sample_tick 2000 99700 100100 50 50, sample_tick 3000 120100 120200 50 50,
     sample_tick 4000 119800 119900 50 50, sample_tick 5000 99500 99900 50 50, sample_tick 6000 99700 100100 50 50]"

definition venue_reject_view :: CoreView where
  "venue_reject_view = \<lparr>view_journal = [event KOmsTransition 1000 Buy 0 1 NoReject, event KOmsTransition 2000 Buy 1 2 NoReject,
     event KOmsTransition 2000 Buy 2 5 NoReject, event KFill 2000 Buy 100100 50 NoReject,
     event KOmsTransition 3000 Sell 0 1 NoReject, event KOmsTransition 4000 Sell 1 2 NoReject,
     event KOmsTransition 4000 Sell 2 5 NoReject, event KFill 4000 Sell 119800 50 NoReject,
     event KOmsTransition 5000 Buy 0 1 NoReject, event KOmsTransition 6000 Buy 1 7 NoReject,
     event KVenueReject 6000 Buy 0 50 NewRejectedByVenue],
     view_counters = \<lparr>strategy_signals = 3, local_submissions = 3, gateway_submissions = 3, risk_rejects = 0, venue_rejects = 1, invalid_venue_events = 0,
       fills = 2, accepted_events = 11, persisted_events = 0, dropped_events = 0, venue_batch_overflows = 0, wrong_state_events = 0,
       wrong_order_events = 0, invalid_quantity_events = 0, invalid_venue_order_id_events = 0, accounting_rejected_fills = 0\<rparr>,
     view_position = \<lparr>net_qty = 0, avg_price = 0\<rparr>,
     view_pnl = \<lparr>realized_pnl = 985000, unrealized_pnl = 0, cash = 985000\<rparr>,
     view_order = (Rejected, 0, 50)\<rparr>"

lemma golden_venue_reject: "reproduces venue_reject_csv Aggressive 3000 venue_reject_txt"
proof (rule reproducesI)
  show "text_lines venue_reject_csv = tick_header @ newline @ rows_text newline venue_reject_ticks"
    by (simp add: venue_reject_csv_def venue_reject_ticks_def rendering)
  show "feed_valid venue_reject_ticks \<and> venue_reject_ticks \<noteq> []"
    by (simp add: venue_reject_ticks_def sample_tick_def feed_valid_def values_valid_def tick_typed_def in_i64_def in_i32_def)
  show "ok (k_run Aggressive 3000 core_init venue_reject_ticks) (\<lambda>c. core_view c = venue_reject_view)"
    by code_simp
  show "artifact Aggressive 3000 venue_reject_view = text_lines venue_reject_txt"
    by (simp add: venue_reject_txt_def venue_reject_view_def venue_reject_ticks_def rendering)
qed

subsection \<open>\<^verbatim>\<open>risk_reject\<close>\<close>

definition risk_reject_csv :: "string list" where
  "risk_reject_csv = [''exchange_ts_ns,receive_ts_ns,symbol_id,bid_price,ask_price,bid_qty,ask_qty'', ''1000,1000,1,99500,99900,50,50'',
     ''2000,2000,1,99500,99900,50,50'', ''3000,3000,1,99500,99900,50,50'', ''4000,4000,1,99500,99900,50,50'',
     ''5000,5000,1,99500,99900,50,50'', ''6000,6000,1,99500,99900,50,50'']"

definition risk_reject_txt :: "string list" where
  "risk_reject_txt = [''# journal'', ''event_kind,ts_ns,side,price,quantity,reject_reason'', ''OMS_TRANSITION,1000,BUY,0,1,NONE'',
     ''OMS_TRANSITION,2000,BUY,1,2,NONE'', ''OMS_TRANSITION,2000,BUY,2,5,NONE'', ''FILL,2000,BUY,99900,50,NONE'',
     ''OMS_TRANSITION,2000,BUY,0,1,NONE'', ''OMS_TRANSITION,3000,BUY,1,2,NONE'', ''OMS_TRANSITION,3000,BUY,2,5,NONE'',
     ''FILL,3000,BUY,99900,50,NONE'', ''OMS_TRANSITION,3000,BUY,0,1,NONE'', ''OMS_TRANSITION,4000,BUY,1,7,NONE'',
     ''VENUE_REJECT,4000,BUY,0,50,NEW_REJECTED_BY_VENUE'', ''OMS_TRANSITION,4000,BUY,0,1,NONE'',
     ''OMS_TRANSITION,5000,BUY,1,2,NONE'', ''OMS_TRANSITION,5000,BUY,2,5,NONE'', ''FILL,5000,BUY,99900,50,NONE'',
     ''OMS_TRANSITION,5000,BUY,0,1,NONE'', ''OMS_TRANSITION,6000,BUY,1,2,NONE'', ''OMS_TRANSITION,6000,BUY,2,5,NONE'',
     ''FILL,6000,BUY,99900,50,NONE'', ''RISK_REJECT,6000,BUY,0,50,MAX_POSITION'', ''# summary'',
     ''execution_mode=aggressive'', ''passive_cancel_after_ns=3000'', ''strategy_signals=6'', ''local_submissions=5'',
     ''gateway_submissions=5'', ''risk_rejects=1'', ''venue_rejects=1'', ''invalid_venue_events=0'', ''fills=4'',
     ''persisted_events=20'', ''dropped_async_events=0'', ''events.accepted=20'', ''events.persisted=20'',
     ''events.dropped=0'', ''run_status=ok'', ''failure_reasons=none'', ''venue_events.batch_overflow=0'',
     ''venue_events.wrong_state=0'', ''venue_events.wrong_order=0'', ''venue_events.invalid_quantity=0'',
     ''venue_events.invalid_venue_order_id=0'', ''accounting.rejected_fills=0'', ''net_qty=200'', ''avg_price=99900'',
     ''realized_pnl=0'', ''unrealized_pnl=-40000'', ''cash=-19980000'', ''order_manager.state=5'',
     ''order_manager.cum_qty=50'', ''order_manager.leaves_qty=0'']"

definition risk_reject_ticks :: "MarketTick list" where
  "risk_reject_ticks = [sample_tick 1000 99500 99900 50 50, sample_tick 2000 99500 99900 50 50, sample_tick 3000 99500 99900 50 50,
     sample_tick 4000 99500 99900 50 50, sample_tick 5000 99500 99900 50 50, sample_tick 6000 99500 99900 50 50]"

definition risk_reject_view :: CoreView where
  "risk_reject_view = \<lparr>view_journal = [event KOmsTransition 1000 Buy 0 1 NoReject, event KOmsTransition 2000 Buy 1 2 NoReject,
     event KOmsTransition 2000 Buy 2 5 NoReject, event KFill 2000 Buy 99900 50 NoReject,
     event KOmsTransition 2000 Buy 0 1 NoReject, event KOmsTransition 3000 Buy 1 2 NoReject,
     event KOmsTransition 3000 Buy 2 5 NoReject, event KFill 3000 Buy 99900 50 NoReject,
     event KOmsTransition 3000 Buy 0 1 NoReject, event KOmsTransition 4000 Buy 1 7 NoReject,
     event KVenueReject 4000 Buy 0 50 NewRejectedByVenue, event KOmsTransition 4000 Buy 0 1 NoReject,
     event KOmsTransition 5000 Buy 1 2 NoReject, event KOmsTransition 5000 Buy 2 5 NoReject,
     event KFill 5000 Buy 99900 50 NoReject, event KOmsTransition 5000 Buy 0 1 NoReject,
     event KOmsTransition 6000 Buy 1 2 NoReject, event KOmsTransition 6000 Buy 2 5 NoReject,
     event KFill 6000 Buy 99900 50 NoReject, event KRiskReject 6000 Buy 0 50 MaxPosition],
     view_counters = \<lparr>strategy_signals = 6, local_submissions = 5, gateway_submissions = 5, risk_rejects = 1, venue_rejects = 1, invalid_venue_events = 0,
       fills = 4, accepted_events = 20, persisted_events = 0, dropped_events = 0, venue_batch_overflows = 0, wrong_state_events = 0,
       wrong_order_events = 0, invalid_quantity_events = 0, invalid_venue_order_id_events = 0, accounting_rejected_fills = 0\<rparr>,
     view_position = \<lparr>net_qty = 200, avg_price = 99900\<rparr>,
     view_pnl = \<lparr>realized_pnl = 0, unrealized_pnl = - 40000, cash = - 19980000\<rparr>,
     view_order = (Filled, 50, 0)\<rparr>"

lemma golden_risk_reject: "reproduces risk_reject_csv Aggressive 3000 risk_reject_txt"
proof (rule reproducesI)
  show "text_lines risk_reject_csv = tick_header @ newline @ rows_text newline risk_reject_ticks"
    by (simp add: risk_reject_csv_def risk_reject_ticks_def rendering)
  show "feed_valid risk_reject_ticks \<and> risk_reject_ticks \<noteq> []"
    by (simp add: risk_reject_ticks_def sample_tick_def feed_valid_def values_valid_def tick_typed_def in_i64_def in_i32_def)
  show "ok (k_run Aggressive 3000 core_init risk_reject_ticks) (\<lambda>c. core_view c = risk_reject_view)"
    by code_simp
  show "artifact Aggressive 3000 risk_reject_view = text_lines risk_reject_txt"
    by (simp add: risk_reject_txt_def risk_reject_view_def risk_reject_ticks_def rendering)
qed

subsection \<open>All cases\<close>

definition golden_cases :: "(string list \<times> ExecutionStyle \<times> TimestampNs \<times> string list) list" where
  "golden_cases =
     [(aggressive_full_csv, Aggressive, 3000, aggressive_full_txt),
      (aggressive_partial_expired_csv, Aggressive, 3000, aggressive_partial_expired_txt),
      (passive_partial_csv, Passive, 10000, passive_partial_txt),
      (cancel_ack_csv, Passive, 1000, cancel_ack_txt),
      (venue_reject_csv, Aggressive, 3000, venue_reject_txt),
      (risk_reject_csv, Aggressive, 3000, risk_reject_txt)]"

text \<open>The committed golden files are what every successful run on their fixtures yields.\<close>

theorem golden_files_reproduced:
  assumes "(fixture, style, after, golden) \<in> set golden_cases"
    and "world_files w (argv ! 1) = Some \<lparr>stream_text = text_lines fixture, stream_fault = False\<rparr>" "argv ! 1 \<noteq> []"
    and "parse_runtime_config argv = Inr config" "run_execution_style config = style"
      "run_passive_cancel_after_ns config = after" "CHR 0x0A \<notin> set (run_persistence_path config)"
    and "program w argv = Some run" "exit_code run = EXIT_SUCCESS" "faithful_stream w text_of"
  shows "normalize (out_text run) (text_of (the (persistence_stream run))) = text_lines golden"
proof -
  have "reproduces fixture style after golden"
    using assms(1) golden_aggressive_full golden_aggressive_partial_expired golden_passive_partial golden_cancel_ack
      golden_venue_reject golden_risk_reject by (auto simp: golden_cases_def)
  from reproduces_run [OF this assms(2-10)] show ?thesis .
qed

end
