(* ===== verification/Replay_Bench.thy ===== *)
theory Replay_Bench
  imports Trading_Main
begin

unbundle bit_operations_syntax

text \<open>
  The benchmark driver \<^verbatim>\<open>bench/bench_replay.cpp\<close>: options, the dataset hash, the checksumming
  sink, the aggregation of latency samples over trials, and the comparison of the two sink
  modes. Each run has a clock and a scheduling of its own, the time around a trial is a
  parameter, and so are the build's macros and the number of hardware threads. An exception is
  the text of its message, with what was printed before it; \<^term>\<open>None\<close> is undefined behaviour.
\<close>

section \<open>Options\<close>

record Options =
  opt_input :: string
  opt_warmup :: nat
  opt_measured :: nat
  opt_csv_path :: "string option"

definition parse_positive :: "string \<Rightarrow> string \<Rightarrow> string + nat" where
  "parse_positive input name = (case parse_unsigned (\<lambda>i. i \<le> SIZE_MAX) input of
     Some i \<Rightarrow> if i = 0 then Inl (name @ '' must be a positive integer'') else Inr (nat i)
   | None \<Rightarrow> Inl (name @ '' must be a positive integer''))"

fun parse_option_list :: "Options \<Rightarrow> string list \<Rightarrow> string + Options" where
  "parse_option_list options [] = Inr options"
| "parse_option_list options [option] =
     (if option = ''--warmup'' \<or> option = ''--measured'' \<or> option = ''--emit-csv'' then Inl (option @ '' requires a value'')
      else Inl (''unknown option: '' @ option))"
| "parse_option_list options (option # val # rest) =
     (if option = ''--warmup''
      then and_then (parse_positive val ''warmup'') (\<lambda>n. parse_option_list (options\<lparr>opt_warmup := n\<rparr>) rest)
      else if option = ''--measured''
      then and_then (parse_positive val ''measured'') (\<lambda>n. parse_option_list (options\<lparr>opt_measured := n\<rparr>) rest)
      else if option = ''--emit-csv'' then parse_option_list (options\<lparr>opt_csv_path := Some val\<rparr>) rest
      else Inl (''unknown option: '' @ option))"

definition parse_options :: "string list \<Rightarrow> string + Options" where
  "parse_options argv =
     (if length argv < 2
      then Inl ''usage: bench_replay <csv-path> [--warmup N] [--measured N] [--emit-csv path]''
      else parse_option_list \<lparr>opt_input = argv ! 1, opt_warmup = 2, opt_measured = 5, opt_csv_path = None\<rparr> (drop 2 argv))"

section \<open>Hash and checksum\<close>

fun fnv1a :: "64 word \<Rightarrow> string \<Rightarrow> 64 word" where
  "fnv1a hash [] = hash"
| "fnv1a hash (byte # bytes) = fnv1a ((hash XOR word_of_nat (of_char byte)) * 1099511628211) bytes"

definition file_hash :: "FileSystem \<Rightarrow> string \<Rightarrow> string + 64 word" where
  "file_hash fs path = (case fs path of None \<Rightarrow> Inl ''failed to hash input dataset''
     | Some input \<Rightarrow> Inr (fnv1a 1469598103934665603 (stream_text input)))"

record ChecksumSink =
  sink_checksum :: "64 word"
  sink_count :: "64 word"

definition checksum_new :: ChecksumSink where
  "checksum_new = \<lparr>sink_checksum = 0, sink_count = 0\<rparr>"

definition checksum_consume :: "ChecksumSink \<Rightarrow> TradeEvent \<Rightarrow> bool \<times> ChecksumSink" where
  "checksum_consume sink event =
     (let c = sink_checksum sink;
          c = c XOR (word_of_int (te_ts_ns event) + 0x9e3779b97f4a7c15 + push_bit 6 c + drop_bit 2 c);
          c = c XOR word_of_int (te_price event);
          c = c XOR push_bit 17 (word_of_int (te_quantity event))
      in (True, \<lparr>sink_checksum = c, sink_count = sink_count sink + 1\<rparr>))"

section \<open>Aggregates\<close>

definition initialize_aggregates :: "nat \<Rightarrow> nat \<Rightarrow> string + ReplayLatencies" where
  "initialize_aggregates ticks trials =
     (if int ticks > SIZE_MAX div int trials then Inl ''benchmark aggregate tick count overflow''
      else case initialize_latencies (ticks * trials) of Inl e \<Rightarrow> Inl (latency_error_what e) | Inr lat \<Rightarrow> Inr lat)"

fun append_samples :: "LatencyStats \<Rightarrow> i64 list \<Rightarrow> string + LatencyStats" where
  "append_samples target [] = Inr target"
| "append_samples target (s # ss) = (case latency_record target s of
     (True, target) \<Rightarrow> append_samples target ss
   | (False, _) \<Rightarrow> Inl ''benchmark aggregate collector overflow'')"

definition append_latencies :: "ReplayLatencies \<Rightarrow> ReplayLatencies \<Rightarrow> string + ReplayLatencies" where
  "append_latencies target source =
     and_then (append_samples (lat_strategy target) (latency_samples (lat_strategy source))) (\<lambda>a.
     and_then (append_samples (lat_risk target) (latency_samples (lat_risk source))) (\<lambda>b.
     and_then (append_samples (lat_execution target) (latency_samples (lat_execution source))) (\<lambda>c.
     and_then (append_samples (lat_accounting target) (latency_samples (lat_accounting source))) (\<lambda>d.
     and_then (append_samples (lat_event_sink target) (latency_samples (lat_event_sink source))) (\<lambda>e.
     and_then (append_samples (lat_end_to_end target) (latency_samples (lat_end_to_end source))) (\<lambda>f.
     Inr \<lparr>lat_strategy = a, lat_risk = b, lat_execution = c, lat_accounting = d, lat_event_sink = e, lat_end_to_end = f\<rparr>))))))"

definition emit_csv_row :: "string \<Rightarrow> string \<Rightarrow> LatencyStats \<Rightarrow> string option" where
  "emit_csv_row mode collector ls = do {
     s \<leftarrow> summarize ls;
     Some (mode @ '','' @ collector @ '','' @ show_nat (sum_count s) @ '','' @ show_nat (overflow_count ls) @ '','' @
       show_int (sum_min_ns s) @ '','' @ show_int (sum_mean_ns s) @ '','' @ show_int (sum_p50_ns s) @ '','' @
       (if sum_has_p99 s then show_int (sum_p99_ns s) else []) @ '','' @
       (if sum_has_p99_9 s then show_int (sum_p99_9_ns s) else []) @ '','' @
       (if sum_has_tail_mean_99 s then show_int (sum_tail_mean_99_ns s) else []) @ '','' @ show_int (sum_max_ns s) @ newline)
   }"

definition emit_csv_rows :: "string \<Rightarrow> ReplaySinkMode \<Rightarrow> ReplayLatencies \<Rightarrow> string option" where
  "emit_csv_rows name mode lat = do {
     a \<leftarrow> emit_csv_row name ''strategy'' (lat_strategy lat);
     b \<leftarrow> emit_csv_row name ''risk'' (lat_risk lat);
     c \<leftarrow> emit_csv_row name ''execution'' (lat_execution lat);
     d \<leftarrow> emit_csv_row name ''accounting'' (lat_accounting lat);
     e \<leftarrow> emit_csv_row name (if mode = SinkSync then ''event_sink_sync'' else ''event_enqueue_async'') (lat_event_sink lat);
     f \<leftarrow> emit_csv_row name ''end_to_end'' (lat_end_to_end lat);
     Some (a @ b @ c @ d @ e @ f)
   }"

section \<open>One mode\<close>

record BenchRuns =
  run_clock :: "nat \<Rightarrow> nat \<Rightarrow> i64"
  run_schedule :: "nat \<Rightarrow> nat \<Rightarrow> nat"
  run_elapsed :: "nat \<Rightarrow> i64"

definition checksum_env :: "BenchRuns \<Rightarrow> nat \<Rightarrow> ChecksumSink ReplayEnv" where
  "checksum_env runs k = \<lparr>env_consume = checksum_consume, env_clock = run_clock runs k, env_schedule = run_schedule runs k\<rparr>"

definition bench_config :: "ReplaySinkMode \<Rightarrow> ReplayConfig" where
  "bench_config mode = \<lparr>sink_mode = mode, execution_style = Aggressive, passive_cancel_after_ns = 3000\<rparr>"

text \<open>The warm-up runs, numbered from \<open>k\<close>: whether all of them are valid.\<close>

fun warmup_runs :: "BenchRuns \<Rightarrow> MarketTick list \<Rightarrow> ReplaySinkMode \<Rightarrow> nat \<Rightarrow> nat \<Rightarrow> (string + bool) option" where
  "warmup_runs runs ticks mode k 0 = Some (Inr True)"
| "warmup_runs runs ticks mode k (Suc n) = do {
     (x, sink) \<leftarrow> run_replay (checksum_env runs k) ticks (bench_config mode) checksum_new;
     (case x of
        Inl e \<Rightarrow> Some (Inl (replay_error_what e))
      | Inr r \<Rightarrow> if res_sink_failed r \<or> res_latency_overflow r \<or> dropped_events (res_counters r) \<noteq> 0 then Some (Inr False)
                 else warmup_runs runs ticks mode (Suc k) n)
   }"

definition trial_valid :: "ReplayResult \<Rightarrow> bool" where
  "trial_valid r \<longleftrightarrow> \<not> res_sink_failed r \<and> \<not> res_latency_overflow r \<and> dropped_events (res_counters r) = 0 \<and>
     venue_batch_overflows (res_counters r) = 0 \<and> persisted_events (res_counters r) = accepted_events (res_counters r)"

definition trial_line :: "string \<Rightarrow> nat \<Rightarrow> i64 \<Rightarrow> ReplayResult \<Rightarrow> ChecksumSink \<Rightarrow> bool \<Rightarrow> string" where
  "trial_line name trial elapsed r sink okay =
     ''trial mode='' @ name @ '' index='' @ show_nat trial @ '' elapsed_ns='' @ show_int elapsed @
     '' accepted='' @ show_int (accepted_events (res_counters r)) @
     '' persisted='' @ show_int (persisted_events (res_counters r)) @
     '' dropped='' @ show_int (dropped_events (res_counters r)) @
     '' latency_overflow='' @ (if res_latency_overflow r then ''1'' else ''0'') @
     '' venue_batch_overflow='' @ show_int (venue_batch_overflows (res_counters r)) @
     '' sink_events='' @ show_nat (unat (sink_count sink)) @ '' checksum='' @ show_nat (unat (sink_checksum sink)) @
     '' status='' @ (if okay then ''ok'' else ''failed'') @ newline"

record TrialState =
  ts_reference :: "64 word"
  ts_aggregate :: ReplayLatencies
  ts_text :: string

text \<open>
  The measured trials from number \<open>trial\<close> on; run \<open>k\<close> is the next run. An exception
  carries its message and the text printed so far.
\<close>

fun measured_runs ::
  "BenchRuns \<Rightarrow> MarketTick list \<Rightarrow> ReplaySinkMode \<Rightarrow> nat \<Rightarrow> nat \<Rightarrow> nat \<Rightarrow> TrialState \<Rightarrow>
     ((string \<times> string) + (bool \<times> TrialState)) option" where
  "measured_runs runs ticks mode k trial 0 st = Some (Inr (True, st))"
| "measured_runs runs ticks mode k trial (Suc n) st = do {
     (x, sink) \<leftarrow> run_replay (checksum_env runs k) ticks (bench_config mode) checksum_new;
     (case x of
        Inl e \<Rightarrow> Some (Inl (replay_error_what e, ts_text st))
      | Inr r \<Rightarrow>
         (let reference = (if trial = 1 then sink_checksum sink else ts_reference st);
              okay = (trial_valid r \<and> sink_checksum sink = reference);
              text_out = ts_text st @ trial_line (sink_mode_name mode) trial (run_elapsed runs k) r sink okay
          in if \<not> okay then Some (Inr (False, st\<lparr>ts_reference := reference, ts_text := text_out\<rparr>))
             else case append_latencies (ts_aggregate st) (res_latencies r) of
               Inl e \<Rightarrow> Some (Inl (e, text_out))
             | Inr lat \<Rightarrow> measured_runs runs ticks mode (Suc k) (Suc trial) n
                 \<lparr>ts_reference = reference, ts_aggregate = lat, ts_text = text_out\<rparr>))
   }"

record ModeReport =
  mode_valid :: bool
  mode_checksum :: "64 word"
  mode_text :: string
  mode_csv :: string

definition invalid_mode :: "string \<Rightarrow> ModeReport" where
  "invalid_mode text_out = \<lparr>mode_valid = False, mode_checksum = 0, mode_text = text_out, mode_csv = []\<rparr>"

text \<open>
  \<open>csv\<close> tells whether the pointer to the CSV stream is not null; \<open>mode_csv\<close> is the text
  written through it.
\<close>

definition run_mode ::
  "BenchRuns \<Rightarrow> MarketTick list \<Rightarrow> ReplaySinkMode \<Rightarrow> Options \<Rightarrow> bool \<Rightarrow> ((string \<times> string) + ModeReport) option" where
  "run_mode runs ticks mode options csv = do {
     warm \<leftarrow> warmup_runs runs ticks mode 0 (opt_warmup options);
     (case warm of
        Inl e \<Rightarrow> Some (Inl (e, []))
      | Inr good \<Rightarrow>
         if \<not> good then Some (Inr (invalid_mode []))
         else (case initialize_aggregates (length ticks) (opt_measured options) of
            Inl e \<Rightarrow> Some (Inl (e, []))
          | Inr lat \<Rightarrow> do {
              out \<leftarrow> measured_runs runs ticks mode (opt_warmup options) 1 (opt_measured options)
                \<lparr>ts_reference = 0, ts_aggregate = lat, ts_text = []\<rparr>;
              (case out of
                 Inl e \<Rightarrow> Some (Inl e)
               | Inr (okay, st) \<Rightarrow>
                   if \<not> okay then Some (Inr (invalid_mode (ts_text st)))
                   else do {
                     summaries \<leftarrow> latency_lines mode (ts_aggregate st);
                     rows \<leftarrow> (if csv then emit_csv_rows (sink_mode_name mode) mode (ts_aggregate st) else Some []);
                     Some (Inr \<lparr>mode_valid = True, mode_checksum = ts_reference st,
                       mode_text = ts_text st @ ''summary mode='' @ sink_mode_name mode @
                         '' measurement=in-process_replay_latency'' @ newline @ summaries,
                       mode_csv = rows\<rparr>)
                   })
            }))
   }"

section \<open>The CSV stream\<close>

text \<open>
  The \<^verbatim>\<open>std::ofstream\<close> of \<^verbatim>\<open>main\<close> is opened only when a path is given. A stream that was never
  opened is good until something is written to it.
\<close>

datatype 'o CsvOut = Unopened bool | Opened 'o

fun csv_good :: "'o World \<Rightarrow> 'o CsvOut \<Rightarrow> bool" where
  "csv_good w (Unopened good) = good"
| "csv_good w (Opened s) = world_good w s"

fun csv_write :: "'o World \<Rightarrow> 'o CsvOut \<Rightarrow> string \<Rightarrow> 'o CsvOut" where
  "csv_write w csv [] = csv"
| "csv_write w (Unopened good) (c # cs) = Unopened False"
| "csv_write w (Opened s) (c # cs) = Opened (world_write w s (c # cs))"

fun csv_flush :: "'o World \<Rightarrow> 'o CsvOut \<Rightarrow> 'o CsvOut" where
  "csv_flush w (Unopened good) = Unopened good"
| "csv_flush w (Opened s) = Opened (world_flush w s)"

fun csv_file :: "'o CsvOut \<Rightarrow> 'o option" where
  "csv_file (Unopened good) = None"
| "csv_file (Opened s) = Some s"

section \<open>The comparison\<close>

text \<open>
  The part of \<^verbatim>\<open>main\<close> between the banner and the exit: the second mode runs only when the first
  is valid, and the run is good when both are and their checksums agree. The stream's state
  is asked before each mode.
\<close>

record 'o BenchResult =
  bench_modes_valid :: bool
  bench_equivalent :: bool
  bench_text :: string
  bench_csv :: "'o CsvOut"

definition compare_modes ::
  "'o World \<Rightarrow> BenchRuns \<Rightarrow> BenchRuns \<Rightarrow> MarketTick list \<Rightarrow> Options \<Rightarrow> 'o CsvOut \<Rightarrow>
     ((string \<times> string \<times> 'o CsvOut) + 'o BenchResult) option" where
  "compare_modes w sync_runs async_runs ticks options csv =
     (let finish = (\<lambda>valid sync_sum async_sum text_out csv_out.
            let equivalent = (valid \<and> sync_sum = async_sum) in
            \<lparr>bench_modes_valid = valid, bench_equivalent = equivalent,
             bench_text = text_out @ ''side_channel_equivalent='' @ (if equivalent then ''1'' else ''0'') @
               '' sync_checksum='' @ show_nat (unat sync_sum) @ '' async_checksum='' @ show_nat (unat async_sum) @ newline,
             bench_csv = csv_out\<rparr>)
      in do {
        first \<leftarrow> run_mode sync_runs ticks SinkSync options (csv_good w csv);
        (case first of
           Inl (e, text_out) \<Rightarrow> Some (Inl (e, text_out, csv))
         | Inr a \<Rightarrow>
            (let csv = csv_write w csv (mode_csv a)
             in if \<not> mode_valid a then Some (Inr (finish False (mode_checksum a) 0 (mode_text a) csv))
                else do {
                  second \<leftarrow> run_mode async_runs ticks SinkAsync options (csv_good w csv);
                  (case second of
                     Inl (e, text_out) \<Rightarrow> Some (Inl (e, mode_text a @ text_out, csv))
                   | Inr b \<Rightarrow> Some (Inr (finish (mode_valid b) (mode_checksum a) (mode_checksum b)
                        (mode_text a @ mode_text b) (csv_write w csv (mode_csv b)))))
                }))
      })"

section \<open>The program\<close>

definition bench_csv_header :: string where
  "bench_csv_header = ''mode,collector,count,overflow,min_ns,mean_ns,p50_ns,p99_ns,p99_9_ns,tail_mean_99_ns,max_ns'' @ newline"

definition hex_digit :: "nat \<Rightarrow> char" where
  "hex_digit d = (if d < 10 then digit_char d else char_of (87 + d))"

fun show_hex :: "nat \<Rightarrow> string" where
  "show_hex n = (if n < 16 then [hex_digit n] else show_hex (n div 16) @ [hex_digit (n mod 16)])"

declare show_hex.simps [simp del]

text \<open>The build's macros and the machine's number of hardware threads.\<close>

record BuildInfo =
  build_type :: string
  build_compiler :: string
  build_commit :: string
  build_threads :: nat

definition banner_head :: "BuildInfo \<Rightarrow> Options \<Rightarrow> string" where
  "banner_head b options =
     ''benchmark=bench_replay measurement=in-process_replay_latency'' @ newline @
     ''build_type='' @ build_type b @ '' compiler='' @ build_compiler b @ '' git_commit='' @ build_commit b @
     '' hardware_threads='' @ show_nat (build_threads b) @ newline @
     ''dataset='' @ opt_input options @ '' dataset_fnv1a64=0x''"

definition banner_tail :: "Options \<Rightarrow> 64 word \<Rightarrow> nat \<Rightarrow> string" where
  "banner_tail options hash ticks =
     show_hex (unat hash) @ '' ticks='' @ show_nat ticks @ '' warmup='' @ show_nat (opt_warmup options) @
     '' measured='' @ show_nat (opt_measured options) @ newline @
     ''boundaries=module_call; end_to_end=tick_start_through_synchronous_business_and_event_submission; async_consumer_excluded'' @ newline"

definition open_csv :: "'o World \<Rightarrow> string option \<Rightarrow> string + 'o CsvOut" where
  "open_csv w path = (case path of
     None \<Rightarrow> Inr (Unopened True)
   | Some p \<Rightarrow> (case world_open w p of
       None \<Rightarrow> Inl ''failed to open benchmark CSV output''
     | Some s \<Rightarrow> Inr (csv_write w (Opened s) bench_csv_header)))"

text \<open>The last flush happens, and can fail, only when the stream is still good before it.\<close>

definition finish_bench :: "'o World \<Rightarrow> string \<Rightarrow> 'o BenchResult \<Rightarrow> 'o ProgramRun" where
  "finish_bench w out result =
     (let good = (bench_modes_valid result \<and> bench_equivalent result);
          csv = bench_csv result;
          flushed = (if csv_good w csv then csv_flush w csv else csv)
      in if csv_good w csv \<and> \<not> csv_good w flushed
         then failing out ''failed to write benchmark CSV output'' (csv_file flushed)
         else \<lparr>exit_code = (if good then EXIT_SUCCESS else EXIT_FAILURE),
                out_text = out @ ''benchmark_status='' @ (if good then ''ok'' else ''failed'') @ newline,
                err_text = [], persistence_stream = csv_file flushed\<rparr>)"

definition bench_program :: "'o World \<Rightarrow> BuildInfo \<Rightarrow> BenchRuns \<Rightarrow> BenchRuns \<Rightarrow> string list \<Rightarrow> 'o ProgramRun option" where
  "bench_program w build sync_runs async_runs argv =
     (case parse_options argv of
        Inl e \<Rightarrow> Some (failing [] e None)
      | Inr options \<Rightarrow>
     (case read_all (world_files w) (Some (opt_input options)) of
        Inl e \<Rightarrow> Some (failing [] (err_what e) None)
      | Inr ticks \<Rightarrow>
     (case open_csv w (opt_csv_path options) of
        Inl e \<Rightarrow> Some (failing [] e None)
      | Inr csv \<Rightarrow>
     (case file_hash (world_files w) (opt_input options) of
        Inl e \<Rightarrow> Some (failing (banner_head build options) e (csv_file csv))
      | Inr hash \<Rightarrow> do {
          compared \<leftarrow> compare_modes w sync_runs async_runs ticks options csv;
          let out = banner_head build options @ banner_tail options hash (length ticks);
          (case compared of
             Inl (e, text_out, csv) \<Rightarrow> Some (failing (out @ text_out) e (csv_file csv))
           | Inr result \<Rightarrow> Some (finish_bench w (out @ bench_text result) result))
        }))))"

section \<open>Aggregating samples\<close>

lemma append_samples_room:
  "latency_inv t \<Longrightarrow> sample_count t + length ss \<le> length (ls_samples t) \<Longrightarrow> append_samples t ss = Inr (record_all t ss)"
proof (induction ss arbitrary: t)
  case (Cons s ss)
  have lt: "sample_count t < length (ls_samples t)" using Cons.prems(2) by simp
  then obtain t' where "latency_record t s = (True, t')" by (simp add: latency_record_def)
  moreover have "append_samples (snd (latency_record t s)) ss = Inr (record_all (snd (latency_record t s)) ss)"
    using lt Cons.prems by (intro Cons.IH latency_record_inv) (simp_all add: latency_record_def)
  ultimately show ?case unfolding append_samples.simps(2) record_all.simps(2) by simp
qed simp

lemma record_all_within:
  "\<forall>x \<in> set (ls_samples t). \<bar>x\<bar> \<le> B \<Longrightarrow> \<forall>x \<in> set ss. \<bar>x\<bar> \<le> B \<Longrightarrow> \<forall>x \<in> set (ls_samples (record_all t ss)). \<bar>x\<bar> \<le> B"
proof (induction ss arbitrary: t)
  case (Cons s ss)
  have "\<forall>x \<in> set (ls_samples (snd (latency_record t s))). \<bar>x\<bar> \<le> B"
    by (rule samples_within_record) (use Cons.prems in simp_all)
  moreover have "\<forall>x \<in> set ss. \<bar>x\<bar> \<le> B" using Cons.prems(2) by simp
  ultimately show ?case unfolding record_all.simps(2) by (rule Cons.IH)
qed simp

text \<open>
  An aggregate for \<open>N\<close> ticks in all, filled with the samples of at most \<open>n\<close> ticks, each at
  most \<open>B\<close>.
\<close>

definition slots :: "Collector \<Rightarrow> nat" where
  "slots c = (case c of ColExecution \<Rightarrow> 2 | ColEventSink \<Rightarrow> 4 | _ \<Rightarrow> 1)"

definition filled :: "int \<Rightarrow> nat \<Rightarrow> nat \<Rightarrow> ReplayLatencies \<Rightarrow> bool" where
  "filled B N n lat \<longleftrightarrow> (\<forall>c. latency_inv (lat_of c lat) \<and> lat_capacity (lat_of c lat) = N * slots c \<and>
     sample_count (lat_of c lat) \<le> n * slots c \<and> (\<forall>x \<in> set (ls_samples (lat_of c lat)). \<bar>x\<bar> \<le> B))"

lemma append_latencies_filled:
  assumes t: "filled B N n target" and s: "filled B m m source" and le: "n + m \<le> N"
  shows "\<exists>lat. append_latencies target source = Inr lat \<and> filled B N (n + m) lat"
proof -
  define ext where "ext = (\<lambda>c. record_all (lat_of c target) (latency_samples (lat_of c source)))"
  have tc: "latency_inv (lat_of c target)" "length (ls_samples (lat_of c target)) = N * slots c"
      "sample_count (lat_of c target) \<le> n * slots c" "\<forall>x \<in> set (ls_samples (lat_of c target)). \<bar>x\<bar> \<le> B" for c
    using t by (auto simp: filled_def lat_capacity_def)
  have sc: "length (latency_samples (lat_of c source)) \<le> m * slots c"
      "\<forall>x \<in> set (latency_samples (lat_of c source)). \<bar>x\<bar> \<le> B" for c
    using s by (auto simp: filled_def lat_capacity_def latency_samples_def dest: in_set_takeD intro: le_trans)
  have room: "sample_count (lat_of c target) + length (latency_samples (lat_of c source)) \<le> (n + m) * slots c" for c
    unfolding add_mult_distrib by (rule add_mono [OF tc(3) sc(1)])
  have cap: "(n + m) * slots c \<le> N * slots c" for c using le by (rule mult_le_mono1)
  have app: "append_samples (lat_of c target) (latency_samples (lat_of c source)) = Inr (ext c)" for c
    unfolding ext_def
    by (rule append_samples_room [OF tc(1)]) (use room [of c] cap [of c] tc(2) [of c] in linarith)
  define lat where "lat = \<lparr>lat_strategy = ext ColStrategy, lat_risk = ext ColRisk, lat_execution = ext ColExecution,
    lat_accounting = ext ColAccounting, lat_event_sink = ext ColEventSink, lat_end_to_end = ext ColEndToEnd\<rparr>"
  have ext_of: "lat_of c lat = ext c" for c by (cases c) (simp_all add: lat_of_def lat_def)
  have "append_latencies target source = Inr lat"
    using app [of ColStrategy] app [of ColRisk] app [of ColExecution] app [of ColAccounting] app [of ColEventSink]
      app [of ColEndToEnd]
    by (simp add: append_latencies_def and_then_def lat_of_def lat_def)
  moreover have "filled B N (n + m) lat"
    unfolding filled_def ext_of
  proof (intro allI)
    fix c
    have "latency_inv (ext c)" "length (ls_samples (ext c)) = N * slots c" "sample_count (ext c) \<le> (n + m) * slots c"
      using record_all_spec [OF tc(1), of c "latency_samples (lat_of c source)"] room [of c] tc(2) [of c]
      by (simp_all add: ext_def)
    moreover have "\<forall>x \<in> set (ls_samples (ext c)). \<bar>x\<bar> \<le> B"
      unfolding ext_def by (rule record_all_within [OF tc(4) sc(2)])
    ultimately show "latency_inv (ext c) \<and> lat_capacity (ext c) = N * slots c \<and> sample_count (ext c) \<le> (n + m) * slots c \<and>
        (\<forall>x \<in> set (ls_samples (ext c)). \<bar>x\<bar> \<le> B)"
      by (simp add: lat_capacity_def)
  qed
  ultimately show ?thesis by blast
qed

lemma replay_filled:
  assumes "run_replay env ticks config sink = Some (Inr r, snk)" "bounded_clock B env" "0 \<le> B"
  shows "filled B (length ticks) (length ticks) (res_latencies r)"
proof (rule run_replay_resultE [OF assms(1)])
  fix lat st sd
  assume r: "initialize_latencies (length ticks) = Inr lat"
    "process_ticks env config (symbol_id (hd ticks)) \<lparr>core = core_init, channel = side_init sink lat\<rparr> ticks = Some (True, st)"
    "r = replay_result (st\<lparr>channel := sd\<rparr>)" "join_sink env config (channel st) = Some sd"
  have l: "res_latencies r = side_latencies (channel st)"
    using r(4) sink_drain_latencies by (auto simp: r(3) replay_result_def join_sink_def split: if_splits)
  show ?thesis
    using run_samples(7,8) [OF r(1,2)] run_samples_within [OF r(1) assms(2,3) r(2)]
    unfolding filled_def l slots_def samples_within_def by (simp add: latency_inv_def lat_capacity_def)
qed

lemma aggregates_filled:
  assumes "initialize_aggregates n trials = Inr lat" "0 \<le> B"
  shows "filled B (n * trials) 0 lat"
proof -
  have i: "initialize_latencies (n * trials) = Inr lat"
    using assms(1) by (simp add: initialize_aggregates_def split: if_splits sum.splits)
  note f = initialize_latencies_facts [OF i]
  have "\<forall>x \<in> set (ls_samples (lat_of c lat)). \<bar>x\<bar> \<le> B" for c using f(4) [of c] assms(2) by auto
  moreover have "sample_count (lat_of c lat) = 0" for c using f(2) [of c] by (simp add: calls_def)
  ultimately show ?thesis using f(1,3) by (simp add: filled_def slots_def)
qed

lemma filled_summary:
  assumes "filled B N n lat" "0 \<le> B" "4 * int N * B \<le> INT64_MAX" "4 * int N \<le> VECTOR_MAX_SIZE"
  shows "ok (summarize (lat_of c lat)) (\<lambda>_. True)"
proof -
  let ?l = "lat_of c lat"
  have l: "latency_inv ?l" "length (ls_samples ?l) = N * slots c" "\<forall>x \<in> set (ls_samples ?l). \<bar>x\<bar> \<le> B"
    using assms(1) by (auto simp: filled_def lat_capacity_def)
  have "slots c \<le> 4" by (simp add: slots_def split: Collector.split)
  then have cap: "length (ls_samples ?l) \<le> N * 4" unfolding l(2) by (rule mult_le_mono2)
  then have "int (length (ls_samples ?l)) \<le> 4 * int N" by linarith
  then have "B * int (length (ls_samples ?l)) \<le> B * (4 * int N)" using assms(2) by (intro mult_left_mono)
  then have "B * int (length (ls_samples ?l)) \<le> INT64_MAX" using assms(3) by (simp add: mult.commute)
  moreover have "length (ls_samples ?l) < 2 ^ 64" using cap assms(4) by (simp add: VECTOR_MAX_SIZE_def)
  ultimately show ?thesis using l by (intro summarize_ok [OF assms(2)])
qed

section \<open>The two modes\<close>

text \<open>The checksum over the events of the business run: what every complete trial has.\<close>

definition journal_checksum :: "MarketTick list \<Rightarrow> 64 word" where
  "journal_checksum ticks = sink_checksum (snd (feed checksum_consume checksum_new (replay_journal Aggressive 3000 ticks)))"

lemma trial_facts:
  assumes "run_replay (checksum_env runs k) ticks (bench_config mode) checksum_new = Some (Inr r, snk)"
    and "dropped_events (res_counters r) = 0"
  shows "sink_checksum snk = journal_checksum ticks \<and> \<not> res_sink_failed r \<and>
    persisted_events (res_counters r) = int (length (replay_journal Aggressive 3000 ticks)) \<and>
    accepted_events (res_counters r) = int (length (replay_journal Aggressive 3000 ticks))"
proof -
  let ?j = "replay_journal Aggressive 3000 ticks"
  have f: "feed checksum_consume checksum_new ?j = (nat (persisted_events (res_counters r)), snk)"
    "0 \<le> persisted_events (res_counters r)" "res_sink_failed r = (persisted_events (res_counters r) < int (length ?j))"
    using run_feed [OF assms] by (simp_all add: checksum_env_def bench_config_def)
  have "fst (checksum_consume s e)" for s e by (simp add: checksum_consume_def Let_def)
  then have "fst (feed checksum_consume checksum_new ?j) = length ?j" by (rule feed_all)
  then have "persisted_events (res_counters r) = int (length ?j)" unfolding f(1) fst_conv using f(2) by linarith
  moreover have "accepted_events (res_counters r) = int (length ?j)"
  proof (rule run_replay_inv [OF assms(1)])
    fix c sd
    assume c: "kernel_inv (execution_style (bench_config mode)) c" "r = replay_result \<lparr>core = c, channel = sd\<rparr>"
      "core_journal c = replay_journal (execution_style (bench_config mode)) (passive_cancel_after_ns (bench_config mode)) ticks"
    then show ?thesis by (simp add: kernel_inv_def books_def Let_def bench_config_def)
  qed
  ultimately show ?thesis using f(3) by (simp add: journal_checksum_def f(1))
qed

text \<open>A trial is valid exactly when nothing was dropped and no collector overflowed.\<close>

lemma trial_valid_iff:
  assumes r: "run_replay (checksum_env runs k) ticks (bench_config mode) checksum_new = Some (Inr r, snk)"
  shows "trial_valid r \<longleftrightarrow> dropped_events (res_counters r) = 0 \<and> \<not> res_latency_overflow r"
proof (cases "dropped_events (res_counters r) = 0")
  case True
  have "venue_batch_overflows (res_counters r) = 0"
  proof (rule run_replay_inv [OF r])
    fix c sd
    assume "kernel_inv (execution_style (bench_config mode)) c" "r = replay_result \<lparr>core = c, channel = sd\<rparr>"
    then show ?thesis by (simp add: kernel_inv_def consistent_def Let_def)
  qed
  then show ?thesis using trial_facts [OF r True] True by (simp add: trial_valid_def)
qed (simp add: trial_valid_def)

lemma measured_step:
  assumes "run_replay (checksum_env runs k) ticks (bench_config mode) checksum_new = Some (Inr r, snk)"
    and "ref = (if trial = 1 then sink_checksum snk else ts_reference st)"
  defines "okay \<equiv> trial_valid r \<and> sink_checksum snk = ref"
  defines "line \<equiv> ts_text st @ trial_line (sink_mode_name mode) trial (run_elapsed runs k) r snk okay"
  shows "measured_runs runs ticks mode k trial (Suc n) st =
    (if \<not> okay then Some (Inr (False, st\<lparr>ts_reference := ref, ts_text := line\<rparr>))
     else case append_latencies (ts_aggregate st) (res_latencies r) of
       Inl e \<Rightarrow> Some (Inl (e, line))
     | Inr lat \<Rightarrow> measured_runs runs ticks mode (Suc k) (Suc trial) n \<lparr>ts_reference = ref, ts_aggregate = lat, ts_text = line\<rparr>)"
  unfolding measured_runs.simps assms(1) line_def okay_def by (simp only: assms(2) Let_def bind.simps case_prod_conv sum.case)

lemma measured_reference:
  assumes "measured_runs runs ticks mode k trial n st = Some (Inr (True, st'))" "0 < trial"
    and "trial \<noteq> 1 \<Longrightarrow> ts_reference st = journal_checksum ticks"
  shows "ts_reference st' = (if trial = 1 \<and> n = 0 then ts_reference st else journal_checksum ticks)"
  using assms
proof (induction n arbitrary: k trial st)
  case (Suc n)
  obtain x snk where x: "run_replay (checksum_env runs k) ticks (bench_config mode) checksum_new = Some (x, snk)"
    using Suc.prems(1) by (auto simp: Option.bind_eq_Some_conv)
  then obtain r where r: "x = Inr r" using Suc.prems(1) by (cases x) simp_all
  define ref where "ref = (if trial = 1 then sink_checksum snk else ts_reference st)"
  note step = measured_step [OF x [unfolded r] ref_def, where n = n]
  have okay: "trial_valid r \<and> sink_checksum snk = ref" using Suc.prems(1) unfolding step by (simp split: if_splits)
  then have "sink_checksum snk = journal_checksum ticks"
    using trial_facts x trial_valid_iff unfolding r by blast
  then have ref: "ref = journal_checksum ticks" using okay by simp
  obtain lat line where "measured_runs runs ticks mode (Suc k) (Suc trial) n
        \<lparr>ts_reference = ref, ts_aggregate = lat, ts_text = line\<rparr> = Some (Inr (True, st'))"
    using Suc.prems(1) okay unfolding step by (simp split: sum.splits)
  from Suc.IH [OF this] show ?case using Suc.prems(2) ref by simp
qed simp

lemma run_mode_checksum:
  assumes "run_mode runs ticks mode options csv = Some (Inr a)" "mode_valid a"
  shows "mode_checksum a = (if opt_measured options = 0 then 0 else journal_checksum ticks)"
proof -
  obtain warm where w: "warmup_runs runs ticks mode 0 (opt_warmup options) = Some warm"
    using assms(1) by (auto simp only: run_mode_def Option.bind_eq_Some_conv)
  have warm: "warm = Inr True"
    using assms by (cases warm) (auto simp: run_mode_def w invalid_mode_def split: if_splits)
  obtain lat where i: "initialize_aggregates (length ticks) (opt_measured options) = Inr lat"
    using assms(1) by (cases "initialize_aggregates (length ticks) (opt_measured options)") (simp_all add: run_mode_def w warm)
  let ?st = "\<lparr>ts_reference = 0, ts_aggregate = lat, ts_text = []\<rparr>"
  let ?run = "measured_runs runs ticks mode (opt_warmup options) 1 (opt_measured options) ?st"
  obtain y where m: "?run = Some y"
    using assms(1) by (cases ?run) (simp_all add: run_mode_def w warm i)
  obtain okay st where y: "y = Inr (okay, st)" using assms(1) m by (cases y) (auto simp: run_mode_def w warm i)
  have okay using assms m y by (cases okay) (auto simp: run_mode_def w warm i invalid_mode_def)
  then have "mode_checksum a = ts_reference st"
    using assms(1) m y by (auto simp: run_mode_def w warm i Option.bind_eq_Some_conv)
  then show ?thesis using measured_reference [of runs ticks mode "opt_warmup options" 1 "opt_measured options" ?st st] m y \<open>okay\<close> by simp
qed

section \<open>Definedness\<close>

text \<open>The bounds of a replay, for the warm-up runs and the aggregate over all trials.\<close>

definition safe_bench :: "int \<Rightarrow> int \<Rightarrow> int \<Rightarrow> Options \<Rightarrow> MarketTick list \<Rightarrow> bool" where
  "safe_bench T P B options ticks \<longleftrightarrow> feed_valid ticks \<and> ticks \<noteq> [] \<and> safe_feed T P B ticks \<and> 0 \<le> B \<and> 0 < opt_measured options \<and>
     4 * int (length ticks * opt_measured options) * B \<le> INT64_MAX \<and>
     4 * int (length ticks * opt_measured options) \<le> VECTOR_MAX_SIZE"

definition bounded_runs :: "int \<Rightarrow> BenchRuns \<Rightarrow> bool" where
  "bounded_runs B runs \<longleftrightarrow> (\<forall>k. bounded_clock B (checksum_env runs k))"

lemma bench_replay:
  assumes "safe_bench T P B options ticks"
  obtains r snk where "run_replay (checksum_env runs k) ticks (bench_config mode) checksum_new = Some (Inr r, snk)"
  using assms safe_feed_replay unfolding safe_bench_def by metis

lemma warmup_defined:
  assumes "safe_bench T P B options ticks"
  shows "\<exists>b. warmup_runs runs ticks mode k n = Some (Inr b)"
proof (induction n arbitrary: k)
  case (Suc n)
  obtain r snk where "run_replay (checksum_env runs k) ticks (bench_config mode) checksum_new = Some (Inr r, snk)"
    using bench_replay [OF assms] .
  then show ?case using Suc.IH [of "Suc k"] by auto
qed auto

lemma measured_defined:
  assumes s: "safe_bench T P B options ticks" "bounded_runs B runs"
  shows "filled B (length ticks * M) (length ticks * done_trials) (ts_aggregate st) \<Longrightarrow> done_trials + n = M \<Longrightarrow>
    \<exists>b st' m. measured_runs runs ticks mode k trial n st = Some (Inr (b, st')) \<and> filled B (length ticks * M) m (ts_aggregate st')"
proof (induction n arbitrary: k trial st done_trials)
  case (Suc n)
  have clk: "bounded_clock B (checksum_env runs k)" "0 \<le> B" using s by (simp_all add: bounded_runs_def safe_bench_def)
  obtain r snk where r: "run_replay (checksum_env runs k) ticks (bench_config mode) checksum_new = Some (Inr r, snk)"
    using bench_replay [OF s(1)] .
  have "length ticks * done_trials + length ticks \<le> length ticks * M"
    using Suc.prems(2) mult_le_mono2 [of "done_trials + 1" M "length ticks"] by simp
  from append_latencies_filled [OF Suc.prems(1) replay_filled [OF r clk] this] obtain lat where
    lat: "append_latencies (ts_aggregate st) (res_latencies r) = Inr lat"
      "filled B (length ticks * M) (length ticks * Suc done_trials) lat" by (auto simp: add.commute)
  have next_runs: "\<exists>b st' m. measured_runs runs ticks mode (Suc k) (Suc trial) n \<lparr>ts_reference = ref, ts_aggregate = lat, ts_text = line\<rparr> =
      Some (Inr (b, st')) \<and> filled B (length ticks * M) m (ts_aggregate st')" for ref line
    by (rule Suc.IH [of "Suc done_trials"]) (use lat(2) Suc.prems(2) in simp_all)
  define ref where "ref = (if trial = 1 then sink_checksum snk else ts_reference st)"
  show ?case
  proof (cases "trial_valid r \<and> sink_checksum snk = ref")
    case True
    then have t: "\<not> \<not> (trial_valid r \<and> sink_checksum snk = ref)" by simp
    show ?thesis unfolding measured_step [OF r ref_def] lat(1) sum.case if_not_P [OF t] by (rule next_runs)
  next
    case False
    show ?thesis unfolding measured_step [OF r ref_def] if_P [OF False]
      by (intro exI conjI) (rule refl, use Suc.prems(1) in simp)
  qed
qed auto

lemma emit_csv_rows_ok:
  assumes "\<And>c. ok (summarize (lat_of c lat)) (\<lambda>_. True)"
  shows "ok (emit_csv_rows name mode lat) (\<lambda>_. True)"
proof -
  define f where "f = (\<lambda>c col. the (emit_csv_row name col (lat_of c lat)))"
  have t: "emit_csv_row name col (lat_of c lat) = Some (f c col)" for col c
    using assms [of c] by (auto simp: emit_csv_row_def ok_iff f_def)
  from t [of _ ColStrategy] t [of _ ColRisk] t [of _ ColExecution] t [of _ ColAccounting] t [of _ ColEventSink] t [of _ ColEndToEnd]
  show ?thesis by (simp add: lat_of_def emit_csv_rows_def)
qed

lemma run_mode_defined:
  assumes s: "safe_bench T P B options ticks" "bounded_runs B runs"
  shows "\<exists>a. run_mode runs ticks mode options csv = Some (Inr a)"
proof -
  let ?M = "opt_measured options" and ?n = "length ticks"
  obtain warm where warm: "warmup_runs runs ticks mode 0 (opt_warmup options) = Some (Inr warm)"
    using warmup_defined [OF s(1)] by blast
  have b: "0 \<le> B" "0 < ?M" "4 * int (?n * ?M) * B \<le> INT64_MAX" "4 * int (?n * ?M) \<le> VECTOR_MAX_SIZE"
    using s(1) by (simp_all add: safe_bench_def)
  obtain lat where i: "initialize_latencies (?n * ?M) = Inr lat" using initialize_latencies_ok [OF b(4)] ..
  have "int ?n * int ?M \<le> SIZE_MAX" using b(4) by (simp add: VECTOR_MAX_SIZE_def SIZE_MAX_def)
  from zdiv_mono1 [OF this, of "int ?M"] have "int ?n \<le> SIZE_MAX div int ?M" using b(2) by simp
  then have agg: "initialize_aggregates ?n ?M = Inr lat" by (simp add: initialize_aggregates_def i)
  obtain okay st m where m: "measured_runs runs ticks mode (opt_warmup options) 1 ?M \<lparr>ts_reference = 0, ts_aggregate = lat, ts_text = []\<rparr> =
      Some (Inr (okay, st))" "filled B (?n * ?M) m (ts_aggregate st)"
    using measured_defined [OF s, of ?M 0 "\<lparr>ts_reference = 0, ts_aggregate = lat, ts_text = []\<rparr>" ?M mode "opt_warmup options" 1]
      aggregates_filled [OF agg b(1)] by auto
  have sums: "ok (summarize (lat_of c (ts_aggregate st))) (\<lambda>_. True)" for c by (rule filled_summary [OF m(2) b(1,3,4)])
  obtain t where t: "latency_lines mode (ts_aggregate st) = Some t" using latency_lines_ok [OF sums] by (auto simp: ok_iff)
  obtain u where u: "emit_csv_rows (sink_mode_name mode) mode (ts_aggregate st) = Some u"
    using emit_csv_rows_ok [OF sums] by (auto simp: ok_iff)
  show ?thesis by (cases warm; cases okay) (simp_all del: One_nat_def add: run_mode_def warm agg m(1) t u)
qed

section \<open>Short feeds\<close>

text \<open>On a feed whose events fit the ring, every trial has the same verdict: no collector overflows.\<close>

definition fits_collectors :: "MarketTick list \<Rightarrow> bool" where
  "fits_collectors ticks \<longleftrightarrow> length (replay_journal Aggressive 3000 ticks) \<le> 4 * length ticks"

lemma short_trial:
  assumes r: "run_replay (checksum_env runs k) ticks (bench_config mode) checksum_new = Some (Inr r, snk)"
    and "5 * length ticks \<le> 1024"
  shows "sink_checksum snk = journal_checksum ticks" "dropped_events (res_counters r) = 0" "\<not> res_sink_failed r"
    "res_latency_overflow r \<longleftrightarrow> \<not> fits_collectors ticks" "trial_valid r \<longleftrightarrow> fits_collectors ticks"
proof -
  have d: "dropped_events (res_counters r) = 0" by (rule small_run_no_drop [OF r assms(2)])
  note f = trial_facts [OF r d]
  show "res_latency_overflow r \<longleftrightarrow> \<not> fits_collectors ticks"
    using f latency_overflow_iff [OF r] by (simp add: fits_collectors_def) linarith
  then show "trial_valid r \<longleftrightarrow> fits_collectors ticks" using trial_valid_iff [OF r] d by simp
  show "sink_checksum snk = journal_checksum ticks" "dropped_events (res_counters r) = 0" "\<not> res_sink_failed r" using f d by simp_all
qed

lemma short_warmup:
  assumes s: "safe_bench T P B options ticks" "5 * length ticks \<le> 1024"
  shows "warmup_runs runs ticks mode k n = Some (Inr (n = 0 \<or> fits_collectors ticks))"
proof (induction n arbitrary: k)
  case (Suc n)
  obtain r snk where r: "run_replay (checksum_env runs k) ticks (bench_config mode) checksum_new = Some (Inr r, snk)"
    using bench_replay [OF s(1)] .
  show ?case using r short_trial [OF r s(2)] Suc.IH [of "Suc k"] by auto
qed simp

lemma short_measured:
  assumes "5 * length ticks \<le> 1024" "trial \<noteq> 1 \<Longrightarrow> ts_reference st = journal_checksum ticks" "0 < trial"
  shows "measured_runs runs ticks mode k trial n st = Some (Inr (b, st')) \<Longrightarrow> b \<longleftrightarrow> n = 0 \<or> fits_collectors ticks"
  using assms(2,3)
proof (induction n arbitrary: k trial st)
  case (Suc n)
  obtain x snk where x: "run_replay (checksum_env runs k) ticks (bench_config mode) checksum_new = Some (x, snk)"
    using Suc.prems(1) by (auto simp: Option.bind_eq_Some_conv)
  then obtain r where r: "x = Inr r" using Suc.prems(1) by (cases x) simp_all
  note t = short_trial [OF x [unfolded r] assms(1)]
  define ref where "ref = (if trial = 1 then sink_checksum snk else ts_reference st)"
  have ref: "ref = journal_checksum ticks" using Suc.prems(2) t(1) by (simp add: ref_def)
  note step = measured_step [OF x [unfolded r] ref_def, where n = n]
  show ?case
  proof (cases "fits_collectors ticks")
    case True
    obtain lat line where "measured_runs runs ticks mode (Suc k) (Suc trial) n
        \<lparr>ts_reference = ref, ts_aggregate = lat, ts_text = line\<rparr> = Some (Inr (b, st'))"
      using Suc.prems(1) True t ref unfolding step by (simp split: sum.splits)
    from Suc.IH [OF this] ref True show ?thesis by simp
  next
    case False
    then show ?thesis using Suc.prems(1) t unfolding step by simp
  qed
qed simp

lemma short_mode:
  assumes s: "safe_bench T P B options ticks" "bounded_runs B runs" and short: "5 * length ticks \<le> 1024"
    and a: "run_mode runs ticks mode options csv = Some (Inr a)"
  shows "mode_valid a \<longleftrightarrow> fits_collectors ticks"
proof (cases "opt_warmup options = 0 \<or> fits_collectors ticks")
  case True
  then have w: "warmup_runs runs ticks mode 0 (opt_warmup options) = Some (Inr True)" by (simp add: short_warmup [OF s(1) short])
  obtain lat where i: "initialize_aggregates (length ticks) (opt_measured options) = Inr lat"
    using a by (cases "initialize_aggregates (length ticks) (opt_measured options)") (simp_all add: run_mode_def w)
  let ?st = "\<lparr>ts_reference = 0, ts_aggregate = lat, ts_text = []\<rparr>"
  let ?run = "measured_runs runs ticks mode (opt_warmup options) 1 (opt_measured options) ?st"
  obtain y where m: "?run = Some y" using a by (cases ?run) (simp_all add: run_mode_def w i)
  obtain okay st where y: "y = Inr (okay, st)" using a m by (cases y) (auto simp: run_mode_def w i)
  have "0 < opt_measured options" using s(1) by (simp add: safe_bench_def)
  then have "okay \<longleftrightarrow> fits_collectors ticks"
    using short_measured [OF short, of 1 ?st runs mode "opt_warmup options" "opt_measured options" okay st] m y by simp
  moreover have "mode_valid a \<longleftrightarrow> okay"
    using a m y by (cases okay) (auto simp: run_mode_def w i invalid_mode_def Option.bind_eq_Some_conv)
  ultimately show ?thesis by simp
next
  case False
  then have "warmup_runs runs ticks mode 0 (opt_warmup options) = Some (Inr False)" by (simp add: short_warmup [OF s(1) short])
  then show ?thesis using a False by (auto simp: run_mode_def invalid_mode_def)
qed

lemma compare_modes_cases:
  assumes "compare_modes w sync_runs async_runs ticks options csv = Some (Inr result)"
  obtains (first) a where "run_mode sync_runs ticks SinkSync options (csv_good w csv) = Some (Inr a)" "\<not> mode_valid a"
      "\<not> bench_modes_valid result" "\<not> bench_equivalent result"
  | (both) a b c where "run_mode sync_runs ticks SinkSync options (csv_good w csv) = Some (Inr a)" "mode_valid a"
      "run_mode async_runs ticks SinkAsync options c = Some (Inr b)" "bench_modes_valid result = mode_valid b"
      "bench_equivalent result \<longleftrightarrow> mode_valid b \<and> mode_checksum a = mode_checksum b"
proof -
  obtain x where x: "run_mode sync_runs ticks SinkSync options (csv_good w csv) = Some x"
    using assms by (auto simp: compare_modes_def Let_def Option.bind_eq_Some_conv)
  then obtain a where a: "x = Inr a" using assms by (cases x) (auto simp: compare_modes_def Let_def)
  show ?thesis
  proof (cases "mode_valid a")
    case False
    then show ?thesis using first x a assms by (auto simp: compare_modes_def Let_def)
  next
    case True
    let ?c = "csv_good w (csv_write w csv (mode_csv a))"
    obtain y where y: "run_mode async_runs ticks SinkAsync options ?c = Some y"
      using assms True x a by (auto simp: compare_modes_def Let_def Option.bind_eq_Some_conv)
    then obtain b where b: "y = Inr b" using assms True x a by (cases y) (auto simp: compare_modes_def Let_def)
    show ?thesis using both [of a ?c b] True x y assms unfolding a b by (auto simp: compare_modes_def Let_def)
  qed
qed

lemma compare_modes_defined:
  assumes "safe_bench T P B options ticks" "bounded_runs B sync_runs" "bounded_runs B async_runs"
  obtains result where "compare_modes w sync_runs async_runs ticks options csv = Some (Inr result)"
proof -
  obtain a where a: "run_mode sync_runs ticks SinkSync options (csv_good w csv) = Some (Inr a)"
    using run_mode_defined [OF assms(1,2)] by blast
  obtain b where b: "run_mode async_runs ticks SinkAsync options (csv_good w (csv_write w csv (mode_csv a))) = Some (Inr b)"
    using run_mode_defined [OF assms(1,3)] by blast
  show ?thesis using that a b by (cases "mode_valid a") (simp_all add: compare_modes_def Let_def)
qed

section \<open>An example\<close>

definition idle_runs :: BenchRuns where
  "idle_runs = \<lparr>run_clock = (\<lambda>_ _. 0), run_schedule = (\<lambda>k _. k), run_elapsed = (\<lambda>_. 0)\<rparr>"

definition example_options :: Options where
  "example_options = \<lparr>opt_input = ''f'', opt_warmup = 2, opt_measured = 5, opt_csv_path = None\<rparr>"

lemma example_bench: "safe_bench 3000 100100 0 example_options example_ticks" "bounded_runs 0 idle_runs"
  using example_feed_valid example_safe
  by (simp_all add: safe_bench_def example_options_def bounded_runs_def bounded_clock_def checksum_env_def idle_runs_def
      VECTOR_MAX_SIZE_def) (simp_all add: example_ticks_def)

lemma example_journal: "length (replay_journal Aggressive 3000 example_ticks) \<le> 4 * length example_ticks"
  by code_simp

text \<open>
  A write to the CSV file that fails before the last flush goes unnoticed: the stream is
  no longer good, so it is neither flushed nor reported.
\<close>

lemma bench_failed_csv_ignored:
  "\<not> csv_good w (bench_csv result) \<Longrightarrow> bench_modes_valid result \<and> bench_equivalent result \<Longrightarrow>
     exit_code (finish_bench w out result) = EXIT_SUCCESS \<and> err_text (finish_bench w out result) = []"
  by (simp add: finish_bench_def Let_def)

section \<open>Properties\<close>

text \<open>
  C36. The equivalence check of the benchmark can fail only with the runs themselves: whenever the
  comparison ends and both modes are valid, their checksums agree, whatever the clocks and the
  scheduling of the sink thread, so that the line it prints is \<^verbatim>\<open>side_channel_equivalent=1\<close>
  exactly when no trial was invalid.
\<close>

theorem bench_modes_agree:
  assumes "compare_modes w sync_runs async_runs ticks options csv = Some (Inr result)"
  shows "bench_equivalent result \<longleftrightarrow> bench_modes_valid result"
  using assms
proof (cases rule: compare_modes_cases)
  case (both a b c)
  then show ?thesis using run_mode_checksum [OF both(1,2)] run_mode_checksum [OF both(3)] by auto
qed simp

theorem bench_modes_agree_witness:
  "\<exists>result. compare_modes text_world idle_runs idle_runs example_ticks example_options (Unopened True) = Some (Inr result) \<and>
     (bench_equivalent result \<longleftrightarrow> bench_modes_valid result)"
proof (rule compare_modes_defined [OF example_bench(1,2,2)])
  fix result
  assume r: "compare_modes text_world idle_runs idle_runs example_ticks example_options (Unopened True) = Some (Inr result)"
  from bench_modes_agree [OF r] r show ?thesis by blast
qed

text \<open>
  C37. On a feed short enough for the ring, with prices, times and clocks in bounds, the
  comparison of the modes ends without exception or undefined behaviour, the aggregate collectors
  taking every sample of every trial, and its verdict is decided by the feed alone: the run is
  good exactly when the business run makes at most four events per tick.
\<close>

theorem bench_short_verdict:
  assumes "safe_bench T P B options ticks" "bounded_runs B sync_runs" "bounded_runs B async_runs" "5 * length ticks \<le> 1024"
  shows "\<exists>result. compare_modes w sync_runs async_runs ticks options csv = Some (Inr result) \<and>
    (bench_modes_valid result \<and> bench_equivalent result \<longleftrightarrow> length (replay_journal Aggressive 3000 ticks) \<le> 4 * length ticks)"
proof -
  obtain result where r: "compare_modes w sync_runs async_runs ticks options csv = Some (Inr result)"
    by (rule compare_modes_defined [OF assms(1-3)])
  from r have "bench_modes_valid result \<and> bench_equivalent result \<longleftrightarrow> fits_collectors ticks"
  proof (cases rule: compare_modes_cases)
    case (first a)
    then show ?thesis using short_mode [OF assms(1,2,4) first(1)] by simp
  next
    case (both a b c)
    then show ?thesis
      using short_mode [OF assms(1,2,4) both(1)] short_mode [OF assms(1,3,4) both(3)]
        run_mode_checksum [OF both(1,2)] run_mode_checksum [OF both(3)] by auto
  qed
  with r show ?thesis by (simp add: fits_collectors_def)
qed

theorem bench_short_verdict_witness:
  "\<exists>result. compare_modes text_world idle_runs idle_runs example_ticks example_options (Unopened True) = Some (Inr result) \<and>
     bench_modes_valid result \<and> bench_equivalent result"
  using bench_short_verdict [OF example_bench(1,2,2), of text_world "Unopened True"] example_journal
  by (auto simp: example_ticks_def)

end
