(* ===== verification/Thread_Pool.thy ===== *)
theory Thread_Pool
  imports Main "HOL-Library.Multiset"
begin

text \<open>
  The thread pool of \<^verbatim>\<open>interview/thread_pool/thread_pool.h\<close>, with one step per critical section
  and one per notification, since \<^verbatim>\<open>submit\<close> and \<^verbatim>\<open>shutdown\<close> notify after they have released the
  mutex. A worker is about to take the mutex (\<open>Ready\<close>), asleep on the condition variable
  (\<open>Blocked\<close>), executing a task, or gone. Sleeping workers wake through a notification or
  spuriously. A task is a value with a ticket, the index of the shared state of its future;
  what calling it returns or throws is the parameter \<open>execute\<close>, and the packaged task stores
  either in the future, so that an exception never leaves the worker. The lists
  \<open>pool_accepted\<close>, \<open>pool_started\<close> and \<open>pool_finished\<close> are histories that no code reads.
\<close>

section \<open>The pool\<close>

type_synonym ticket = nat

datatype 'a worker = Ready | Blocked | Running ticket 'a | Exited

record ('a, 'o) ThreadPool =
  pool_workers :: "'a worker list"
  pool_tasks :: "(ticket \<times> 'a) list"
  pool_accepting :: bool
  pool_futures :: "'o option list"
  pool_notify_one :: nat
  pool_notify_all :: nat
  pool_accepted :: "'a list"
  pool_started :: "(ticket \<times> 'a) list"
  pool_finished :: "(ticket \<times> 'a) list"

definition pool_create :: "nat \<Rightarrow> string + ('a, 'o) ThreadPool" where
  "pool_create thread_count =
     (if thread_count = 0 then Inl ''thread_count must be greater than zero''
      else Inr \<lparr>pool_workers = replicate thread_count Ready, pool_tasks = [], pool_accepting = True,
             pool_futures = [], pool_notify_one = 0, pool_notify_all = 0,
             pool_accepted = [], pool_started = [], pool_finished = []\<rparr>)"

text \<open>
  \<^verbatim>\<open>submit\<close> up to the end of its critical section: the ticket of the future and the pool, which
  then owes a \<^verbatim>\<open>notify_one\<close>.
\<close>

definition pool_submit :: "('a, 'o) ThreadPool \<Rightarrow> 'a \<Rightarrow> string + (ticket \<times> ('a, 'o) ThreadPool)" where
  "pool_submit pool task =
     (let result = length (pool_futures pool)
      in if \<not> pool_accepting pool then Inl ''cannot submit task after thread pool shutdown''
         else Inr (result, pool\<lparr>pool_futures := pool_futures pool @ [None],
                pool_tasks := pool_tasks pool @ [(result, task)], pool_notify_one := pool_notify_one pool + 1,
                pool_accepted := pool_accepted pool @ [task]\<rparr>))"

text \<open>
  The critical section of \<^verbatim>\<open>shutdown\<close>, which then owes a \<^verbatim>\<open>notify_all\<close>; the rest of it waits until
  every worker has exited.
\<close>

definition pool_stop :: "('a, 'o) ThreadPool \<Rightarrow> ('a, 'o) ThreadPool" where
  "pool_stop pool = pool\<lparr>pool_accepting := False, pool_notify_all := pool_notify_all pool + 1\<rparr>"

definition pool_joined :: "('a, 'o) ThreadPool \<Rightarrow> bool" where
  "pool_joined pool = list_all (\<lambda>x. x = Exited) (pool_workers pool)"

definition thread_count :: "('a, 'o) ThreadPool \<Rightarrow> nat" where
  "thread_count pool = length (pool_workers pool)"

text \<open>
  The critical section of \<^verbatim>\<open>worker_loop\<close>: with the mutex held, the worker goes to sleep while
  the wait's condition does not hold, leaves, or takes the first task.
\<close>

definition worker_take :: "nat \<Rightarrow> ('a, 'o) ThreadPool \<Rightarrow> ('a, 'o) ThreadPool option" where
  "worker_take i pool =
     (if i < length (pool_workers pool) \<and> pool_workers pool ! i = Ready then
        if pool_accepting pool \<and> pool_tasks pool = []
        then Some (pool\<lparr>pool_workers := (pool_workers pool)[i := Blocked]\<rparr>)
        else if \<not> pool_accepting pool \<and> pool_tasks pool = []
        then Some (pool\<lparr>pool_workers := (pool_workers pool)[i := Exited]\<rparr>)
        else (let (result, task) = hd (pool_tasks pool)
              in Some (pool\<lparr>pool_workers := (pool_workers pool)[i := Running result task],
                   pool_tasks := tl (pool_tasks pool), pool_started := pool_started pool @ [(result, task)]\<rparr>))
      else None)"

text \<open>The task is called outside the mutex; the packaged task makes its future ready.\<close>

definition worker_run :: "('a \<Rightarrow> 'o) \<Rightarrow> nat \<Rightarrow> ('a, 'o) ThreadPool \<Rightarrow> ('a, 'o) ThreadPool option" where
  "worker_run execute i pool =
     (if i < length (pool_workers pool) then
        case pool_workers pool ! i of
          Running result task \<Rightarrow> Some (pool\<lparr>pool_workers := (pool_workers pool)[i := Ready],
            pool_futures := (pool_futures pool)[result := Some (execute task)],
            pool_finished := pool_finished pool @ [(result, task)]\<rparr>)
        | _ \<Rightarrow> None
      else None)"

text \<open>A sleeping worker wakes up.\<close>

definition worker_wake :: "nat \<Rightarrow> ('a, 'o) ThreadPool \<Rightarrow> ('a, 'o) ThreadPool option" where
  "worker_wake i pool =
     (if i < length (pool_workers pool) \<and> pool_workers pool ! i = Blocked
      then Some (pool\<lparr>pool_workers := (pool_workers pool)[i := Ready]\<rparr>) else None)"

text \<open>
  \<^verbatim>\<open>notify_one\<close> wakes one of the sleeping workers, if there is one; \<^verbatim>\<open>notify_all\<close> wakes all.
\<close>

definition notify_one :: "nat option \<Rightarrow> ('a, 'o) ThreadPool \<Rightarrow> ('a, 'o) ThreadPool option" where
  "notify_one choice pool =
     (if pool_notify_one pool = 0 then None
      else let paid = pool\<lparr>pool_notify_one := pool_notify_one pool - 1\<rparr>
           in case choice of
                None \<Rightarrow> if Blocked \<in> set (pool_workers pool) then None else Some paid
              | Some i \<Rightarrow> worker_wake i paid)"

definition woken :: "'a worker \<Rightarrow> 'a worker" where
  "woken x = (if x = Blocked then Ready else x)"

definition notify_all :: "('a, 'o) ThreadPool \<Rightarrow> ('a, 'o) ThreadPool option" where
  "notify_all pool =
     (if pool_notify_all pool = 0 then None
      else Some (pool\<lparr>pool_notify_all := pool_notify_all pool - 1, pool_workers := map woken (pool_workers pool)\<rparr>))"

text \<open>
  What the pool does by itself: steps of the workers and notifications that are owed. The
  states it can be in add the clients' calls and spurious wake-ups.
\<close>

inductive pool_step :: "('a \<Rightarrow> 'o) \<Rightarrow> ('a, 'o) ThreadPool \<Rightarrow> ('a, 'o) ThreadPool \<Rightarrow> bool" for execute where
  take: "worker_take i pool = Some pool' \<Longrightarrow> pool_step execute pool pool'"
| run: "worker_run execute i pool = Some pool' \<Longrightarrow> pool_step execute pool pool'"
| one: "notify_one choice pool = Some pool' \<Longrightarrow> pool_step execute pool pool'"
| all: "notify_all pool = Some pool' \<Longrightarrow> pool_step execute pool pool'"

inductive pool_reach :: "('a \<Rightarrow> 'o) \<Rightarrow> nat \<Rightarrow> ('a, 'o) ThreadPool \<Rightarrow> bool" for execute thread_count where
  create: "pool_create thread_count = Inr pool \<Longrightarrow> pool_reach execute thread_count pool"
| submit: "pool_reach execute thread_count pool \<Longrightarrow> pool_submit pool task = Inr (result, pool') \<Longrightarrow>
    pool_reach execute thread_count pool'"
| stop: "pool_reach execute thread_count pool \<Longrightarrow> pool_reach execute thread_count (pool_stop pool)"
| spurious: "pool_reach execute thread_count pool \<Longrightarrow> worker_wake i pool = Some pool' \<Longrightarrow>
    pool_reach execute thread_count pool'"
| step: "pool_reach execute thread_count pool \<Longrightarrow> pool_step execute pool pool' \<Longrightarrow> pool_reach execute thread_count pool'"

section \<open>Sums over the workers\<close>

text \<open>A value per worker, summed: changing one worker changes the sum by that worker's share.\<close>

definition over_workers :: "('a worker \<Rightarrow> 'b :: comm_monoid_add) \<Rightarrow> 'a worker list \<Rightarrow> 'b" where
  "over_workers f ws = sum_list (map f ws)"

lemma over_workers_update:
  assumes "i < length ws"
  shows "over_workers f (ws[i := x]) + f (ws ! i) = over_workers f ws + f x"
proof -
  have "ws = take i ws @ ws ! i # drop (Suc i) ws" using assms by (simp add: id_take_nth_drop)
  then have "over_workers f ws = over_workers f (take i ws) + f (ws ! i) + over_workers f (drop (Suc i) ws)"
    unfolding over_workers_def by (metis map_append list.map(2) sum_list.append sum_list.Cons add.assoc)
  then show ?thesis using assms by (simp add: upd_conv_take_nth_drop over_workers_def ac_simps)
qed

lemma over_workers_zero: "\<forall>x \<in> set ws. f x = 0 \<Longrightarrow> over_workers f ws = 0"
  by (induction ws) (simp_all add: over_workers_def)

lemma over_workers_replicate: "f x = 0 \<Longrightarrow> over_workers f (replicate n x) = 0"
  by (rule over_workers_zero) simp

lemma over_workers_woken: "(\<And>x. f (woken x) = f x) \<Longrightarrow> over_workers f (map woken ws) = over_workers f ws"
  by (induction ws) (simp_all add: over_workers_def)

primrec running_task :: "'a worker \<Rightarrow> (ticket \<times> 'a) multiset" where
  "running_task Ready = {#}"
| "running_task Blocked = {#}"
| "running_task (Running result task) = {#(result, task)#}"
| "running_task Exited = {#}"

definition ready_worker :: "'a worker \<Rightarrow> nat" where
  "ready_worker x = (if x = Ready then 1 else 0)"

lemma running_woken [simp]: "running_task (woken x) = running_task x"
  by (cases x) (simp_all add: woken_def)

lemma worker_shares [simp]:
  "ready_worker Ready = 1" "ready_worker Blocked = 0" "ready_worker (Running result task) = 0" "ready_worker Exited = 0"
  by (simp_all add: ready_worker_def)

section \<open>The invariant\<close>

text \<open>
  Tasks are started in order, each is finished at most once; a future is ready exactly when
  its task is finished; a worker leaves only after the end; and no wake-up is lost: while a
  worker sleeps, every queued task has a worker that is awake for it or a notification
  that is still owed, and after the stop nobody sleeps once everybody was notified.
\<close>

definition tickets :: "'a list \<Rightarrow> (ticket \<times> 'a) list" where
  "tickets tasks = zip [0..<length tasks] tasks"

definition pool_order :: "('a, 'o) ThreadPool \<Rightarrow> bool" where
  "pool_order pool \<longleftrightarrow> tickets (pool_accepted pool) = pool_started pool @ pool_tasks pool \<and>
     mset (pool_started pool) = mset (pool_finished pool) + over_workers running_task (pool_workers pool)"

definition pool_delivery :: "('a \<Rightarrow> 'o) \<Rightarrow> ('a, 'o) ThreadPool \<Rightarrow> bool" where
  "pool_delivery execute pool \<longleftrightarrow> length (pool_futures pool) = length (pool_accepted pool) \<and>
     (\<forall>i < length (pool_futures pool). pool_futures pool ! i =
        (if (i, pool_accepted pool ! i) \<in> set (pool_finished pool) then Some (execute (pool_accepted pool ! i)) else None))"

definition pool_wakeups :: "('a, 'o) ThreadPool \<Rightarrow> bool" where
  "pool_wakeups pool \<longleftrightarrow> pool_workers pool \<noteq> [] \<and>
     (Exited \<in> set (pool_workers pool) \<longrightarrow> \<not> pool_accepting pool \<and> pool_tasks pool = []) \<and>
     (Blocked \<in> set (pool_workers pool) \<longrightarrow>
        length (pool_tasks pool) \<le> pool_notify_one pool + over_workers ready_worker (pool_workers pool) \<and>
        (\<not> pool_accepting pool \<longrightarrow> 0 < pool_notify_all pool))"

lemma tickets_snoc: "tickets (xs @ [x]) = tickets xs @ [(length xs, x)]"
  by (simp add: tickets_def)

lemma tickets_in: "(i, x) \<in> set (tickets xs) \<longleftrightarrow> i < length xs \<and> x = xs ! i"
  by (force simp: tickets_def in_set_zip)

lemma worker_take_cases:
  assumes "worker_take i pool = Some pool'"
  obtains (sleep) "i < length (pool_workers pool)" "pool_workers pool ! i = Ready" "pool_accepting pool" "pool_tasks pool = []"
      "pool' = pool\<lparr>pool_workers := (pool_workers pool)[i := Blocked]\<rparr>"
  | (leave) "i < length (pool_workers pool)" "pool_workers pool ! i = Ready" "\<not> pool_accepting pool" "pool_tasks pool = []"
      "pool' = pool\<lparr>pool_workers := (pool_workers pool)[i := Exited]\<rparr>"
  | (begin_task) t x ts where "i < length (pool_workers pool)" "pool_workers pool ! i = Ready" "pool_tasks pool = (t, x) # ts"
      "pool' = pool\<lparr>pool_workers := (pool_workers pool)[i := Running t x], pool_tasks := ts,
         pool_started := pool_started pool @ [(t, x)]\<rparr>"
  using assms by (cases "pool_tasks pool") (auto simp: worker_take_def split: if_splits)

lemma worker_run_cases:
  assumes "worker_run execute i pool = Some pool'"
  obtains t x where "i < length (pool_workers pool)" "pool_workers pool ! i = Running t x"
    "pool' = pool\<lparr>pool_workers := (pool_workers pool)[i := Ready], pool_futures := (pool_futures pool)[t := Some (execute x)],
       pool_finished := pool_finished pool @ [(t, x)]\<rparr>"
  using assms by (auto simp: worker_run_def split: if_splits worker.splits)

lemma worker_wake_cases:
  assumes "worker_wake i pool = Some pool'"
  obtains "i < length (pool_workers pool)" "pool_workers pool ! i = Blocked"
    "pool' = pool\<lparr>pool_workers := (pool_workers pool)[i := Ready]\<rparr>"
  using assms by (auto simp: worker_wake_def split: if_splits)

lemma notify_one_cases:
  assumes "notify_one choice pool = Some pool'"
  obtains (nobody) "0 < pool_notify_one pool" "Blocked \<notin> set (pool_workers pool)"
      "pool' = pool\<lparr>pool_notify_one := pool_notify_one pool - 1\<rparr>"
  | (wakes) i where "0 < pool_notify_one pool" "i < length (pool_workers pool)" "pool_workers pool ! i = Blocked"
      "pool' = pool\<lparr>pool_notify_one := pool_notify_one pool - 1, pool_workers := (pool_workers pool)[i := Ready]\<rparr>"
  using assms by (auto simp: notify_one_def worker_wake_def Let_def split: if_splits option.splits)

lemma notify_all_cases:
  assumes "notify_all pool = Some pool'"
  obtains "0 < pool_notify_all pool"
    "pool' = pool\<lparr>pool_notify_all := pool_notify_all pool - 1, pool_workers := map woken (pool_workers pool)\<rparr>"
  using assms by (auto simp: notify_all_def split: if_splits)

lemma member_update:
  assumes "x \<in> set (ws[i := y])" "x \<noteq> y"
  shows "x \<in> set ws"
  using assms set_update_subset_insert by fastforce

subsection \<open>Order of the tasks\<close>

lemma pool_order_take:
  assumes "pool_order pool" "worker_take i pool = Some pool'"
  shows "pool_order pool'"
  using assms(2)
proof (cases rule: worker_take_cases)
  case sleep
  then show ?thesis using assms(1) over_workers_update [OF sleep(1), of running_task Blocked] by (simp add: pool_order_def)
next
  case leave
  then show ?thesis using assms(1) over_workers_update [OF leave(1), of running_task Exited] by (simp add: pool_order_def)
next
  case (begin_task t x ts)
  then show ?thesis
    using assms(1) over_workers_update [OF begin_task(1), of running_task "Running t x"] by (simp add: pool_order_def)
qed

lemma pool_order_run:
  assumes "pool_order pool" "worker_run execute i pool = Some pool'"
  shows "pool_order pool'"
  using assms(2)
proof (rule worker_run_cases)
  fix t x
  assume r: "i < length (pool_workers pool)" "pool_workers pool ! i = Running t x"
    "pool' = pool\<lparr>pool_workers := (pool_workers pool)[i := Ready], pool_futures := (pool_futures pool)[t := Some (execute x)],
       pool_finished := pool_finished pool @ [(t, x)]\<rparr>"
  then show ?thesis using assms(1) over_workers_update [OF r(1), of running_task Ready] by (simp add: pool_order_def)
qed

lemma pool_order_wake:
  assumes "pool_order pool" "worker_wake i pool = Some pool'"
  shows "pool_order pool'"
  using assms(2)
proof (rule worker_wake_cases)
  assume w: "i < length (pool_workers pool)" "pool_workers pool ! i = Blocked"
    "pool' = pool\<lparr>pool_workers := (pool_workers pool)[i := Ready]\<rparr>"
  then show ?thesis using assms(1) over_workers_update [OF w(1), of running_task Ready] by (simp add: pool_order_def)
qed

lemma pool_order_step:
  assumes "pool_step execute pool pool'" "pool_order pool"
  shows "pool_order pool'"
  using assms(1)
proof (cases rule: pool_step.cases)
  case (one choice)
  from one show ?thesis
  proof (cases rule: notify_one_cases)
    case nobody
    then show ?thesis using assms(2) by (simp add: pool_order_def)
  next
    case (wakes i)
    then show ?thesis
      using assms(2) over_workers_update [OF wakes(2), of running_task Ready] by (simp add: pool_order_def)
  qed
next
  case all
  then show ?thesis
    using assms(2) by (auto simp: pool_order_def over_workers_woken elim!: notify_all_cases)
qed (use assms(2) in \<open>blast intro: pool_order_take pool_order_run\<close>)+

lemma finished_tickets:
  assumes "pool_order pool" "(t, x) \<in> set (pool_finished pool) \<or> Running t x \<in> set (pool_workers pool)"
  shows "t < length (pool_accepted pool) \<and> x = pool_accepted pool ! t"
proof -
  have "(t, x) \<in># over_workers running_task ws" if "Running t x \<in> set ws" for ws :: "'a worker list"
    using that by (induction ws) (auto simp: over_workers_def)
  then have "(t, x) \<in># mset (pool_finished pool) + over_workers running_task (pool_workers pool)" using assms(2) by auto
  moreover have "mset (pool_started pool) = mset (pool_finished pool) + over_workers running_task (pool_workers pool)"
    using assms(1) by (simp add: pool_order_def)
  ultimately have "(t, x) \<in># mset (pool_started pool)" by simp
  then have "(t, x) \<in> set (tickets (pool_accepted pool))" using assms(1) by (simp add: pool_order_def)
  then show ?thesis by (simp add: tickets_in)
qed

subsection \<open>Futures\<close>

lemma pool_delivery_frame:
  "pool_delivery execute (pool\<lparr>pool_workers := ws\<rparr>) = pool_delivery execute pool"
  "pool_delivery execute (pool\<lparr>pool_tasks := ts\<rparr>) = pool_delivery execute pool"
  "pool_delivery execute (pool\<lparr>pool_started := ss\<rparr>) = pool_delivery execute pool"
  "pool_delivery execute (pool\<lparr>pool_accepting := b\<rparr>) = pool_delivery execute pool"
  "pool_delivery execute (pool\<lparr>pool_notify_one := n\<rparr>) = pool_delivery execute pool"
  "pool_delivery execute (pool\<lparr>pool_notify_all := n\<rparr>) = pool_delivery execute pool"
  by (simp_all add: pool_delivery_def)

lemma pool_delivery_run:
  assumes d: "pool_delivery execute pool" "pool_order pool" and r: "worker_run execute i pool = Some pool'"
  shows "pool_delivery execute pool'"
  using r
proof (rule worker_run_cases)
  fix t x
  assume r: "i < length (pool_workers pool)" "pool_workers pool ! i = Running t x"
    "pool' = pool\<lparr>pool_workers := (pool_workers pool)[i := Ready], pool_futures := (pool_futures pool)[t := Some (execute x)],
       pool_finished := pool_finished pool @ [(t, x)]\<rparr>"
  have "Running t x \<in> set (pool_workers pool)" using r(1,2) by (metis nth_mem)
  then have "t < length (pool_accepted pool)" "x = pool_accepted pool ! t" using finished_tickets [OF d(2)] by blast+
  then show ?thesis using d(1) unfolding r(3) by (auto simp: pool_delivery_def nth_list_update)
qed

lemma pool_delivery_step:
  assumes "pool_step execute pool pool'" "pool_delivery execute pool" "pool_order pool"
  shows "pool_delivery execute pool'"
  using assms(1)
proof (cases rule: pool_step.cases)
  case (take i)
  then show ?thesis using assms(2) by (elim worker_take_cases) (simp_all add: pool_delivery_frame)
next
  case (one choice)
  then show ?thesis using assms(2) by (elim notify_one_cases) (simp_all add: pool_delivery_frame)
next
  case all
  then show ?thesis using assms(2) by (elim notify_all_cases) (simp add: pool_delivery_frame)
qed (use assms(2,3) in \<open>blast intro: pool_delivery_run\<close>)

lemma pool_delivery_submit:
  assumes "pool_delivery execute pool" "pool_order pool" "pool_submit pool task = Inr (result, pool')"
  shows "pool_delivery execute pool' \<and> pool_order pool' \<and> result = length (pool_accepted pool)"
proof -
  let ?n = "length (pool_futures pool)"
  have s: "result = ?n" "pool' = pool\<lparr>pool_futures := pool_futures pool @ [None], pool_tasks := pool_tasks pool @ [(?n, task)],
      pool_notify_one := pool_notify_one pool + 1, pool_accepted := pool_accepted pool @ [task]\<rparr>"
    using assms(3) by (auto simp: pool_submit_def Let_def split: if_splits)
  have n: "?n = length (pool_accepted pool)" using assms(1) by (simp add: pool_delivery_def)
  have "(i, x) \<notin> set (pool_finished pool)" if "i \<ge> ?n" for i x using finished_tickets [OF assms(2)] that n by fastforce
  then have "pool_delivery execute pool'"
    using assms(1) n unfolding s(2) by (auto simp: pool_delivery_def nth_append less_Suc_eq)
  moreover have "pool_order pool'" using assms(2) n unfolding s(2) by (simp add: pool_order_def tickets_snoc)
  ultimately show ?thesis using s(1) n by simp
qed

subsection \<open>Wake-ups\<close>

lemma pool_wakeups_take:
  assumes "pool_wakeups pool" "worker_take i pool = Some pool'"
  shows "pool_wakeups pool'"
  using assms(2)
proof (cases rule: worker_take_cases)
  case sleep
  then show ?thesis using assms(1) by (auto simp: pool_wakeups_def dest: member_update)
next
  case leave
  then show ?thesis using assms(1) by (auto simp: pool_wakeups_def dest: member_update)
next
  case (begin_task t x ts)
  have "Exited \<notin> set (pool_workers pool)" using assms(1) begin_task(3) by (auto simp: pool_wakeups_def)
  then show ?thesis
    using assms(1) begin_task over_workers_update [OF begin_task(1), of ready_worker "Running t x"]
    by (auto simp: pool_wakeups_def dest: member_update)
qed

lemma pool_wakeups_run:
  assumes "pool_wakeups pool" "worker_run execute i pool = Some pool'"
  shows "pool_wakeups pool'"
  using assms(2)
proof (rule worker_run_cases)
  fix t x
  assume r: "i < length (pool_workers pool)" "pool_workers pool ! i = Running t x"
    "pool' = pool\<lparr>pool_workers := (pool_workers pool)[i := Ready], pool_futures := (pool_futures pool)[t := Some (execute x)],
       pool_finished := pool_finished pool @ [(t, x)]\<rparr>"
  then show ?thesis
    using assms(1) over_workers_update [OF r(1), of ready_worker Ready] by (auto simp: pool_wakeups_def dest: member_update)
qed

lemma pool_wakeups_wake:
  assumes "pool_wakeups pool" "worker_wake i pool = Some pool'"
  shows "pool_wakeups pool'"
  using assms(2)
proof (rule worker_wake_cases)
  assume w: "i < length (pool_workers pool)" "pool_workers pool ! i = Blocked"
    "pool' = pool\<lparr>pool_workers := (pool_workers pool)[i := Ready]\<rparr>"
  then show ?thesis
    using assms(1) over_workers_update [OF w(1), of ready_worker Ready] by (auto simp: pool_wakeups_def dest: member_update)
qed

lemma woken_blocked [simp]: "Blocked \<notin> woken ` X" "Exited \<in> woken ` X \<longleftrightarrow> Exited \<in> X"
  by (auto simp: woken_def split: if_splits)

lemma pool_wakeups_step:
  assumes "pool_step execute pool pool'" "pool_wakeups pool"
  shows "pool_wakeups pool'"
  using assms(1)
proof (cases rule: pool_step.cases)
  case (one choice)
  from one show ?thesis
  proof (cases rule: notify_one_cases)
    case nobody
    then show ?thesis using assms(2) by (simp add: pool_wakeups_def)
  next
    case (wakes i)
    then show ?thesis
      using assms(2) over_workers_update [OF wakes(2), of ready_worker Ready] by (auto simp: pool_wakeups_def dest: member_update)
  qed
next
  case all
  then show ?thesis using assms(2) by (elim notify_all_cases) (simp add: pool_wakeups_def)
qed (use assms(2) in \<open>blast intro: pool_wakeups_take pool_wakeups_run\<close>)+

definition pool_inv :: "('a \<Rightarrow> 'o) \<Rightarrow> ('a, 'o) ThreadPool \<Rightarrow> bool" where
  "pool_inv execute pool \<longleftrightarrow> pool_order pool \<and> pool_delivery execute pool \<and> pool_wakeups pool"

lemma pool_inv_step: "pool_step execute pool pool' \<Longrightarrow> pool_inv execute pool \<Longrightarrow> pool_inv execute pool'"
  unfolding pool_inv_def by (blast intro: pool_order_step pool_delivery_step pool_wakeups_step)

lemma pool_reach_inv: "pool_reach execute n pool \<Longrightarrow> pool_inv execute pool"
proof (induction rule: pool_reach.induct)
  case (create pool)
  then show ?case
    by (auto simp: pool_create_def pool_inv_def pool_order_def pool_delivery_def pool_wakeups_def tickets_def
        over_workers_replicate split: if_splits)
next
  case (submit pool task result pool')
  then have "pool_wakeups pool'"
    by (auto simp: pool_submit_def Let_def pool_inv_def pool_wakeups_def split: if_splits)
  moreover have "pool_delivery execute pool' \<and> pool_order pool'"
    using pool_delivery_submit [OF _ _ submit.hyps(2), of execute] submit.IH by (simp add: pool_inv_def)
  ultimately show ?case by (simp add: pool_inv_def)
next
  case (stop pool)
  then show ?case by (auto simp: pool_stop_def pool_inv_def pool_order_def pool_delivery_def pool_wakeups_def)
next
  case (spurious pool i pool')
  then have "pool_delivery execute pool'" by (auto simp: pool_inv_def pool_delivery_frame elim!: worker_wake_cases)
  with spurious show ?case by (auto simp: pool_inv_def intro: pool_order_wake pool_wakeups_wake)
next
  case (step pool pool')
  then show ?case using pool_inv_step by blast
qed

lemma pool_reach_thread_count: "pool_reach execute n pool \<Longrightarrow> thread_count pool = n"
  by (induction rule: pool_reach.induct)
    (auto simp: thread_count_def pool_create_def pool_submit_def pool_stop_def Let_def worker_run_def notify_one_def
      notify_all_def elim!: pool_step.cases worker_take_cases worker_wake_cases split: if_splits worker.splits option.splits)

section \<open>Coming to rest\<close>

text \<open>Every step the pool takes by itself decreases a measure: left alone, it comes to rest.\<close>

primrec worker_weight :: "'a worker \<Rightarrow> nat" where
  "worker_weight Ready = 1"
| "worker_weight Blocked = 0"
| "worker_weight (Running result task) = 2"
| "worker_weight Exited = 0"

definition pool_weight :: "('a, 'o) ThreadPool \<Rightarrow> nat" where
  "pool_weight pool = 2 * length (pool_tasks pool) + over_workers worker_weight (pool_workers pool) +
     2 * pool_notify_one pool + (length (pool_workers pool) + 1) * pool_notify_all pool"

lemma woken_weight: "over_workers worker_weight (map woken ws) \<le> over_workers worker_weight ws + length ws"
proof (induction ws)
  case (Cons w ws)
  then show ?case by (cases w) (auto simp: over_workers_def woken_def)
qed (simp add: over_workers_def)

lemma pool_step_decreases:
  assumes "pool_step execute pool pool'"
  shows "pool_weight pool' < pool_weight pool \<and> pool_accepting pool' = pool_accepting pool \<and>
    pool_accepted pool' = pool_accepted pool"
  using assms
proof (cases rule: pool_step.cases)
  case (take i)
  from take show ?thesis
  proof (cases rule: worker_take_cases)
    case sleep
    then show ?thesis using over_workers_update [OF sleep(1), of worker_weight Blocked] by (simp add: pool_weight_def)
  next
    case leave
    then show ?thesis using over_workers_update [OF leave(1), of worker_weight Exited] by (simp add: pool_weight_def)
  next
    case (begin_task t x ts)
    then show ?thesis
      using over_workers_update [OF begin_task(1), of worker_weight "Running t x"] by (simp add: pool_weight_def)
  qed
next
  case (run i)
  then show ?thesis
  proof (rule worker_run_cases)
    fix t x
    assume r: "i < length (pool_workers pool)" "pool_workers pool ! i = Running t x"
      "pool' = pool\<lparr>pool_workers := (pool_workers pool)[i := Ready], pool_futures := (pool_futures pool)[t := Some (execute x)],
         pool_finished := pool_finished pool @ [(t, x)]\<rparr>"
    then show ?thesis using over_workers_update [OF r(1), of worker_weight Ready] by (simp add: pool_weight_def)
  qed
next
  case (one choice)
  from one show ?thesis
  proof (cases rule: notify_one_cases)
    case nobody
    then show ?thesis by (simp add: pool_weight_def)
  next
    case (wakes i)
    then show ?thesis using over_workers_update [OF wakes(2), of worker_weight Ready] by (simp add: pool_weight_def)
  qed
next
  case all
  then show ?thesis
  proof (rule notify_all_cases)
    assume n: "0 < pool_notify_all pool"
      "pool' = pool\<lparr>pool_notify_all := pool_notify_all pool - 1, pool_workers := map woken (pool_workers pool)\<rparr>"
    then obtain m where "pool_notify_all pool = Suc m" using gr0_implies_Suc by blast
    then show ?thesis using n woken_weight [of "pool_workers pool"] by (simp add: pool_weight_def)
  qed
qed

text \<open>
  The pool can take a step by itself unless it is at rest: every task finished, nothing owed,
  and the workers asleep, or gone after the stop.
\<close>

definition pool_at_rest :: "('a, 'o) ThreadPool \<Rightarrow> bool" where
  "pool_at_rest pool \<longleftrightarrow> pool_tasks pool = [] \<and> pool_notify_one pool = 0 \<and> pool_notify_all pool = 0 \<and>
     (if pool_accepting pool then list_all (\<lambda>x. x = Blocked) (pool_workers pool) else pool_joined pool)"

lemma stuck_worker:
  assumes stuck: "\<And>pool'. \<not> pool_step execute pool pool'" and x: "x \<in> set (pool_workers pool)"
  shows "x = Blocked \<or> x = Exited"
proof -
  obtain i where i: "i < length (pool_workers pool)" "pool_workers pool ! i = x" using x by (metis in_set_conv_nth)
  show ?thesis
  proof (cases x)
    case Ready
    then have "\<exists>pool'. worker_take i pool = Some pool'" using i by (auto simp: worker_take_def split_beta)
    then show ?thesis using stuck pool_step.take by blast
  next
    case (Running t task)
    then have "\<exists>pool'. worker_run execute i pool = Some pool'" using i by (auto simp: worker_run_def)
    then show ?thesis using stuck pool_step.run by blast
  qed simp_all
qed

lemma notify_one_enabled:
  assumes "pool_notify_one pool \<noteq> 0"
  shows "\<exists>choice pool'. notify_one choice pool = Some pool'"
proof (cases "Blocked \<in> set (pool_workers pool)")
  case True
  then obtain i where "i < length (pool_workers pool)" "pool_workers pool ! i = Blocked" by (metis in_set_conv_nth)
  then have "notify_one (Some i) pool \<noteq> None" using assms by (simp add: notify_one_def worker_wake_def Let_def)
  then show ?thesis by blast
next
  case False
  then have "notify_one None pool \<noteq> None" using assms by (simp add: notify_one_def Let_def)
  then show ?thesis by blast
qed

lemma stuck_notifications:
  assumes stuck: "\<And>pool'. \<not> pool_step execute pool pool'"
  shows "pool_notify_all pool = 0" "pool_notify_one pool = 0"
proof -
  have "pool_notify_all pool \<noteq> 0 \<Longrightarrow> \<exists>pool'. notify_all pool = Some pool'" by (simp add: notify_all_def)
  then show "pool_notify_all pool = 0" using stuck pool_step.all by blast
  show "pool_notify_one pool = 0" using notify_one_enabled stuck pool_step.one by blast
qed

lemma pool_step_enabled:
  assumes inv: "pool_wakeups pool" and stuck: "\<And>pool'. \<not> pool_step execute pool pool'"
  shows "pool_at_rest pool"
proof -
  note idle = stuck_worker [OF stuck] and none = stuck_notifications [OF stuck]
  have ready: "over_workers ready_worker (pool_workers pool) = 0"
    by (intro over_workers_zero) (auto simp: ready_worker_def dest: idle)
  show ?thesis
  proof (cases "Exited \<in> set (pool_workers pool)")
    case True
    then have "Blocked \<notin> set (pool_workers pool)" using inv none by (auto simp: pool_wakeups_def)
    then have "pool_joined pool" using idle by (auto simp: pool_joined_def list_all_iff)
    then show ?thesis using True inv none by (simp add: pool_at_rest_def pool_wakeups_def)
  next
    case False
    then have b: "\<forall>x \<in> set (pool_workers pool). x = Blocked" using idle by blast
    then have "Blocked \<in> set (pool_workers pool)" using inv by (cases "pool_workers pool") (auto simp: pool_wakeups_def)
    then have "pool_tasks pool = []" "pool_accepting pool" using inv none ready by (auto simp: pool_wakeups_def)
    then show ?thesis using b none by (simp add: pool_at_rest_def list_all_iff)
  qed
qed

lemma pool_comes_to_rest:
  "pool_wakeups pool \<Longrightarrow> \<exists>pool'. (pool_step execute)\<^sup>*\<^sup>* pool pool' \<and> pool_at_rest pool' \<and>
     pool_accepting pool' = pool_accepting pool \<and> pool_accepted pool' = pool_accepted pool"
proof (induction "pool_weight pool" arbitrary: pool rule: less_induct)
  case less
  show ?case
  proof (cases "\<exists>pool'. pool_step execute pool pool'")
    case True
    then obtain q where s: "pool_step execute pool q" by blast
    note d = pool_step_decreases [OF s]
    obtain pool' where "(pool_step execute)\<^sup>*\<^sup>* q pool'" "pool_at_rest pool'" "pool_accepting pool' = pool_accepting q"
        "pool_accepted pool' = pool_accepted q"
      using less.hyps [of q] d pool_wakeups_step [OF s less.prems] by blast
    then show ?thesis using s d by (metis converse_rtranclp_into_rtranclp)
  next
    case False
    then show ?thesis using pool_step_enabled [OF less.prems, of execute] by blast
  qed
qed

lemma pool_steps_reach: "(pool_step execute)\<^sup>*\<^sup>* pool pool' \<Longrightarrow> pool_reach execute n pool \<Longrightarrow> pool_reach execute n pool'"
  by (induction rule: rtranclp_induct) (blast intro: pool_reach.step)+

text \<open>Nobody works on a task, so all that were started are finished.\<close>

lemma rest_all_finished:
  assumes "pool_inv execute pool" "pool_tasks pool = []" "\<And>x. x \<in> set (pool_workers pool) \<Longrightarrow> running_task x = {#}"
  shows "mset (pool_finished pool) = mset (tickets (pool_accepted pool)) \<and>
    pool_futures pool = map (\<lambda>task. Some (execute task)) (pool_accepted pool)"
proof
  have "over_workers running_task (pool_workers pool) = {#}" using assms(3) by (intro over_workers_zero) simp
  then show m: "mset (pool_finished pool) = mset (tickets (pool_accepted pool))"
    using assms(1,2) by (simp add: pool_inv_def pool_order_def)
  have "set (pool_finished pool) = set (tickets (pool_accepted pool))" using m by (metis set_mset_mset)
  then show "pool_futures pool = map (\<lambda>task. Some (execute task)) (pool_accepted pool)"
    using assms(1) by (intro nth_equalityI) (simp_all add: pool_inv_def pool_delivery_def tickets_in)
qed

text \<open>Once every worker has exited there is nothing left in the queue.\<close>

lemma joined_all_finished:
  assumes inv: "pool_inv execute pool" and joined: "pool_joined pool"
  shows "mset (pool_finished pool) = mset (tickets (pool_accepted pool)) \<and>
    pool_futures pool = map (\<lambda>task. Some (execute task)) (pool_accepted pool)"
proof (rule rest_all_finished [OF inv])
  have all: "\<forall>x \<in> set (pool_workers pool). x = Exited" using joined by (simp add: pool_joined_def list_all_iff)
  then show "\<And>x. x \<in> set (pool_workers pool) \<Longrightarrow> running_task x = {#}" by (metis running_task.simps(4))
  have "Exited \<in> set (pool_workers pool)" using all inv by (cases "pool_workers pool") (auto simp: pool_inv_def pool_wakeups_def)
  then show "pool_tasks pool = []" using inv by (simp add: pool_inv_def pool_wakeups_def)
qed

section \<open>Properties\<close>

text \<open>
  C39. Exactly once, in order, with the result delivered: in every reachable state of the pool,
  under every interleaving of submissions, shutdowns, notifications, spurious wake-ups and
  workers, tasks are started in the order they were accepted and finished at most once; a
  future is ready exactly when its task is finished and then holds what that task returned or
  threw; and once every worker has exited every accepted task has been finished exactly once
  and every future is ready.
\<close>

theorem pool_exactly_once:
  assumes "pool_reach execute n pool"
  shows "tickets (pool_accepted pool) = pool_started pool @ pool_tasks pool \<and>
    mset (pool_finished pool) \<subseteq># mset (pool_started pool) \<and>
    (\<forall>i < length (pool_accepted pool). pool_futures pool ! i =
       (if (i, pool_accepted pool ! i) \<in> set (pool_finished pool) then Some (execute (pool_accepted pool ! i)) else None)) \<and>
    (pool_joined pool \<longrightarrow> mset (pool_finished pool) = mset (tickets (pool_accepted pool)) \<and>
       pool_futures pool = map (\<lambda>task. Some (execute task)) (pool_accepted pool))"
proof -
  have inv: "pool_inv execute pool" by (rule pool_reach_inv [OF assms])
  then show ?thesis using joined_all_finished [OF inv] by (simp add: pool_inv_def pool_order_def pool_delivery_def)
qed

text \<open>
  C40. No lost wake-up and no deadlock: from every reachable state, whatever the pool does by
  itself decreases a measure, and when it can do nothing more every accepted task is finished
  and every future ready, with the workers all asleep, or, if the pool was shut down, all gone.
  In particular queued tasks are executed without further submissions or spurious wake-ups,
  and \<^verbatim>\<open>shutdown\<close> returns, after which nothing is accepted.
\<close>

theorem pool_no_lost_wakeup:
  assumes "pool_reach execute n pool"
  shows "(\<forall>pool'. pool_step execute pool pool' \<longrightarrow> pool_weight pool' < pool_weight pool) \<and>
    ((\<nexists>pool'. pool_step execute pool pool') \<longrightarrow>
       pool_futures pool = map (\<lambda>task. Some (execute task)) (pool_accepted pool) \<and>
       mset (pool_finished pool) = mset (tickets (pool_accepted pool)) \<and>
       (if pool_accepting pool then list_all (\<lambda>x. x = Blocked) (pool_workers pool) else pool_joined pool)) \<and>
    (\<not> pool_accepting pool \<longrightarrow> (\<forall>task. isl (pool_submit pool task)))"
proof -
  have inv: "pool_inv execute pool" by (rule pool_reach_inv [OF assms])
  have "pool_at_rest pool \<and> pool_futures pool = map (\<lambda>task. Some (execute task)) (pool_accepted pool) \<and>
      mset (pool_finished pool) = mset (tickets (pool_accepted pool))" if "\<nexists>pool'. pool_step execute pool pool'"
  proof -
    have rest: "pool_at_rest pool" by (rule pool_step_enabled) (use inv that in \<open>auto simp: pool_inv_def\<close>)
    then have "running_task x = {#}" if "x \<in> set (pool_workers pool)" for x
      using that by (auto simp: pool_at_rest_def pool_joined_def list_all_iff split: if_splits)
    with rest_all_finished [OF inv] rest show ?thesis by (simp add: pool_at_rest_def)
  qed
  then show ?thesis using pool_step_decreases by (auto simp: pool_at_rest_def pool_submit_def Let_def)
qed

text \<open>
  Shutdown ends: once the pool is stopped it accepts nothing more, every step it takes
  decreases a measure, it can take one as long as a worker has not exited, and so every
  worker exits.
\<close>

theorem pool_shutdown_ends:
  assumes "pool_reach execute n pool" "\<not> pool_accepting pool"
  shows "(\<forall>task. isl (pool_submit pool task)) \<and>
    (\<forall>pool'. pool_step execute pool pool' \<longrightarrow> pool_weight pool' < pool_weight pool \<and> \<not> pool_accepting pool') \<and>
    (\<not> pool_joined pool \<longrightarrow> (\<exists>pool'. pool_step execute pool pool')) \<and>
    (\<exists>pool'. (pool_step execute)\<^sup>*\<^sup>* pool pool' \<and> pool_joined pool')"
proof -
  have w: "pool_wakeups pool" using pool_reach_inv [OF assms(1)] by (simp add: pool_inv_def)
  have "\<exists>pool'. pool_step execute pool pool'" if "\<not> pool_joined pool"
    using pool_step_enabled [OF w, of execute] that assms(2) by (auto simp: pool_at_rest_def)
  moreover have "\<exists>pool'. (pool_step execute)\<^sup>*\<^sup>* pool pool' \<and> pool_joined pool'"
    using pool_comes_to_rest [OF w, of execute] assms(2) by (auto simp: pool_at_rest_def)
  ultimately show ?thesis using pool_step_decreases assms(2) by (auto simp: pool_submit_def Let_def)
qed

section \<open>An example\<close>

text \<open>One worker, one task that returns a sum and one that throws; then the shutdown.\<close>

datatype body = Sum int int | Throw string

fun run_body :: "body \<Rightarrow> string + int" where
  "run_body (Sum a b) = Inr (a + b)"
| "run_body (Throw what) = Inl what"

lemma at_rest_stuck:
  assumes "pool_at_rest pool"
  shows "\<not> pool_step execute pool pool'"
proof
  have w: "x = Blocked \<and> pool_accepting pool \<or> x = Exited" if "x \<in> set (pool_workers pool)" for x
    using assms that by (auto simp: pool_at_rest_def pool_joined_def list_all_iff split: if_splits)
  assume "pool_step execute pool pool'"
  then show False
  proof (cases rule: pool_step.cases)
    case (take i)
    then have "i < length (pool_workers pool)" "pool_workers pool ! i = Ready" by (auto elim: worker_take_cases)
    then show False using w [of "pool_workers pool ! i"] nth_mem by fastforce
  next
    case (run i)
    then obtain t x where "i < length (pool_workers pool)" "pool_workers pool ! i = Running t x" by (auto elim: worker_run_cases)
    then show False using w [of "pool_workers pool ! i"] nth_mem by fastforce
  qed (use assms in \<open>auto simp: pool_at_rest_def notify_one_def notify_all_def\<close>)
qed

lemma sample_pool:
  obtains pool where "pool_reach run_body 1 pool" "pool_at_rest pool" "pool_joined pool"
    "pool_accepted pool = [Sum 20 22, Throw ''failed'']"
proof -
  obtain p0 :: "(body, string + int) ThreadPool" where p0: "pool_create 1 = Inr p0" "pool_accepting p0" "pool_accepted p0 = []"
    by (simp add: pool_create_def)
  obtain p1 t1 where p1: "pool_submit p0 (Sum 20 22) = Inr (t1, p1)" "pool_accepting p1" "pool_accepted p1 = [Sum 20 22]"
    using p0(2,3) by (simp add: pool_submit_def Let_def)
  obtain p2 t2 where p2: "pool_submit p1 (Throw ''failed'') = Inr (t2, p2)" "pool_accepted p2 = [Sum 20 22, Throw ''failed'']"
    using p1(2,3) by (simp add: pool_submit_def Let_def)
  have r: "pool_reach run_body 1 (pool_stop p2)"
    by (intro pool_reach.stop pool_reach.submit [OF pool_reach.submit [OF pool_reach.create [OF p0(1)] p1(1)] p2(1)])
  then have "pool_wakeups (pool_stop p2)" using pool_reach_inv by (auto simp: pool_inv_def)
  from pool_comes_to_rest [OF this, of run_body] obtain pool where pool: "(pool_step run_body)\<^sup>*\<^sup>* (pool_stop p2) pool"
      "pool_at_rest pool" "pool_accepting pool = pool_accepting (pool_stop p2)" "pool_accepted pool = pool_accepted (pool_stop p2)"
    by blast
  show ?thesis
    by (rule that [OF pool_steps_reach [OF pool(1) r] pool(2)]) (use pool p2(2) in \<open>simp_all add: pool_stop_def pool_at_rest_def\<close>)
qed

theorem pool_exactly_once_witness:
  "\<exists>pool. pool_reach run_body 1 pool \<and> pool_futures pool = [Some (Inr 42), Some (Inl ''failed'')] \<and>
     mset (pool_finished pool) = {#(0, Sum 20 22), (1, Throw ''failed'')#}"
proof (rule sample_pool)
  fix pool
  assume p: "pool_reach run_body 1 pool" "pool_joined pool" "pool_accepted pool = [Sum 20 22, Throw ''failed'']"
  from pool_exactly_once [OF p(1)] p show ?thesis by (auto simp: tickets_def upt_rec)
qed

theorem pool_no_lost_wakeup_witness:
  "\<exists>pool. pool_reach run_body 1 pool \<and> pool_futures pool = [Some (Inr 42), Some (Inl ''failed'')] \<and> pool_joined pool \<and>
     isl (pool_submit pool (Sum 1 1))"
proof (rule sample_pool)
  fix pool
  assume p: "pool_reach run_body 1 pool" "pool_at_rest pool" "pool_joined pool" "pool_accepted pool = [Sum 20 22, Throw ''failed'']"
  have "Ready \<notin> set (pool_workers pool) \<and> pool_workers pool \<noteq> []"
    using pool_reach_inv [OF p(1)] p(3) by (auto simp: pool_inv_def pool_wakeups_def pool_joined_def list_all_iff)
  then have "\<not> pool_accepting pool" using p(2,3) by (cases "pool_workers pool") (auto simp: pool_at_rest_def pool_joined_def)
  then show ?thesis using pool_no_lost_wakeup [OF p(1)] at_rest_stuck [OF p(2)] p by (intro exI [of _ pool]) simp
qed

theorem pool_shutdown_ends_witness:
  "\<exists>pool'. (pool_step run_body)\<^sup>*\<^sup>* (pool_stop (projr (pool_create 2))) pool' \<and> pool_joined pool'"
proof -
  have "pool_reach run_body 2 (pool_stop (projr (pool_create 2)))"
    by (intro pool_reach.stop pool_reach.create) (simp add: pool_create_def)
  from pool_shutdown_ends [OF this] show ?thesis by (simp add: pool_stop_def)
qed

end
