(* ===== verification/Unit_Tests.thy ===== *)
theory Unit_Tests
  imports Trading_Main Spsc_Ring_Buffer Thread_Pool "HOL-Library.Sublist"
begin

text \<open>
  The unit tests of \<^verbatim>\<open>tests/\<close>, run on the model. Each test function of the source is a definition
  of the same name, with the operations of the test in their order and each check where the
  source makes it; it is \<^term>\<open>Some ()\<close> when every check holds and \<^term>\<open>None\<close> when one fails or
  an operation is undefined. The lemma \<open>X_tests\<close> says what the process \<^verbatim>\<open>X_tests\<close> reports: all
  tests passed. Left out are the random walk of \<^verbatim>\<open>accounting_tests.cpp\<close>, whose numbers come from
  the standard library's generator (the theorems of \<^verbatim>\<open>Accounting_Engine\<close> cover every walk), and the
  stress test of \<^verbatim>\<open>spsc_ring_buffer_tests.cpp\<close>, which runs threads against a deadline. The tests of
  the thread pool are lemmas about every interleaving.
\<close>

section \<open>Checks and literals\<close>

definition require :: "bool \<Rightarrow> unit option" where
  "require b = (if b then Some () else None)"

definition mk_tick :: "int \<Rightarrow> int \<Rightarrow> int \<Rightarrow> int \<Rightarrow> u32 \<Rightarrow> int \<Rightarrow> int \<Rightarrow> MarketTick" where
  "mk_tick ets rts bid ask symbol bq aq = \<lparr>exchange_ts_ns = ets, receive_ts_ns = rts, bid_price = bid, ask_price = ask,
     symbol_id = symbol, bid_qty = bq, ask_qty = aq\<rparr>"

definition mk_fill :: "int \<Rightarrow> int \<Rightarrow> int \<Rightarrow> Side \<Rightarrow> Fill" where
  "mk_fill ts price qty side = \<lparr>f_ts_ns = ts, f_price = price, f_quantity = qty, f_side = side\<rparr>"

definition mk_request :: "Side \<Rightarrow> int \<Rightarrow> int \<Rightarrow> OrderRequest" where
  "mk_request side qty limit_price = \<lparr>req_side = side, req_quantity = qty, req_limit_price = limit_price\<rparr>"

definition mk_order :: "int \<Rightarrow> Side \<Rightarrow> int \<Rightarrow> int \<Rightarrow> ExecutionStyle \<Rightarrow> int \<Rightarrow> GatewayNewOrder" where
  "mk_order cid side qty limit_price style ts = \<lparr>gn_client_order_id = cid, gn_side = side, gn_quantity = qty,
     gn_limit_price = limit_price, gn_style = style, gn_submit_ts_ns = ts\<rparr>"

definition mk_event :: "int \<Rightarrow> int \<Rightarrow> int \<Rightarrow> EventKind \<Rightarrow> Side \<Rightarrow> RejectReason \<Rightarrow> TradeEvent" where
  "mk_event ts price qty kind side reason = \<lparr>te_ts_ns = ts, te_price = price, te_quantity = qty, te_kind = kind,
     te_side = side, te_reject_reason = reason\<rparr>"

lemma show_nat_few: "show_nat (Suc (Suc 0)) = ''2''" "show_nat (Suc (Suc (Suc 0))) = ''3''"
  by code_simp+

text \<open>An event that must have a given outcome, as \<^verbatim>\<open>check_outcome\<close> around \<^verbatim>\<open>on_venue_event\<close>.\<close>

definition expect_outcome :: "ManagedOrder \<Rightarrow> VenueEvent \<Rightarrow> VenueEventOutcome \<Rightarrow> (Fill \<times> ManagedOrder) option" where
  "expect_outcome om ev outcome = do {
     (actual, fill, om) \<leftarrow> on_venue_event om ev;
     require (actual = outcome);
     Some (fill, om)
   }"

text \<open>A call that must return true, and whose state goes on.\<close>

definition accepted_by :: "bool \<times> 's \<Rightarrow> 's option" where
  "accepted_by r = do { require (fst r); Some (snd r) }"

section \<open>\<^verbatim>\<open>order_manager_tests.cpp\<close>\<close>

definition test_new_ack_partial_fill_cancel :: "unit option" where
  "test_new_ack_partial_fill_cancel = do {
     om \<leftarrow> accepted_by (submit_new idle_order 101 Buy 100000 100);
     require (o_state om = PendingNewAck);
     (fill, om) \<leftarrow> expect_outcome om (venue_event EvNewAck 1000 555 0 0) Applied;
     require (o_state om = Acked);
     (fill, om) \<leftarrow> expect_outcome om (venue_event EvFill 1100 555 40 99950) Applied;
     require (o_state om = PartiallyFilled \<and> o_leaves_qty om = 60 \<and> f_quantity fill = 40);
     om \<leftarrow> accepted_by (oms_request_cancel om);
     require (o_state om = PendingCancel);
     (fill, om) \<leftarrow> expect_outcome om (venue_event EvCancelAck 1200 555 0 0) Applied;
     require (o_state om = Canceled)
   }"

definition test_fill_to_complete :: "unit option" where
  "test_fill_to_complete = do {
     om \<leftarrow> accepted_by (submit_new idle_order 202 Sell 101000 30);
     (fill, om) \<leftarrow> expect_outcome om (venue_event EvNewAck 2000 777 0 0) Applied;
     (fill, om) \<leftarrow> expect_outcome om (venue_event EvFill 2100 777 30 101200) Applied;
     require (o_state om = Filled \<and> o_leaves_qty om = 0)
   }"

definition test_expired_lifecycle_and_defensive_rejection :: "unit option" where
  "test_expired_lifecycle_and_defensive_rejection = do {
     om \<leftarrow> accepted_by (submit_new idle_order 303 Buy 100000 100);
     (fill, om) \<leftarrow> expect_outcome om (venue_event EvNewAck 3000 888 0 0) Applied;
     (fill, om) \<leftarrow> expect_outcome om (venue_event EvFill 3100 888 40 100100) Applied;
     let before_wrong_order = om;
     (fill, om) \<leftarrow> expect_outcome om (venue_event EvExpired 3200 999 0 0) WrongOrder;
     require (o_state om = o_state before_wrong_order \<and> o_leaves_qty om = o_leaves_qty before_wrong_order);
     (fill, om) \<leftarrow> expect_outcome om (venue_event EvExpired 3300 888 0 0) Applied;
     require (o_state om = Expired \<and> o_cum_qty om = 40 \<and> o_leaves_qty om = 0);
     (fill, om) \<leftarrow> expect_outcome om (venue_event EvExpired 3400 888 0 0) WrongState;
     require (o_state om = Expired);
     om \<leftarrow> accepted_by (submit_new om 304 Sell 100200 10);
     Some ()
   }"

definition test_expired_rejected_outside_live_states :: "unit option" where
  "test_expired_rejected_outside_live_states = do {
     let expired = venue_event EvExpired 4000 900 0 0;
     pre_ack \<leftarrow> accepted_by (submit_new idle_order 401 Buy 100000 10);
     (fill, pre_ack) \<leftarrow> expect_outcome pre_ack expired WrongState;
     require (o_state pre_ack = PendingNewAck);
     filled \<leftarrow> accepted_by (submit_new idle_order 402 Buy 100000 10);
     (fill, filled) \<leftarrow> expect_outcome filled (venue_event EvNewAck 4000 900 0 0) Applied;
     (fill, filled) \<leftarrow> expect_outcome filled (venue_event EvFill 4100 900 10 100000) Applied;
     (fill, filled) \<leftarrow> expect_outcome filled expired WrongState;
     require (o_state filled = Filled);
     canceled \<leftarrow> accepted_by (submit_new idle_order 403 Buy 100000 10);
     (fill, canceled) \<leftarrow> expect_outcome canceled (venue_event EvNewAck 4000 900 0 0) Applied;
     canceled \<leftarrow> accepted_by (oms_request_cancel canceled);
     (fill, canceled) \<leftarrow> expect_outcome canceled (venue_event EvCancelAck 4100 900 0 0) Applied;
     (fill, canceled) \<leftarrow> expect_outcome canceled expired WrongState;
     require (o_state canceled = Canceled)
   }"

text \<open>A loop over event types, each with one outcome and the given checks after it.\<close>

fun each_type :: "(VenueEventType \<Rightarrow> VenueEvent) \<Rightarrow> VenueEventOutcome \<Rightarrow> (Fill \<Rightarrow> ManagedOrder \<Rightarrow> bool) \<Rightarrow>
    VenueEventType list \<Rightarrow> ManagedOrder \<Rightarrow> ManagedOrder option" where
  "each_type event outcome checks [] om = Some om"
| "each_type event outcome checks (type # types) om = do {
     (fill, om) \<leftarrow> expect_outcome om (event type) outcome;
     require (checks fill om);
     each_type event outcome checks types om
   }"

definition test_event_outcomes_and_no_mutation :: "unit option" where
  "test_event_outcomes_and_no_mutation = do {
     pending \<leftarrow> accepted_by (submit_new idle_order 501 Buy 100000 100);
     om \<leftarrow> each_type (\<lambda>type. venue_event type 5000 700 10 100000) WrongState
       (\<lambda>fill om. o_state om = o_state pending \<and> o_leaves_qty om = o_leaves_qty pending \<and> f_quantity fill = 0)
       [EvFill, EvCancelAck, EvCancelReject, EvExpired] pending;
     (fill, om) \<leftarrow> expect_outcome om (venue_event EvNewAck 5000 0 0 0) InvalidVenueOrderId;
     require (o_state om = PendingNewAck);
     (fill, acked) \<leftarrow> expect_outcome om (venue_event EvNewAck 5000 700 0 0) Applied;
     om \<leftarrow> each_type (\<lambda>type. venue_event type 5100 701 10 100000) WrongOrder
       (\<lambda>fill om. o_state om = o_state acked \<and> o_cum_qty om = o_cum_qty acked \<and>
          o_leaves_qty om = o_leaves_qty acked \<and> f_quantity fill = 0)
       [EvFill, EvExpired] acked;
     (fill, om) \<leftarrow> expect_outcome om (venue_event EvFill 5200 700 0 100000) InvalidQuantity;
     (fill, om) \<leftarrow> expect_outcome om (venue_event EvFill 5200 700 (-1) 100000) InvalidQuantity;
     (fill, om) \<leftarrow> expect_outcome om (venue_event EvFill 5200 700 101 100000) InvalidQuantity;
     (fill, om) \<leftarrow> expect_outcome om (venue_event EvFill 5200 0 10 100000) InvalidVenueOrderId;
     pending_cancel \<leftarrow> accepted_by (oms_request_cancel om);
     om \<leftarrow> each_type (\<lambda>type. venue_event type 5300 701 0 0) WrongOrder
       (\<lambda>fill om. o_state om = o_state pending_cancel \<and> o_leaves_qty om = o_leaves_qty pending_cancel)
       [EvCancelAck, EvCancelReject] pending_cancel;
     Some ()
   }"

lemma order_manager_tests:
  "test_new_ack_partial_fill_cancel = Some ()" "test_fill_to_complete = Some ()"
  "test_expired_lifecycle_and_defensive_rejection = Some ()" "test_expired_rejected_outside_live_states = Some ()"
  "test_event_outcomes_and_no_mutation = Some ()"
  by code_simp+

section \<open>\<^verbatim>\<open>risk_engine_tests.cpp\<close>\<close>

definition test_quantity_boundary :: "unit option" where
  "test_quantity_boundary = do {
     let risk = \<lparr>max_abs_position = 100\<rparr>;
     let flat = \<lparr>net_qty = 0, avg_price = 0\<rparr>;
     zero \<leftarrow> evaluate risk flat (mk_request Buy 0 100000);
     negative \<leftarrow> evaluate risk flat (mk_request Sell (-1) 100000);
     require (\<not> accepted zero \<and> reject_reason zero = RejInvalidQuantity \<and>
       \<not> accepted negative \<and> reject_reason negative = RejInvalidQuantity)
   }"

definition test_position_boundary :: "unit option" where
  "test_position_boundary = do {
     let risk = \<lparr>max_abs_position = 100\<rparr>;
     within \<leftarrow> evaluate risk \<lparr>net_qty = 50, avg_price = 100000\<rparr> (mk_request Buy 50 100000);
     beyond \<leftarrow> evaluate risk \<lparr>net_qty = 50, avg_price = 100000\<rparr> (mk_request Buy 51 100000);
     require (accepted within \<and> reject_reason within = NoReject \<and>
       \<not> accepted beyond \<and> reject_reason beyond = MaxPosition)
   }"

lemma risk_engine_tests: "test_quantity_boundary = Some ()" "test_position_boundary = Some ()"
  by code_simp+

section \<open>\<^verbatim>\<open>accounting_tests.cpp\<close>\<close>

definition px :: "int \<Rightarrow> Price" where "px whole = whole * PRICE_SCALE"

text \<open>Fills that must be accepted, in order.\<close>

fun fill_all :: "AccountingEngine \<Rightarrow> Fill list \<Rightarrow> AccountingEngine option" where
  "fill_all engine [] = Some engine"
| "fill_all engine (f # fs) = do {
     r \<leftarrow> apply_fill engine f;
     engine \<leftarrow> accepted_by r;
     fill_all engine fs
   }"

definition test_basic_open :: "unit option" where
  "test_basic_open = do {
     engine \<leftarrow> fill_all accounting_init [mk_fill 1 (px 10) 100 Buy];
     require (net_of engine = 100 \<and> avg_of engine = px 10 \<and> realized_of engine = 0)
   }"

definition test_same_side_add :: "unit option" where
  "test_same_side_add = do {
     engine \<leftarrow> fill_all accounting_init [mk_fill 1 (px 10) 100 Buy, mk_fill 2 (px 12) 100 Buy];
     require (net_of engine = 200 \<and> avg_of engine = px 11)
   }"

definition test_partial_close :: "unit option" where
  "test_partial_close = do {
     engine \<leftarrow> fill_all accounting_init [mk_fill 1 (px 10) 100 Buy, mk_fill 2 (px 15) 50 Sell];
     require (net_of engine = 50 \<and> avg_of engine = px 10 \<and> realized_of engine = px 5 * 50)
   }"

definition test_full_close :: "unit option" where
  "test_full_close = do {
     engine \<leftarrow> fill_all accounting_init [mk_fill 1 (px 10) 100 Buy, mk_fill 2 (px 8) 100 Sell];
     require (net_of engine = 0 \<and> avg_of engine = 0 \<and> realized_of engine = - px 2 * 100)
   }"

definition test_flip_position :: "unit option" where
  "test_flip_position = do {
     engine \<leftarrow> fill_all accounting_init [mk_fill 1 (px 10) 100 Buy, mk_fill 2 (px 12) 150 Sell];
     require (net_of engine = -50 \<and> avg_of engine = px 12 \<and> realized_of engine = px 2 * 100)
   }"

definition test_short_cover_partial :: "unit option" where
  "test_short_cover_partial = do {
     engine \<leftarrow> fill_all accounting_init [mk_fill 1 (px 10) 100 Sell, mk_fill 2 (px 8) 50 Buy];
     require (net_of engine = -50 \<and> avg_of engine = px 10 \<and> realized_of engine = px 2 * 50)
   }"

definition check_identity :: "AccountingEngine \<Rightarrow> Price \<Rightarrow> AccountingEngine option" where
  "check_identity engine mark = do {
     engine \<leftarrow> mark_to_market engine mark;
     require (realized_of engine + unrealized_of engine = cash_of engine + net_of engine * mark);
     Some engine
   }"

definition test_non_integral_cost_and_partial_close :: "unit option" where
  "test_non_integral_cost_and_partial_close = do {
     engine \<leftarrow> fill_all accounting_init [mk_fill 1 10 3 Buy, mk_fill 2 13 2 Buy];
     require (net_of engine = 5 \<and> avg_of engine = 11);
     engine \<leftarrow> check_identity engine 12;
     engine \<leftarrow> fill_all engine [mk_fill 3 12 2 Sell];
     require (net_of engine = 3 \<and> avg_of engine = 11 \<and> realized_of engine = 1);
     engine \<leftarrow> check_identity engine 12;
     engine \<leftarrow> fill_all engine [mk_fill 4 12 3 Sell];
     require (net_of engine = 0 \<and> avg_of engine = 0 \<and> unrealized_of engine = 0);
     engine \<leftarrow> check_identity engine 15;
     Some ()
   }"

definition test_short_flip_long :: "unit option" where
  "test_short_flip_long = do {
     engine \<leftarrow> fill_all accounting_init [mk_fill 1 13 3 Sell, mk_fill 2 10 5 Buy];
     require (net_of engine = 2 \<and> avg_of engine = 10 \<and> realized_of engine = 9);
     engine \<leftarrow> check_identity engine 11;
     Some ()
   }"

definition test_reject_non_positive_quantity_without_mutation :: "unit option" where
  "test_reject_non_positive_quantity_without_mutation = do {
     engine \<leftarrow> fill_all accounting_init [mk_fill 1 100 5 Buy];
     engine \<leftarrow> mark_to_market engine 110;
     let position = position_state engine;
     let pnl = pnl_state engine;
     (taken, engine) \<leftarrow> apply_fill engine (mk_fill 2 200 0 Sell);
     require (\<not> taken);
     (taken, engine) \<leftarrow> apply_fill engine (mk_fill 3 200 (-4) Sell);
     require (\<not> taken);
     require (net_of engine = net_qty position \<and> avg_of engine = avg_price position \<and> cash_of engine = cash pnl \<and>
       realized_of engine = realized_pnl pnl \<and> unrealized_of engine = unrealized_pnl pnl)
   }"

lemma accounting_tests:
  "test_basic_open = Some ()" "test_same_side_add = Some ()" "test_partial_close = Some ()" "test_full_close = Some ()"
  "test_flip_position = Some ()" "test_short_cover_partial = Some ()"
  "test_non_integral_cost_and_partial_close = Some ()" "test_short_flip_long = Some ()"
  "test_reject_non_positive_quantity_without_mutation = Some ()"
  by code_simp+

section \<open>\<^verbatim>\<open>execution_simulator_tests.cpp\<close>\<close>

definition test_aggressive_partial_fill :: "unit option" where
  "test_aggressive_partial_fill = do {
     (report, sim) \<leftarrow> submit_order simulator_default (mk_tick 1000 1000 100000 100200 1 50 40) (mk_request Buy 100 0) Aggressive;
     require (rep_accepted report \<and> rep_has_fill report \<and> rep_was_partial report \<and> f_quantity (rep_fill report) = 40 \<and>
       f_price (rep_fill report) = 100200 \<and> rep_leaves_qty report = 60)
   }"

definition test_aggressive_full_and_zero_fill :: "unit option" where
  "test_aggressive_full_and_zero_fill = do {
     (full, sim) \<leftarrow> submit_order simulator_default (mk_tick 1000 1000 100000 100200 1 50 100) (mk_request Buy 100 0) Aggressive;
     (zero, sim) \<leftarrow> submit_order sim (mk_tick 2000 2000 100000 100200 1 50 0) (mk_request Buy 100 0) Aggressive;
     require (rep_has_fill full \<and> \<not> rep_was_partial full \<and> rep_leaves_qty full = 0 \<and>
       \<not> rep_has_fill zero \<and> rep_leaves_qty zero = 100)
   }"

definition test_passive_queue_progression :: "unit option" where
  "test_passive_queue_progression = do {
     (report, sim) \<leftarrow> submit_order simulator_default (mk_tick 1000 1000 100000 100200 1 50 40) (mk_request Buy 60 100000) Passive;
     require (rep_accepted report \<and> \<not> rep_has_fill report);
     (report2, sim) \<leftarrow> sim_on_tick sim (mk_tick 2000 2000 99900 100000 1 20 40);
     require (\<not> rep_has_fill report2 \<and> rep_leaves_qty report2 = 60);
     (report3, sim) \<leftarrow> sim_on_tick sim (mk_tick 3000 3000 99800 100000 1 20 40);
     require (rep_has_fill report3 \<and> rep_was_partial report3 \<and> f_quantity (rep_fill report3) = 30 \<and> rep_leaves_qty report3 = 30);
     (report4, sim) \<leftarrow> sim_on_tick sim (mk_tick 4000 4000 99700 100000 1 20 50);
     require (rep_has_fill report4 \<and> f_quantity (rep_fill report4) = 30 \<and> rep_leaves_qty report4 = 0 \<and>
       \<not> has_resting_order sim)
   }"

definition test_cancel_latency_ack :: "unit option" where
  "test_cancel_latency_ack = do {
     (report, sim) \<leftarrow> submit_order (simulator_init 1000 1000 PRICE_SCALE) (mk_tick 1000 1000 100000 100300 1 10 10)
       (mk_request Buy 25 100000) Passive;
     require (rep_accepted report);
     r \<leftarrow> sim_request_cancel sim 1500;
     sim \<leftarrow> accepted_by r;
     (before, sim) \<leftarrow> sim_on_tick sim (mk_tick 2000 2000 100100 100300 1 10 10);
     require (\<not> rep_cancel_acked before \<and> has_resting_order sim);
     (after, sim) \<leftarrow> sim_on_tick sim (mk_tick 2600 2600 100100 100300 1 10 10);
     require (rep_cancel_acked after \<and> \<not> has_resting_order sim)
   }"

definition test_stale_and_adverse_selection :: "unit option" where
  "test_stale_and_adverse_selection = do {
     (report, sim) \<leftarrow> submit_order (simulator_init 1000 1000 200) (mk_tick 1000 1000 100000 100300 1 5 0)
       (mk_request Buy 10 100000) Passive;
     require (rep_accepted report);
     (report, sim) \<leftarrow> sim_on_tick sim (mk_tick 2500 2500 99600 100000 1 5 20);
     require (rep_has_fill report \<and> rep_stale_quote report \<and> rep_adverse_selection report)
   }"

lemma execution_simulator_tests:
  "test_aggressive_partial_fill = Some ()" "test_aggressive_full_and_zero_fill = Some ()"
  "test_passive_queue_progression = Some ()" "test_cancel_latency_ack = Some ()"
  "test_stale_and_adverse_selection = Some ()"
  by code_simp+

section \<open>\<^verbatim>\<open>mock_venue_gateway_tests.cpp\<close>\<close>

definition types_of :: "VenueEventBatch \<Rightarrow> VenueEventType list" where
  "types_of batch = map ev_type (batch_events batch)"

definition test_new_ack_and_fill_flow :: "unit option" where
  "test_new_ack_and_fill_flow = do {
     r \<leftarrow> send_new (gateway_init 200 200) (mk_order 1 Buy 50 100000 Passive 1000);
     gateway \<leftarrow> accepted_by r;
     (batch1, gateway) \<leftarrow> gateway_on_tick gateway (mk_tick 1100 1100 100000 100100 1 10 10);
     require (length (batch_events batch1) = 0);
     (batch2, gateway) \<leftarrow> gateway_on_tick gateway (mk_tick 1200 1200 100000 100000 1 10 20);
     require (length (batch_events batch2) = 2 \<and> batch_overflow_count batch2 = 0 \<and> types_of batch2 ! 0 = EvNewAck);
     require (types_of batch2 ! 1 = EvFill);
     (batch3, gateway) \<leftarrow> gateway_on_tick gateway (mk_tick 1300 1300 100000 100000 1 10 30);
     require (length (batch_events batch3) = 1 \<and> types_of batch3 ! 0 = EvFill)
   }"

definition test_cancel_ack_flow :: "unit option" where
  "test_cancel_ack_flow = do {
     r \<leftarrow> send_new (gateway_init 200 200) (mk_order 2 Buy 40 100000 Passive 1000);
     gateway \<leftarrow> accepted_by r;
     (batch, gateway) \<leftarrow> gateway_on_tick gateway (mk_tick 1200 1200 100000 100200 1 20 20);
     r \<leftarrow> send_cancel gateway 1300;
     gateway \<leftarrow> accepted_by r;
     (before_ack, gateway) \<leftarrow> gateway_on_tick gateway (mk_tick 1400 1400 100000 100200 1 20 20);
     require (length (batch_events before_ack) = 0);
     (after_ack, gateway) \<leftarrow> gateway_on_tick gateway (mk_tick 1500 1500 100000 100200 1 20 20);
     require (length (batch_events after_ack) = 0);
     (final_ack, gateway) \<leftarrow> gateway_on_tick gateway (mk_tick 2500 2500 100000 100200 1 20 20);
     require (length (batch_events final_ack) = 1 \<and> types_of final_ack ! 0 = EvCancelAck)
   }"

fun apply_batch :: "VenueEvent list \<Rightarrow> ManagedOrder \<Rightarrow> AccountingEngine \<Rightarrow> nat \<Rightarrow>
    (ManagedOrder \<times> AccountingEngine \<times> nat) option" where
  "apply_batch [] oms accounting applied_fill_count = Some (oms, accounting, applied_fill_count)"
| "apply_batch (event # events) oms accounting applied_fill_count = do {
     (fill, oms) \<leftarrow> expect_outcome oms event Applied;
     if ev_type event = EvFill
     then do {
       r \<leftarrow> apply_fill accounting fill;
       accounting \<leftarrow> accepted_by r;
       apply_batch events oms accounting (applied_fill_count + 1)
     }
     else apply_batch events oms accounting applied_fill_count
   }"

definition ioc_scenario :: "int \<Rightarrow> int \<Rightarrow> int \<Rightarrow> nat \<Rightarrow> int \<Rightarrow> OrderState \<Rightarrow> unit option" where
  "ioc_scenario client_order_id qty available_qty expected_event_count expected_cum_qty expected_state = do {
     r \<leftarrow> send_new (gateway_init 0 0) (mk_order client_order_id Buy qty 100200 Aggressive 1000);
     gateway \<leftarrow> accepted_by r;
     oms \<leftarrow> accepted_by (submit_new idle_order client_order_id Buy 100200 qty);
     (batch, gateway) \<leftarrow> gateway_on_tick gateway (mk_tick 1000 1000 100000 100200 1 50 available_qty);
     require (length (batch_events batch) = expected_event_count \<and> batch_overflow_count batch = 0 \<and>
       types_of batch ! 0 = EvNewAck);
     require (expected_cum_qty > 0 \<longrightarrow> types_of batch ! 1 = EvFill);
     require (expected_state = Expired \<longrightarrow> types_of batch ! (length (batch_events batch) - 1) = EvExpired);
     (oms, accounting, applied_fill_count) \<leftarrow> apply_batch (batch_events batch) oms accounting_init 0;
     require (o_state oms = expected_state \<and> o_cum_qty oms = expected_cum_qty \<and> o_leaves_qty oms = 0 \<and>
       net_of accounting = expected_cum_qty \<and> applied_fill_count = (if expected_cum_qty > 0 then 1 else 0));
     r \<leftarrow> send_new gateway (mk_order (client_order_id + 100) Sell 1 100000 Aggressive 2000);
     gateway \<leftarrow> accepted_by r;
     oms \<leftarrow> accepted_by (submit_new oms (client_order_id + 100) Sell 100000 1);
     Some ()
   }"

definition test_aggressive_ioc_lifecycles :: "unit option" where
  "test_aggressive_ioc_lifecycles = do {
     _ \<leftarrow> ioc_scenario 10 40 50 2 40 Filled;
     _ \<leftarrow> ioc_scenario 11 100 40 3 40 Expired;
     ioc_scenario 13 100 0 2 0 Expired
   }"

definition test_cancel_submission_failure_does_not_strand_oms :: "unit option" where
  "test_cancel_submission_failure_does_not_strand_oms = do {
     oms \<leftarrow> accepted_by (submit_new idle_order 20 Buy 100000 10);
     (fill, oms) \<leftarrow> expect_outcome oms (venue_event EvNewAck 1000 777 0 0) Applied;
     (sent, inactive_gateway, oms) \<leftarrow> submit_cancel_request (gateway_init 0 0) oms 1100;
     require (\<not> sent);
     require (o_state oms = Acked);
     r \<leftarrow> send_new (gateway_init 0 0) (mk_order 22 Buy 10 100000 Passive 2000);
     active_gateway \<leftarrow> accepted_by r;
     active_oms \<leftarrow> accepted_by (submit_new idle_order 22 Buy 100000 10);
     (ack, active_gateway) \<leftarrow> gateway_on_tick active_gateway (mk_tick 2000 2000 100000 100200 1 10 10);
     (active_oms, accounting, applied_fill_count) \<leftarrow> apply_batch (batch_events ack) active_oms accounting_init 0;
     (sent, active_gateway, active_oms) \<leftarrow> submit_cancel_request active_gateway active_oms 2100;
     require sent;
     require (o_state active_oms = PendingCancel)
   }"

lemma mock_venue_gateway_tests:
  "test_new_ack_and_fill_flow = Some ()" "test_cancel_ack_flow = Some ()" "test_aggressive_ioc_lifecycles = Some ()"
  "test_cancel_submission_failure_does_not_strand_oms = Some ()"
  by code_simp+

section \<open>\<^verbatim>\<open>spsc_ring_buffer_tests.cpp\<close>\<close>

text \<open>A pop that must succeed, and with the given value.\<close>

definition expect_pop :: "'a SpscRingBuffer \<Rightarrow> 'a \<Rightarrow> 'a SpscRingBuffer option" where
  "expect_pop queue expected = (case try_pop queue of
     (Some v, queue) \<Rightarrow> do { require (v = expected); Some queue }
   | (None, _) \<Rightarrow> None)"

definition test_fifo_behavior :: "unit option" where
  "test_fifo_behavior = do {
     queue \<leftarrow> accepted_by (try_push (ring_init (0 :: int) 4) 1);
     queue \<leftarrow> accepted_by (try_push queue 2);
     queue \<leftarrow> expect_pop queue 1;
     queue \<leftarrow> expect_pop queue 2;
     require (fst (try_pop queue) = None)
   }"

definition test_full_and_reuse :: "unit option" where
  "test_full_and_reuse = do {
     queue \<leftarrow> accepted_by (try_push (ring_init (0 :: int) 2) 10);
     queue \<leftarrow> accepted_by (try_push queue 20);
     let (pushed, queue) = try_push queue 30;
     require (\<not> pushed);
     queue \<leftarrow> expect_pop queue 10;
     queue \<leftarrow> accepted_by (try_push queue 30);
     queue \<leftarrow> expect_pop queue 20;
     queue \<leftarrow> expect_pop queue 30;
     Some ()
   }"

lemma spsc_ring_buffer_tests: "test_fifo_behavior = Some ()" "test_full_and_reuse = Some ()"
  by code_simp+

section \<open>\<^verbatim>\<open>fill_logger_tests.cpp\<close>, \<^verbatim>\<open>layout_tests.cpp\<close>, \<^verbatim>\<open>config_parser_tests.cpp\<close>\<close>

text \<open>A string stream is the text written to it; \<^verbatim>\<open>FailingBuffer\<close> is a stream that a write leaves bad.\<close>

definition test_fill_log_format :: "unit option" where
  "test_fill_log_format = require (write_trade_event_log (@) [] (mk_event 1010 99900 50 KFill Buy NoReject) =
     ''fill ts_ns=1010 side=BUY price=99900 qty=50'' @ newline)"

definition test_reject_log_format :: "unit option" where
  "test_reject_log_format = require (write_trade_event_log (@) [] (mk_event 2020 0 75 KRiskReject Sell MaxPosition) =
     ''reject ts_ns=2020 side=SELL qty=75 reason=MAX_POSITION'' @ newline)"

definition test_persistence_format :: "unit option" where
  "test_persistence_format =
     require (write_trade_event_persistence (@) (\<lambda>_. True) [] (mk_event 3030 0 25 KRiskReject Buy MaxPosition) =
       (True, ''RISK_REJECT,3030,BUY,0,25,MAX_POSITION'' @ newline))"

definition test_persistence_failure :: "unit option" where
  "test_persistence_failure =
     (case write_trade_event_persistence (\<lambda>good text. good \<and> text = []) id True (mk_event 4040 100000 10 KFill Buy NoReject) of
        (persisted, good) \<Rightarrow> require (\<not> persisted \<and> \<not> good))"

lemma fill_logger_tests:
  "test_fill_log_format = Some ()" "test_reject_log_format = Some ()" "test_persistence_format = Some ()"
  "test_persistence_failure = Some ()"
  by (simp_all add: test_fill_log_format_def test_reject_log_format_def test_persistence_format_def test_persistence_failure_def
      require_def write_trade_event_log_def write_trade_event_persistence_def Let_def trade_event_log_def journal_record_def
      mk_event_def kind_name_def side_name_def reject_reason_name_def decimal_text)

definition test_hot_struct_sizes :: "unit option" where
  "test_hot_struct_sizes = require (fst (place_fields 0 1 [8, 8, 4, 1]) = 24 \<and> fst (place_fields 0 1 [8, 8, 4, 1, 1, 1]) = 24 \<and>
     fst (place_fields 0 1 [8, 8]) = 16 \<and> fst (place_fields 0 1 [8, 8, 8]) = 24)"

lemma layout_tests: "test_hot_struct_sizes = Some ()"
  by code_simp

definition expect_invalid :: "string \<Rightarrow> bool" where
  "expect_invalid value = (case parse_nonnegative_timestamp_arg (Some value) (Some ''passive_cancel_after_ns'') of
     Inl message \<Rightarrow> sublist ''passive_cancel_after_ns'' message \<and> sublist ''accepted range'' message
   | Inr _ \<Rightarrow> False)"

definition config_parser_main :: "unit option" where
  "config_parser_main = require (
     parse_nonnegative_timestamp_arg (Some ''0'') (Some ''passive_cancel_after_ns'') = Inr 0 \<and>
     parse_nonnegative_timestamp_arg (Some ''9223372036854775807'') (Some ''passive_cancel_after_ns'') = Inr 9223372036854775807 \<and>
     expect_invalid [] \<and> expect_invalid ''-1'' \<and> expect_invalid ''12x'' \<and> expect_invalid ''9223372036854775808'')"

lemma config_parser_tests: "config_parser_main = Some ()"
  by (simp add: config_parser_main_def require_def expect_invalid_def parse_nonnegative_timestamp_arg_def Let_def
      parse_signed_def in_i64_def decimal_value decimal_text sublist_code)

section \<open>\<^verbatim>\<open>csv_reader_tests.cpp\<close>\<close>

text \<open>
  A fixture is a path and what \<^verbatim>\<open>FixtureDirectory::write\<close> stored there; the file system holds that
  file only.
\<close>

definition fixture_path :: "string \<Rightarrow> string" where
  "fixture_path name = ''csv_reader_test_'' @ name"

definition written :: "string \<Rightarrow> string \<Rightarrow> FileSystem" where
  "written name contents = (\<lambda>p. if p = fixture_path name
     then Some \<lparr>stream_text = contents, stream_fault = False\<rparr> else None)"

definition expect_error :: "FileSystem \<Rightarrow> string \<Rightarrow> CsvErrorCategory \<Rightarrow> nat \<Rightarrow> string option \<Rightarrow> bool" where
  "expect_error fs path category line expected_detail = (case read_all fs (Some path) of
     Inr _ \<Rightarrow> False
   | Inl error \<Rightarrow> err_category error = category \<and> err_line error = line \<and> err_path error = path \<and>
       sublist (csv_error_category_name category) (err_what error) \<and>
       (case expected_detail of None \<Rightarrow> True | Some detail \<Rightarrow> sublist detail (err_what error)))"

abbreviation carriage_return :: string where "carriage_return \<equiv> [CHR 0x0D]"

definition full_header :: string where
  "full_header = ''exchange_ts_ns,receive_ts_ns,symbol_id,bid_price,ask_price,bid_qty,ask_qty''"

definition test_valid_lf_and_crlf :: "unit option" where
  "test_valid_lf_and_crlf =
     (let eol = carriage_return @ newline in
      case (read_all (written ''valid_lf.csv'' (full_header @ newline @ ''100,110,1,10000,10001,5,6'' @ newline @
                ''110,120,1,10001,10002,7,8'' @ newline)) (Some (fixture_path ''valid_lf.csv'')),
            read_all (written ''valid_crlf.csv'' (full_header @ eol @ ''100,110,1,10000,10001,5,6'' @ eol @
                ''110,120,1,10001,10002,7,8'' @ eol)) (Some (fixture_path ''valid_crlf.csv''))) of
        (Inr lf_ticks, Inr crlf_ticks) \<Rightarrow>
          require (length lf_ticks = 2 \<and> length crlf_ticks = 2 \<and> ask_qty (crlf_ticks ! 1) = 8)
      | _ \<Rightarrow> None)"

definition test_io_and_empty_inputs :: "unit option" where
  "test_io_and_empty_inputs = require (
     expect_error (\<lambda>_. None) (fixture_path ''temporary.csv'') IoError 0 None \<and>
     expect_error (written ''empty.csv'' []) (fixture_path ''empty.csv'') SchemaError 1 (Some ''missing header'') \<and>
     expect_error (written ''header_only.csv'' (full_header @ newline)) (fixture_path ''header_only.csv'')
       SchemaError 1 (Some ''header-only''))"

text \<open>A file with the one-letter header of the error tests and the given rows.\<close>

definition expect_row_error :: "string \<Rightarrow> string list \<Rightarrow> CsvErrorCategory \<Rightarrow> nat \<Rightarrow> string option \<Rightarrow> bool" where
  "expect_row_error name rows = expect_error (written name (''h'' @ newline @ concat (map (\<lambda>r. r @ newline) rows))) (fixture_path name)"

definition test_schema_errors :: "unit option" where
  "test_schema_errors = require (
     expect_row_error ''missing.csv'' [''100,110,1,10000,10001,5''] SchemaError 2 None \<and>
     expect_row_error ''extra.csv'' [''100,110,1,10000,10001,5,6,7''] SchemaError 2 None \<and>
     expect_row_error ''empty_field.csv'' [''100,110,1,,10001,5,6''] SchemaError 2 None \<and>
     expect_row_error ''nonnumeric.csv'' [''100,110x,1,10000,10001,5,6''] SchemaError 2 (Some ''receive_ts_ns''))"

definition test_value_errors :: "unit option" where
  "test_value_errors = require (
     expect_row_error ''crossed.csv'' [''100,110,1,10002,10001,5,6''] ValueError 2 None \<and>
     expect_row_error ''negative_qty.csv'' [''100,110,1,10000,10001,-1,6''] ValueError 2 None \<and>
     expect_row_error ''nonpositive_price.csv'' [''100,110,1,0,10001,5,6''] ValueError 2 None \<and>
     expect_row_error ''receive_before_exchange.csv'' [''110,100,1,10000,10001,5,6''] ValueError 2 None)"

definition test_cross_row_errors_and_fail_fast :: "unit option" where
  "test_cross_row_errors_and_fail_fast = require (
     expect_row_error ''ordering.csv'' [''100,120,1,10000,10001,5,6'', ''100,119,1,10000,10001,5,6''] OrderingError 3 None \<and>
     expect_row_error ''multi_symbol.csv'' [''100,110,1,10000,10001,5,6'', ''110,120,2,10000,10001,5,6''] MultiSymbolError 3 None \<and>
     expect_row_error ''malformed_middle.csv''
       [''100,110,1,10000,10001,5,6'', ''110,bad,1,10000,10001,5,6'', ''120,130,1,10000,10001,5,6''] SchemaError 3 None)"

lemmas csv_evaluation = require_def expect_row_error_def expect_error_def written_def fixture_path_def full_header_def
  read_all_def read_rows.simps read_row_def check_tick_def getline_def strip_cr_def parse_line_def parse_signed_def
  parse_u32_def parse_unsigned_def in_i64_def in_i32_def throw_csv_error_def csv_read_error_def make_error_message_def
  csv_error_category_name_def decimal_value char_digit_def Let_def sublist_code decimal_text

lemma csv_reader_tests:
  "test_valid_lf_and_crlf = Some ()" "test_io_and_empty_inputs = Some ()" "test_schema_errors = Some ()"
  "test_value_errors = Some ()" "test_cross_row_errors_and_fail_fast = Some ()"
  by (simp_all add: test_valid_lf_and_crlf_def test_io_and_empty_inputs_def test_schema_errors_def test_value_errors_def
      test_cross_row_errors_and_fail_fast_def csv_evaluation show_nat_few)

section \<open>\<^verbatim>\<open>latency_stats_tests.cpp\<close>\<close>

definition test_empty_summary :: "unit option" where
  "test_empty_summary = do {
     summary \<leftarrow> summarize latency_new;
     require (sum_count summary = 0 \<and> sum_min_ns summary = 0 \<and> sum_mean_ns summary = 0 \<and> sum_p50_ns summary = 0 \<and>
       \<not> sum_has_p99 summary \<and> \<not> sum_has_p99_9 summary \<and> \<not> sum_has_tail_mean_99 summary \<and> sum_max_ns summary = 0)
   }"

definition initialized :: "LatencyError + LatencyStats \<Rightarrow> LatencyStats option" where
  "initialized r = (case r of Inl _ \<Rightarrow> None | Inr ls \<Rightarrow> Some ls)"

text \<open>Samples that must each be accepted.\<close>

fun record_each :: "LatencyStats \<Rightarrow> i64 list \<Rightarrow> LatencyStats option" where
  "record_each ls [] = Some ls"
| "record_each ls (sample # samples) = do {
     ls \<leftarrow> accepted_by (latency_record ls sample);
     record_each ls samples
   }"

definition test_percentiles_and_tail_mean :: "unit option" where
  "test_percentiles_and_tail_mean = do {
     ls \<leftarrow> initialized (latency_initialize ''test'' 1000 1);
     ls \<leftarrow> record_each ls [1..1000];
     summary \<leftarrow> summarize ls;
     require (sum_count summary = 1000 \<and> sum_min_ns summary = 1 \<and> sum_mean_ns summary = 500 \<and> sum_p50_ns summary = 500 \<and>
       sum_p99_ns summary = 990 \<and> sum_p99_9_ns summary = 999 \<and> sum_has_p99 summary \<and> sum_has_p99_9 summary \<and>
       sum_has_tail_mean_99 summary \<and> sum_tail_mean_99_ns summary = 995 \<and> sum_max_ns summary = 1000)
   }"

definition test_small_sample_suppresses_high_percentiles :: "unit option" where
  "test_small_sample_suppresses_high_percentiles = do {
     ls \<leftarrow> initialized (latency_initialize ''small'' 3 1);
     ls \<leftarrow> record_each ls [5, 10, 20];
     summary \<leftarrow> summarize ls;
     output \<leftarrow> latency_summary_text ls ''small'';
     require (sum_count summary = 3 \<and> sum_p50_ns summary = 10 \<and> \<not> sum_has_p99 summary \<and> \<not> sum_has_p99_9 summary \<and>
       \<not> sum_has_tail_mean_99 summary \<and> sublist ''estimator=nearest_rank'' output \<and> sublist ''p99_ns=n/a'' output \<and>
       sublist ''p99_9_ns=n/a'' output \<and> sublist ''tail_mean_99_ns=n/a'' output)
   }"

text \<open>The test compares the address of the storage, the model its size.\<close>

definition test_drop_new_preserves_storage_and_counts_overflow :: "unit option" where
  "test_drop_new_preserves_storage_and_counts_overflow = do {
     ls \<leftarrow> initialized (latency_initialize ''bounded'' 2 2);
     let storage = length (ls_samples ls);
     ls \<leftarrow> record_each ls [1, 2, 3, 4];
     let (taken1, ls) = latency_record ls 999;
     let (taken2, ls) = latency_record ls 1000;
     require (\<not> taken1 \<and> \<not> taken2);
     summary \<leftarrow> summarize ls;
     require (length (ls_samples ls) = storage \<and> length (ls_samples ls) = 4 \<and> sample_count ls = 4 \<and>
       overflow_count ls = 2 \<and> sum_max_ns summary = 4)
   }"

definition test_capacity_multiplication_overflow_is_rejected :: "unit option" where
  "test_capacity_multiplication_overflow_is_rejected =
     (case latency_initialize ''overflow_probe'' (nat SIZE_MAX) 2 of
        Inr _ \<Rightarrow> None
      | Inl error \<Rightarrow> let message = latency_error_what error in
          require (sublist ''collector=overflow_probe'' message \<and> sublist ''tick_count='' message \<and>
            sublist ''max_per_tick=2'' message))"

lemma latency_stats_tests:
  "test_empty_summary = Some ()" "test_drop_new_preserves_storage_and_counts_overflow = Some ()"
  by code_simp+

text \<open>The collector and the summary of the three-sample test.\<close>

definition small_collector :: LatencyStats where
  "small_collector = \<lparr>ls_samples = [5, 10, 20], sample_count = 3, overflow_count = 0, max_per_tick = 1\<rparr>"

definition small_summary :: LatencySummary where
  "small_summary = \<lparr>sum_count = 3, sum_min_ns = 5, sum_mean_ns = 11, sum_p50_ns = 10, sum_p99_ns = 0, sum_p99_9_ns = 0,
     sum_has_p99 = False, sum_has_p99_9 = False, sum_tail_mean_99_ns = 0, sum_has_tail_mean_99 = False, sum_max_ns = 20\<rparr>"

lemma small_steps:
  "initialized (latency_initialize ''small'' 3 1) =
     Some \<lparr>ls_samples = [0, 0, 0], sample_count = 0, overflow_count = 0, max_per_tick = 1\<rparr>"
  "record_each \<lparr>ls_samples = [0, 0, 0], sample_count = 0, overflow_count = 0, max_per_tick = 1\<rparr> [5, 10, 20] =
     Some small_collector"
  "summarize small_collector = Some small_summary"
  by code_simp+

lemma latency_small_sample_test: "test_small_sample_suppresses_high_percentiles = Some ()"
  unfolding test_small_sample_suppresses_high_percentiles_def small_steps Option.bind_lunit latency_summary_text_def
  by (simp add: require_def small_collector_def small_summary_def decimal_text show_nat_few sublist_code)

text \<open>A thousand samples, from the theorems on recording and ranks.\<close>

lemma record_each_all:
  "sample_count ls + length xs \<le> length (ls_samples ls) \<Longrightarrow> record_each ls xs = Some (record_all ls xs)"
proof (induction xs arbitrary: ls)
  case (Cons x xs)
  then show ?case by (simp add: latency_record_def accepted_by_def require_def)
qed simp

lemma thousand_ranks:
  "rank_of [1..1000] 500 = 500" "rank_of [1..1000] 990 = 990" "rank_of [1..1000] 999 = 999"
  "unat (tail_count_for_top_percent 1000 1) = 10"
  by (simp_all add: rank_of_def percentile_index_exact tail_count_exact)

lemma upto_ends: "i \<le> j \<Longrightarrow> hd [i..j] = i" "i \<le> j \<Longrightarrow> last [i..j] = j"
  by (simp add: upto_rec1) (simp add: upto_rec2)

lemma sum_list_upto: "2 * sum_list [1..int n] = int n * (int n + 1)"
proof (induction n)
  case (Suc n)
  have "[1..int (Suc n)] = [1..int n] @ [int n + 1]" by (simp add: upto_rec2 add.commute)
  with Suc show ?case by (simp add: algebra_simps)
qed simp

lemma sum64_small:
  "\<lbrakk>\<forall>x \<in> set xs. \<bar>x\<bar> \<le> B; B * int (length xs) \<le> INT64_MAX; 0 \<le> B\<rbrakk> \<Longrightarrow> sum64 0 xs = Some (sum_list xs)"
  using sum64_ok [of xs B 0] sum64_eq [of 0 xs] by (auto simp: ok_iff)

lemma thousand_sums: "sum64 0 [1..1000] = Some 500500" "sum64 0 (drop 990 [1..1000]) = Some 9955"
proof -
  show "sum64 0 [1..1000] = Some 500500"
    using sum64_small [of "[1..1000]" 1000] sum_list_upto [of 1000] by simp
  have "[1..1000] = [1..990] @ [991..1000 :: int]" using upto_split2 [of 1 990 1000] by simp
  then have "drop 990 [1..1000] = [991..1000 :: int]" by simp
  moreover have "sum64 0 [991..1000] = Some 9955" by code_simp
  ultimately show "sum64 0 (drop 990 [1..1000]) = Some 9955" by simp
qed

lemma latency_percentiles_test: "test_percentiles_and_tail_mean = Some ()"
proof -
  obtain ls0 where i: "latency_initialize ''test'' 1000 1 = Inr ls0" "ls_samples ls0 = replicate 1000 0" "sample_count ls0 = 0"
      "overflow_count ls0 = 0"
    by (simp add: latency_initialize_def SIZE_MAX_def VECTOR_MAX_SIZE_def)
  let ?ls = "record_all ls0 [1..1000]"
  have r: "record_each ls0 [1..1000] = Some ?ls" by (rule record_each_all) (simp add: i)
  have "latency_samples ls0 = []" "latency_inv ls0" by (simp_all add: latency_samples_def latency_inv_def i)
  then have "sample_count ?ls = 1000" "latency_samples ?ls = [1..1000]" using record_all_spec [of ls0 "[1..1000]"] i by simp_all
  moreover have "sort [1..1000] = [1..1000 :: int]" "hd [1..1000] = (1 :: int)" "last [1..1000] = (1000 :: int)"
    by (simp_all add: sorted_sort_id upto_ends)
  ultimately have "\<exists>sm. summarize ?ls = Some sm \<and> sum_count sm = 1000 \<and> sum_min_ns sm = 1 \<and> sum_mean_ns sm = 500 \<and>
      sum_p50_ns sm = 500 \<and> sum_p99_ns sm = 990 \<and> sum_p99_9_ns sm = 999 \<and> sum_has_p99 sm \<and> sum_has_p99_9 sm \<and>
      sum_has_tail_mean_99 sm \<and> sum_tail_mean_99_ns sm = 995 \<and> sum_max_ns sm = 1000"
    by (simp add: summarize_def Let_def thousand_ranks thousand_sums p99_min_samples_def p99_9_min_samples_def checked_defs
        chk64_def in_i64_def)
  moreover have "initialized (latency_initialize ''test'' 1000 1) = Some ls0" by (simp only: i(1) initialized_def sum.case)
  ultimately show ?thesis using r by (auto simp: test_percentiles_and_tail_mean_def require_def simp del: One_nat_def)
qed

lemma latency_overflow_test: "test_capacity_multiplication_overflow_is_rejected = Some ()"
  by (simp add: test_capacity_multiplication_overflow_is_rejected_def latency_initialize_def SIZE_MAX_def
      latency_error_what_def Let_def require_def sublist_code decimal_text)

section \<open>\<^verbatim>\<open>thread_pool_tests.cpp\<close>\<close>

text \<open>
  These tests start threads; what they check holds in every state in which the pool can be,
  under every interleaving, once the tasks of the test have been accepted. A counter that each
  task increments stands at the number of finished tasks.
\<close>

lemma future_value:
  assumes "pool_reach (\<lambda>(lhs, rhs). lhs + rhs) 2 pool" "pool_accepted pool = [(20, 22)]" "pool_futures pool ! 0 = Some v"
  shows "v = (42 :: int)"
  using pool_reach_inv [OF assms(1)] assms(2,3) by (auto simp: pool_inv_def pool_delivery_def split: if_splits)

lemma finished_distinct:
  assumes "pool_inv execute pool"
  shows "length (pool_finished pool) \<le> length (pool_accepted pool)"
proof -
  have "length (tickets (pool_accepted pool)) = length (pool_started pool) + length (pool_tasks pool)"
    using assms by (simp add: pool_inv_def pool_order_def)
  moreover have "size (mset (pool_finished pool)) \<le> size (mset (pool_started pool))"
    using assms by (simp add: pool_inv_def pool_order_def)
  ultimately show ?thesis by (simp add: tickets_def)
qed

lemma many_tasks:
  assumes "pool_reach execute 4 pool" "pool_accepted pool = replicate 128 task"
    and ready: "\<And>i. i < 128 \<Longrightarrow> pool_futures pool ! i \<noteq> None"
  shows "length (pool_finished pool) = 128"
proof (rule antisym)
  note inv = pool_reach_inv [OF assms(1)]
  show "length (pool_finished pool) \<le> 128" using finished_distinct [OF inv] assms(2) by simp
  have "(i, task) \<in> set (pool_finished pool)" if "i < 128" for i
    using inv ready [OF that] that assms(2) by (auto simp: pool_inv_def pool_delivery_def split: if_splits)
  then have "(\<lambda>i. (i, task)) ` {..<128} \<subseteq> set (pool_finished pool)" by auto
  then have "card ((\<lambda>i. (i, task)) ` {..<128 :: nat}) \<le> card (set (pool_finished pool))" by (intro card_mono) simp_all
  moreover have "card ((\<lambda>i. (i, task)) ` {..<128 :: nat}) = 128" by (simp add: card_image inj_on_def)
  ultimately show "128 \<le> length (pool_finished pool)" using card_length [of "pool_finished pool"] by linarith
qed

lemma shutdown_rejects_submit: "pool_create 1 = Inr pool \<Longrightarrow> isl (pool_submit (pool_stop pool) task)"
  by (simp add: pool_submit_def pool_stop_def Let_def)

lemma destructor_drains:
  assumes "pool_reach execute 2 pool" "pool_accepted pool = replicate 32 task" "pool_joined pool"
  shows "length (pool_finished pool) = 32"
proof -
  have "mset (pool_finished pool) = mset (tickets (pool_accepted pool))"
    using joined_all_finished [OF pool_reach_inv [OF assms(1)] assms(3)] by simp
  then show ?thesis using assms(2) by (metis mset_eq_length tickets_def length_zip length_upt length_replicate minus_nat.diff_0 min.idem)
qed

end
