(* ===== verification/Spec2Isabelle.thy ===== *)
theory Spec2Isabelle
  imports Replay_Findings Sink_Thread Golden_Runs Replay_Bench Thread_Pool Unit_Tests
begin

text \<open>
  A verification of the low-latency trading replay: a C++ program that reads a file of market
  ticks, runs a threshold strategy against an in-process venue, keeps orders, position and
  profit, and writes every business event to a journal, directly or through a lock-free
  ring buffer emptied by a second thread. All paths below are relative to the repository.

  \<^bold>\<open>Conventions.\<close> Signed machine integers (\<^verbatim>\<open>std::int64_t\<close>, \<^verbatim>\<open>std::int32_t\<close>) are integers; each
  arithmetic operation of the source that could leave its width is a checked operation with
  the value \<^term>\<open>None\<close> outside, which stands for the undefined behaviour of signed overflow.
  Unsigned values whose wrap-around matters (symbols, hashes, checksums, the generator's
  state, the percentile ranks) are words. \<^term>\<open>None\<close> as the result of an operation is
  undefined behaviour (or, for the sink thread's loop, not ending); exceptions and error
  returns are values of a sum or of an outcome type. \<open>ok\<close> (defined, and the result satisfies)
  and \<open>post\<close> (if defined, the result satisfies) of \<^verbatim>\<open>Kernel_Prelude\<close> are the two readings of a
  specification; \<open>wp\<close> collects their rules.

  \<^bold>\<open>The components\<close> and the theories that model them, in the order of the code:

  \<^item> \<^verbatim>\<open>include/types.h\<close>: \<^verbatim>\<open>Kernel_Types\<close>, records and datatypes under the source's names.
  \<^item> \<^verbatim>\<open>OrderManager\<close> (\<^verbatim>\<open>order_manager.h/.cpp\<close>): \<^verbatim>\<open>Order_Manager\<close>. \<open>submit_new\<close>, \<open>oms_request_cancel\<close> and
    \<open>on_venue_event\<close> with its validation order. The contract is the lifecycle relation
    \<open>lifecycle_step\<close> and the locale \<open>order_lifecycle\<close>: fills add up to the cumulative quantity
    and never exceed the order; every refused event leaves the order alone.
  \<^item> \<^verbatim>\<open>AccountingEngine\<close>: \<^verbatim>\<open>Accounting_Engine\<close>, with the locale \<open>ledger\<close>: position and cash are the
    sums over the fills applied, total profit is cash plus position at the mark.
  \<^item> \<^verbatim>\<open>Strategy\<close>, \<^verbatim>\<open>RiskEngine\<close>: \<^verbatim>\<open>Trading_Signals\<close>.
  \<^item> \<^verbatim>\<open>ExecutionSimulator\<close>: \<^verbatim>\<open>Execution_Simulator\<close>, aggressive orders, queue position and passive fills.
  \<^item> \<^verbatim>\<open>MockVenueGateway\<close>: \<^verbatim>\<open>Mock_Venue_Gateway\<close>. \<open>view_step\<close> is the protocol a client may rely on
    (locale \<open>venue_protocol\<close>); the batch of a tick holds at most three of its four slots, and
    an order manager linked to the gateway consumes every batch.
  \<^item> \<^verbatim>\<open>SpscRingBuffer\<close>: \<^verbatim>\<open>Spsc_Ring_Buffer\<close>, the sequential operations with the contract \<open>bounded_fifo\<close>,
    and the concurrent program with one step per shared access and stale acquire loads.
  \<^item> \<^verbatim>\<open>LatencyStats\<close>: \<^verbatim>\<open>Latency_Stats\<close>, with the nearest-rank percentiles and the tail mean.
  \<^item> \<^verbatim>\<open>fill_logger\<close>: \<^verbatim>\<open>Fill_Logger\<close>, log line and journal record of an event; decimal text is in
    \<^verbatim>\<open>Text_Format\<close>. The contract of a sink is the locale \<open>event_sink\<close> of \<^verbatim>\<open>Replay_Side_Channel\<close>,
    which \<^verbatim>\<open>LoggingEventSink\<close> meets with its log and with its journal (\<^verbatim>\<open>Trading_Main\<close>).
  \<^item> \<^verbatim>\<open>run_replay\<close>: \<^verbatim>\<open>Replay_Runner\<close>. \<open>ReplayCore\<close> is the business state of the loop's locals,
    \<open>SideChannel\<close> the sink, the queue and the collectors; each lambda of the function and each
    phase of a tick is a definition. Sink, clock and scheduling (how many turns the sink
    thread gets before each push) are the parameters of \<open>ReplayEnv\<close>. \<open>sink_drain\<close>, the sink
    thread after the loop, is a loop that might not end, and is proved to end.
  \<^item> \<^verbatim>\<open>CsvReader\<close>: \<^verbatim>\<open>Csv_Reader\<close>, every exception with category, path, line and message. \<open>file_denotes\<close>
    is the file format without the reader; the reader accepts exactly the valid feeds of it.
  \<^item> \<^verbatim>\<open>config_parser.cpp\<close>, \<^verbatim>\<open>layout_utils.cpp\<close>, \<^verbatim>\<open>main.cpp\<close>: \<^verbatim>\<open>Trading_Main\<close>, from the argument
    vector to the exit status, the report and the file written.
  \<^item> \<^verbatim>\<open>bench/bench_replay.cpp\<close>: \<^verbatim>\<open>Replay_Bench\<close>; \<^verbatim>\<open>bench/generate_replay.cpp\<close>: \<^verbatim>\<open>Tick_Generator\<close>;
    \<^verbatim>\<open>interview/thread_pool/thread_pool.h\<close>: \<^verbatim>\<open>Thread_Pool\<close>, a step relation with one step per critical
    section, notification and spurious wake-up; futures hold what a task returned or threw.

  \<^bold>\<open>How the replay is verified.\<close> \<^verbatim>\<open>Replay_Kernel\<close> is the abstract specification of the loop:
  the same phases on the business state alone. Every operation of \<^verbatim>\<open>Replay_Runner\<close> refines its
  kernel operation, so that the business outcome is a function of ticks, style and cancel
  delay. \<^verbatim>\<open>Replay_Safety\<close> proves the kernel's invariant \<open>kernel_inv\<close>: books against the journal,
  position limit under every partial execution, linked order manager and gateway, clean
  counters. \<^verbatim>\<open>Replay_Definedness\<close> gives bounds under which no checked operation fails.
  \<^verbatim>\<open>Replay_Relation\<close> is a proof principle for the concrete loop (locale \<open>loop_relation\<close>: a relation
  that holds over each emission and each measurement holds over the whole run), interpreted
  four times: for the account of delivered events (\<^verbatim>\<open>Replay_Side_Channel\<close>), for the number of samples
  per collector and for their size (\<^verbatim>\<open>Replay_Latency\<close>), and for the pushes of an asynchronous run
  (\<^verbatim>\<open>Sink_Thread\<close>). \<^verbatim>\<open>Replay_Properties\<close> holds the theorems about
  \<^verbatim>\<open>run_replay\<close>, for every sink, clock and scheduling; \<^verbatim>\<open>Trading_Main\<close> and \<^verbatim>\<open>Replay_Bench\<close> carry them to
  the two programs; \<^verbatim>\<open>Replay_Findings\<close> states behaviours of the code that look unintended.
  \<^verbatim>\<open>Sink_Thread\<close> justifies the schedules: it models the replay thread and the sink thread of an
  asynchronous run step by step, on the concurrent ring with stale loads, and proves that every
  interleaving that joins is a schedule of \<open>run_replay\<close>, and that the threads can always join.
  \<^verbatim>\<open>Run_Artifact\<close> proves the contract of \<^verbatim>\<open>docs/determinism.md\<close>: journal and selected report lines of a
  successful run depend on ticks, style and cancel delay only. \<^verbatim>\<open>Golden_Runs\<close> evaluates the kernel on the
  six fixtures of \<^verbatim>\<open>tests/fixtures/determinism\<close>: every successful run on one of them yields the file of
  \<^verbatim>\<open>tests/golden\<close>, byte by byte.
  \<^verbatim>\<open>Unit_Tests\<close> runs the unit tests of \<^verbatim>\<open>tests/\<close> on the model, check by check: each test function is a
  definition of its name, and each test passes; those of the thread pool hold under every interleaving.

  \<^bold>\<open>Bounds.\<close> No fuel is used: the loops are structural or proved to end. The bounds of \<open>run_limits\<close>
  and \<open>safe_feed\<close> (times, prices and number of ticks, against the 64-bit range) are hypotheses
  of the theorems that say a run is free of undefined behaviour; with prices below \<open>10^9\<close>, times
  below \<open>4 * 10^18\<close> and millions of ticks they hold.

  \<^bold>\<open>Parameters.\<close> What is not code of the repository is an argument: file contents, opening, writing
  to, flushing and testing an output stream (\<open>World\<close>), the clock, the scheduler, compiler
  macros. \<open>faithful_stream\<close> states what \<^verbatim>\<open>std::ofstream\<close> documents: a stream that stays good has
  stored what was written to it.

  \<^bold>\<open>Not modelled.\<close> Allocation failure; uncaught exceptions of the standard library; the width of the
  event counters (a tick raises each of them by at most five); output
  buffering on standard output; the instruction order below the acquire and release
  accesses of the ring buffer. Tasks of the thread pool
  that never return or that shut down their own pool. The random walk and the threaded
  stress test among the unit tests, the script that runs the golden cases, the Python twin of the thread pool and
  the build files.
\<close>

end
